(* ===== verification/Go_Prelude.thy ===== *)
theory Go_Prelude
  imports Main "HOL-Library.Word"
begin

text \<open>
  What every component of the model shares: the machine types of the Go program, the
  three-way outcome of a Go call (a value, a returned error, a run-time panic), and the
  generic lemmas on lists and outcomes that the component theories use.

  A Go function with an \<open>error\<close> result returns \<open>Ok v\<close> for a nil error and \<open>Err e\<close>
  otherwise. \<open>Panic\<close> is a run-time panic (index or slice bounds, integer division by zero,
  send on or close of a closed channel), which no function of the repository recovers from.
\<close>

section \<open>Machine types\<close>

type_synonym byte = "8 word"
type_synonym bytes = "8 word list"

text \<open>A \<open>uuid.UUID\<close> is an array of 16 bytes, compared by value.\<close>

type_synonym uuid = "128 word"

section \<open>Lemma collections\<close>

named_theorems go_defs \<open>definitions that the component proofs unfold\<close>
named_theorems go_frame \<open>which parts of a state an operation leaves unchanged\<close>
named_theorems go_inv \<open>operations that keep an invariant\<close>

section \<open>Outcomes\<close>

datatype ('e, 'a) outcome = Ok 'a | Err 'e | Panic

primrec go_bind :: "('e, 'a) outcome \<Rightarrow> ('a \<Rightarrow> ('e, 'b) outcome) \<Rightarrow> ('e, 'b) outcome" where
  "go_bind (Ok a) f = f a"
| "go_bind (Err e) f = Err e"
| "go_bind Panic f = Panic"

primrec is_ok :: "('e, 'a) outcome \<Rightarrow> bool" where
  "is_ok (Ok a) = True"
| "is_ok (Err e) = False"
| "is_ok Panic = False"

lemma go_bind_Ok_iff: "go_bind r f = Ok b \<longleftrightarrow> (\<exists>a. r = Ok a \<and> f a = Ok b)"
  by (cases r) auto

lemma go_bind_Panic_iff: "go_bind r f = Panic \<longleftrightarrow> r = Panic \<or> (\<exists>a. r = Ok a \<and> f a = Panic)"
  by (cases r) auto

lemma go_bind_assoc: "go_bind (go_bind r f) g = go_bind r (\<lambda>a. go_bind (f a) g)"
  by (cases r) auto

lemma is_ok_iff: "is_ok r \<longleftrightarrow> (\<exists>a. r = Ok a)"
  by (cases r) auto

section \<open>Lists\<close>

lemma take_append_one:
  "length xs < n \<Longrightarrow> take n (xs @ x # ys) = xs @ x # take (n - Suc (length xs)) ys"
  by (cases "n - length xs") (auto simp: Suc_diff_Suc diff_Suc split: nat.splits)

lemma filter_key_map_of:
  "map_of (filter (\<lambda>p. fst p \<noteq> k) m) = (map_of m)(k := None)"
proof (induction m)
  case Nil
  then show ?case by auto
next
  case (Cons p m)
  then show ?case by (cases p) (auto simp: fun_eq_iff)
qed

lemma distinct_filter_keys:
  "distinct (map fst m) \<Longrightarrow> distinct (map fst (filter P m))"
  by (induction m) auto

section \<open>Runs with steps of two kinds\<close>

text \<open>
  A run in which \<open>n\<close> steps are of the first kind and \<open>k\<close> of the second, in any order. Where each step of
  the first kind makes a weight smaller, and one of the second makes it larger by at most \<open>cost\<close>, the run
  bounds its own steps.
\<close>

inductive counted_run ::
    "('a \<Rightarrow> 'a \<Rightarrow> bool) \<Rightarrow> ('a \<Rightarrow> 'a \<Rightarrow> bool) \<Rightarrow> nat \<Rightarrow> nat \<Rightarrow> 'a \<Rightarrow> 'a \<Rightarrow> bool" for own other where
  Begin: "counted_run own other 0 0 s s"
| Own: "counted_run own other n k s t \<Longrightarrow> own t u \<Longrightarrow> counted_run own other (Suc n) k s u"
| Other: "counted_run own other n k s t \<Longrightarrow> other t u \<Longrightarrow> counted_run own other n (Suc k) s u"

locale winding =
  fixes own other :: "'a \<Rightarrow> 'a \<Rightarrow> bool" and inv :: "'a \<Rightarrow> bool" and load_of :: "'a \<Rightarrow> nat" and cost :: nat
  assumes own_step: "own s t \<Longrightarrow> inv s \<Longrightarrow> inv t \<and> load_of t < load_of s"
    and other_step: "other s t \<Longrightarrow> inv s \<Longrightarrow> inv t \<and> load_of t \<le> load_of s + cost"
begin

lemma bounded:
  assumes "counted_run own other n k s t" "inv s"
  shows "inv t \<and> n + load_of t \<le> load_of s + cost * k"
  using assms
proof (induction rule: counted_run.induct)
  case (Own n k s t u)
  then show ?case using own_step [of t u] by simp
next
  case (Other n k s t u)
  then show ?case using other_step [of t u] by simp
qed simp

end

section \<open>Decimal rendering of unsigned integers\<close>

text \<open>\<open>fmt.Sprintf("%d", n)\<close> on an unsigned integer.\<close>

fun nat_decimal :: "nat \<Rightarrow> string" where
  "nat_decimal n =
     (if n < 10 then [char_of (48 + n)] else nat_decimal (n div 10) @ [char_of (48 + n mod 10)])"

declare nat_decimal.simps [simp del]

end
