(* ===== verification/Go_Errors.thy ===== *)
theory Go_Errors
  imports Go_Prelude
begin

text \<open>
  Error values: \<open>pkg/errs/app\<close> (the sentinels and \<open>AppError\<close>), \<open>pkg/errs/handlers\<close> (the
  codes the public API returns) and \<open>CheckErr\<close> of \<open>internal/utils\<close>. A Go error is a tree:
  \<open>errors.Is\<close> and \<open>errors.AsType\<close> search it depth first through \<open>Unwrap\<close>.
\<close>

section \<open>Sentinels and AppError (pkg/errs/app/app-errs.go)\<close>

datatype sentinel =
    ErrNotFoundBase
  | ErrAlreadyExistsBase
  | ErrRequestTimeoutBase
  | ErrInvalidJsonBase
  | ErrValidationBase
  | ErrInternalServerErrorBase
  | AppClosingBase
  | ErrInvalidType
  | ErrOfflineBase
  | ErrConnToHimselfBase

primrec sentinel_text :: "sentinel \<Rightarrow> string" where
  "sentinel_text ErrNotFoundBase = ''not found''"
| "sentinel_text ErrAlreadyExistsBase = ''already exists''"
| "sentinel_text ErrRequestTimeoutBase = ''request timeout''"
| "sentinel_text ErrInvalidJsonBase = ''invalid json''"
| "sentinel_text ErrValidationBase = ''valdiation error''"
| "sentinel_text ErrInternalServerErrorBase = ''interanl error''"
| "sentinel_text AppClosingBase = ''app closing''"
| "sentinel_text ErrInvalidType = ''invalid type''"
| "sentinel_text ErrOfflineBase = ''offline''"
| "sentinel_text ErrConnToHimselfBase = ''cannot connect to himself''"

text \<open>
  The error values the program meets. \<open>AppError op err\<close> is the struct of the same name;
  \<open>JoinedErr a b\<close> is \<open>fmt.Errorf("%w : %w", a, b)\<close>; \<open>ErrorCode\<close> is the handlers' struct.
  \<open>CtxCanceled\<close>, \<open>CtxDeadlineExceeded\<close> and \<open>IoEOF\<close> are the standard library's values,
  \<open>PlainError\<close> a value made by \<open>errors.New\<close> where it is returned. \<open>QuicApplicationError\<close>
  is quic-go's \<open>*ApplicationError\<close> with its \<open>ErrorCode\<close>. \<open>LibError\<close> is any other error of a
  library: its text and the errors it wraps are whatever the library made them.
\<close>

datatype go_error =
    Base sentinel
  | AppError string go_error
  | JoinedErr go_error go_error
  | ErrorCode nat
  | CtxCanceled
  | CtxDeadlineExceeded
  | IoEOF
  | PlainError string
  | QuicApplicationError nat string
  | LibError string "go_error list"

type_synonym 'a res = "(go_error, 'a) outcome"

fun error_text :: "go_error \<Rightarrow> string" where
  "error_text (Base s) = sentinel_text s"
| "error_text (AppError op e) = error_text e"
| "error_text (JoinedErr a b) = error_text a @ '' : '' @ error_text b"
| "error_text (ErrorCode n) = nat_decimal n"
| "error_text CtxCanceled = ''context canceled''"
| "error_text CtxDeadlineExceeded = ''context deadline exceeded''"
| "error_text IoEOF = ''EOF''"
| "error_text (PlainError t) = t"
| "error_text (QuicApplicationError c t) = t"
| "error_text (LibError t es) = t"

fun unwrap_error :: "go_error \<Rightarrow> go_error list" where
  "unwrap_error (AppError op e) = [e]"
| "unwrap_error (JoinedErr a b) = [a, b]"
| "unwrap_error (LibError t es) = es"
| "unwrap_error _ = []"

text \<open>
  \<open>errors.Is\<close>: the error itself or one of the errors it wraps equals the target. Every target
  the program uses is a sentinel or a value of the standard library without an \<open>Is\<close> method.
\<close>

fun errors_is :: "go_error \<Rightarrow> go_error \<Rightarrow> bool" where
  "errors_is (AppError op e) t \<longleftrightarrow> AppError op e = t \<or> errors_is e t"
| "errors_is (JoinedErr a b) t \<longleftrightarrow> JoinedErr a b = t \<or> errors_is a t \<or> errors_is b t"
| "errors_is (LibError x es) t \<longleftrightarrow> LibError x es = t \<or> (\<exists>e \<in> set es. errors_is e t)"
| "errors_is e t \<longleftrightarrow> e = t"

text \<open>\<open>errors.AsType[*quic.ApplicationError]\<close>: the code of the first one in the tree.\<close>

fun as_application_error :: "go_error \<Rightarrow> nat option"
  and first_application_error :: "go_error list \<Rightarrow> nat option" where
  "as_application_error (QuicApplicationError c t) = Some c"
| "as_application_error (AppError op e) = as_application_error e"
| "as_application_error (JoinedErr a b) =
     (case as_application_error a of Some c \<Rightarrow> Some c | None \<Rightarrow> as_application_error b)"
| "as_application_error (LibError x es) = first_application_error es"
| "as_application_error _ = None"
| "first_application_error [] = None"
| "first_application_error (e # es) =
     (case as_application_error e of Some c \<Rightarrow> Some c | None \<Rightarrow> first_application_error es)"

definition new_app_error :: "string \<Rightarrow> go_error \<Rightarrow> go_error" where
  "new_app_error op e = AppError op e"

definition err_not_found :: "string \<Rightarrow> go_error" where
  "err_not_found op = AppError op (Base ErrNotFoundBase)"

definition err_already_exists :: "string \<Rightarrow> go_error" where
  "err_already_exists op = AppError op (Base ErrAlreadyExistsBase)"

definition err_request_timeout :: "string \<Rightarrow> go_error" where
  "err_request_timeout op = AppError op (Base ErrRequestTimeoutBase)"

definition err_invalid_json :: "string \<Rightarrow> go_error \<Rightarrow> go_error" where
  "err_invalid_json op e = AppError op (JoinedErr (Base ErrInvalidJsonBase) e)"

definition err_validation :: "string \<Rightarrow> go_error \<Rightarrow> go_error" where
  "err_validation op e = AppError op (JoinedErr (Base ErrValidationBase) e)"

definition err_internal :: "string \<Rightarrow> go_error" where
  "err_internal op = AppError op (Base ErrInternalServerErrorBase)"

definition app_closing :: "string \<Rightarrow> go_error" where
  "app_closing op = AppError op (Base AppClosingBase)"

definition err_offline :: "string \<Rightarrow> go_error" where
  "err_offline op = AppError op (Base ErrOfflineBase)"

definition err_conn_to_himself :: "string \<Rightarrow> go_error" where
  "err_conn_to_himself op = AppError op (Base ErrConnToHimselfBase)"

lemmas app_error_defs [go_defs] =
  new_app_error_def err_not_found_def err_already_exists_def err_request_timeout_def
  err_invalid_json_def err_validation_def err_internal_def app_closing_def err_offline_def
  err_conn_to_himself_def

text \<open>The pattern \<open>if err != nil { return errs.NewAppError(op, err) }\<close>.\<close>

primrec wrap_op :: "string \<Rightarrow> 'a res \<Rightarrow> 'a res" where
  "wrap_op op (Ok a) = Ok a"
| "wrap_op op (Err e) = Err (new_app_error op e)"
| "wrap_op op Panic = Panic"

text \<open>
  The answer of a library call: an error or a value (the libraries are not modelled as
  panicking). \<open>try_op\<close> is the pattern above inside an operation with state \<open>s\<close>.
\<close>

type_synonym 'a call = "go_error + 'a"

primrec of_call :: "'a call \<Rightarrow> 'a res" where
  "of_call (Inl e) = Err e"
| "of_call (Inr a) = Ok a"

definition try_op :: "string \<Rightarrow> 'a res \<Rightarrow> 's \<Rightarrow> ('a \<Rightarrow> 'b res \<times> 's) \<Rightarrow> 'b res \<times> 's" where
  "try_op op r s k =
     (case r of Ok a \<Rightarrow> k a | Err e \<Rightarrow> (Err (new_app_error op e), s) | Panic \<Rightarrow> (Panic, s))"

lemma try_op_simps [simp]:
  "try_op op (Ok a) s k = k a"
  "try_op op (Err e) s k = (Err (new_app_error op e), s)"
  "try_op op Panic s k = (Panic, s)"
  by (simp_all add: try_op_def)

text \<open>One part of an operation after the other, where the first has no result but an error.\<close>

definition go_then :: "unit res \<times> 's \<Rightarrow> ('s \<Rightarrow> 'b res \<times> 's) \<Rightarrow> 'b res \<times> 's" where
  "go_then p k = (case p of (Ok _, t) \<Rightarrow> k t | (Err e, t) \<Rightarrow> (Err e, t) | (Panic, t) \<Rightarrow> (Panic, t))"

lemma go_then_simps [simp]:
  "go_then (Ok u, t) k = k t" "go_then (Err e, t) k = (Err e, t)" "go_then (Panic, t) k = (Panic, t)"
  by (simp_all add: go_then_def)

lemma of_call_not_Panic [simp]: "of_call c \<noteq> Panic"
  by (cases c) simp_all

lemma of_call_Ok_iff [simp]: "of_call c = Ok a \<longleftrightarrow> c = Inr a"
  by (cases c) auto

lemma of_call_Err_iff [simp]: "of_call c = Err e \<longleftrightarrow> c = Inl e"
  by (cases c) auto

lemma wrap_op_Ok_iff [simp]: "wrap_op op r = Ok a \<longleftrightarrow> r = Ok a"
  by (cases r) auto

section \<open>Handler error codes (pkg/errs/handlers/handlers-errs.go)\<close>

datatype handler_code =
    H_SUCCESS
  | H_NOT_FOUND
  | H_ALREADY_EXISTS
  | H_REQUEST_TIMEOUT
  | H_VALIDATION_ERROR
  | H_CHAT_ERROR
  | H_VOICE_ERROR
  | H_VIDEO_ERROR
  | H_OFFLINE
  | H_INTERNAL_ERROR

primrec handler_code_num :: "handler_code \<Rightarrow> nat" where
  "handler_code_num H_SUCCESS = 0"
| "handler_code_num H_NOT_FOUND = 1"
| "handler_code_num H_ALREADY_EXISTS = 2"
| "handler_code_num H_REQUEST_TIMEOUT = 3"
| "handler_code_num H_VALIDATION_ERROR = 4"
| "handler_code_num H_CHAT_ERROR = 5"
| "handler_code_num H_VOICE_ERROR = 6"
| "handler_code_num H_VIDEO_ERROR = 7"
| "handler_code_num H_OFFLINE = 8"
| "handler_code_num H_INTERNAL_ERROR = 9"

definition new_error_message :: "handler_code \<Rightarrow> go_error" where
  "new_error_message c = ErrorCode (handler_code_num c)"

definition process_error :: "go_error \<Rightarrow> go_error" where
  "process_error e =
     (if errors_is e (Base ErrAlreadyExistsBase) then new_error_message H_ALREADY_EXISTS
      else if errors_is e (Base ErrNotFoundBase) then new_error_message H_NOT_FOUND
      else if errors_is e (Base ErrRequestTimeoutBase) then new_error_message H_REQUEST_TIMEOUT
      else if errors_is e (Base ErrValidationBase) then new_error_message H_VALIDATION_ERROR
      else if errors_is e (Base ErrOfflineBase) then new_error_message H_OFFLINE
      else new_error_message H_INTERNAL_ERROR)"

section \<open>CheckErr (internal/utils/utils.go)\<close>

text \<open>
  \<open>None\<close> is a nil result: the error is a cancellation, an end of stream or a peer's clean
  close (application error code 0). The context argument is not read by the code.
\<close>

definition check_err :: "go_error \<Rightarrow> go_error option" where
  "check_err e =
     (if errors_is e CtxCanceled \<or> errors_is e IoEOF then None
      else (case as_application_error e of
              Some c \<Rightarrow> if c = 0 then None else Some e
            | None \<Rightarrow> Some e))"

section \<open>Wrapping keeps what an error is\<close>

lemma errors_is_base_app_error [simp]:
  "errors_is (AppError op e) (Base s) = errors_is e (Base s)"
  by simp

text \<open>Wrapping through a chain of operations, innermost operation last.\<close>

fun wrap_ops :: "string list \<Rightarrow> go_error \<Rightarrow> go_error" where
  "wrap_ops [] e = e"
| "wrap_ops (op # ops) e = new_app_error op (wrap_ops ops e)"

lemma errors_is_wrap_ops [simp]:
  "errors_is (wrap_ops ops e) (Base s) = errors_is e (Base s)"
  by (induction ops) (auto simp: new_app_error_def)

lemma error_text_wrap_ops [simp]: "error_text (wrap_ops ops e) = error_text e"
  by (induction ops) (auto simp: new_app_error_def)

lemma process_error_code:
  "\<exists>c. process_error e = new_error_message c \<and>
       c \<in> {H_ALREADY_EXISTS, H_NOT_FOUND, H_REQUEST_TIMEOUT, H_VALIDATION_ERROR, H_OFFLINE,
            H_INTERNAL_ERROR}"
  by (auto simp: process_error_def)

text \<open>
  The code the API reports does not depend on the operations that wrapped the error on its
  way up, and neither does the error's text.
\<close>

lemma process_error_wrap_ops:
  "process_error (wrap_ops ops e) = process_error e \<and> error_text (wrap_ops ops e) = error_text e"
  by (simp add: process_error_def)

lemma check_err_app_error:
  "check_err (AppError op e) = None \<longleftrightarrow> check_err e = None"
  by (simp add: check_err_def split: option.splits)

end
