(* ===== verification/Go_Chan.thy ===== *)
theory Go_Chan
  imports Go_Errors
begin

text \<open>
  The synchronisation objects of the language that the program's state holds: buffered channels
  (\<open>make(chan T, n)\<close>), with the non-blocking send of a \<open>select\<close> with a \<open>default\<close> branch, the
  receive of a \<open>range\<close> loop and \<open>close\<close>. The contract of a bounded queue that
  drops what does not fit is the locale \<open>bounded_queue\<close>; the channel provides it.
\<close>

section \<open>Buffered channels\<close>

record 'a chan =
  ch_buf :: "'a list"
  ch_cap :: nat
  ch_closed :: bool

definition make_chan :: "nat \<Rightarrow> 'a chan" where
  "make_chan n = \<lparr>ch_buf = [], ch_cap = n, ch_closed = False\<rparr>"

text \<open>
  \<open>select { case c <- x: default: }\<close>. A send on a closed channel panics, also in a \<open>select\<close>
  with a \<open>default\<close>; a full buffer takes the \<open>default\<close> branch and \<open>x\<close> is dropped.
\<close>

definition try_send :: "'a \<Rightarrow> 'a chan \<Rightarrow> 'a chan res" where
  "try_send x c =
     (if ch_closed c then Panic
      else if length (ch_buf c) < ch_cap c then Ok (c\<lparr>ch_buf := ch_buf c @ [x]\<rparr>)
      else Ok c)"

text \<open>
  A receive: \<open>None\<close> blocks; \<open>Some (None, c)\<close> is the zero value of a closed and drained channel
  (a \<open>range\<close> loop ends there); \<open>Some (Some x, c')\<close> takes \<open>x\<close>.
\<close>

definition chan_recv :: "'a chan \<Rightarrow> ('a option \<times> 'a chan) option" where
  "chan_recv c =
     (case ch_buf c of
        x # xs \<Rightarrow> Some (Some x, c\<lparr>ch_buf := xs\<rparr>)
      | [] \<Rightarrow> if ch_closed c then Some (None, c) else None)"

definition chan_close :: "'a chan \<Rightarrow> 'a chan res" where
  "chan_close c = (if ch_closed c then Panic else Ok (c\<lparr>ch_closed := True\<rparr>))"

definition chan_ok :: "'a chan \<Rightarrow> bool" where
  "chan_ok c \<longleftrightarrow> length (ch_buf c) \<le> ch_cap c"

lemmas chan_defs [go_defs] = make_chan_def try_send_def chan_recv_def chan_close_def chan_ok_def

lemma make_chan_simps [simp]:
  "ch_buf (make_chan n) = []" "ch_cap (make_chan n) = n" "\<not> ch_closed (make_chan n)"
  "chan_ok (make_chan n)"
  by (simp_all add: make_chan_def chan_ok_def)

lemma try_send_Panic_iff [simp]: "try_send x c = Panic \<longleftrightarrow> ch_closed c"
  by (simp add: try_send_def)

lemma try_send_not_Err [simp]: "try_send x c \<noteq> Err e"
  by (simp add: try_send_def)

lemma chan_close_Panic_iff [simp]: "chan_close c = Panic \<longleftrightarrow> ch_closed c"
  by (simp add: chan_close_def)

lemma chan_close_not_Err [simp]: "chan_close c \<noteq> Err e"
  by (simp add: chan_close_def)

lemma try_send_OkD:
  assumes "try_send x c = Ok c'"
  shows "ch_cap c' = ch_cap c" "ch_closed c' = ch_closed c" "chan_ok c \<Longrightarrow> chan_ok c'"
    "ch_buf c' = ch_buf c \<or> ch_buf c' = ch_buf c @ [x]"
  using assms by (auto simp: try_send_def chan_ok_def split: if_splits)

lemma chan_recv_SomeD:
  assumes "chan_recv c = Some (v, c')"
  shows "ch_cap c' = ch_cap c" "ch_closed c' = ch_closed c" "chan_ok c \<Longrightarrow> chan_ok c'"
  using assms by (auto simp: chan_recv_def chan_ok_def split: list.splits if_splits)

lemma chan_recv_blocks_iff: "chan_recv c = None \<longleftrightarrow> ch_buf c = [] \<and> \<not> ch_closed c"
  by (simp add: chan_recv_def split: list.split)

section \<open>The contract of a bounded queue that drops what does not fit\<close>

locale bounded_queue =
  fixes offer :: "'a \<Rightarrow> 'q \<Rightarrow> 'q"
    and poll :: "'q \<Rightarrow> ('a \<times> 'q) option"
    and contents :: "'q \<Rightarrow> 'a list"
    and capacity :: "'q \<Rightarrow> nat"
    and invar :: "'q \<Rightarrow> bool"
  assumes contents_offer:
      "invar q \<Longrightarrow> contents (offer x q) =
         (if length (contents q) < capacity q then contents q @ [x] else contents q)"
    and capacity_offer: "invar q \<Longrightarrow> capacity (offer x q) = capacity q"
    and invar_offer: "invar q \<Longrightarrow> invar (offer x q)"
    and poll_empty: "invar q \<Longrightarrow> poll q = None \<longleftrightarrow> contents q = []"
    and poll_contents: "invar q \<Longrightarrow> poll q = Some (x, q') \<Longrightarrow> contents q = x # contents q'"
    and poll_capacity: "invar q \<Longrightarrow> poll q = Some (x, q') \<Longrightarrow> capacity q' = capacity q"
    and invar_poll: "invar q \<Longrightarrow> poll q = Some (x, q') \<Longrightarrow> invar q'"
    and invar_bound: "invar q \<Longrightarrow> length (contents q) \<le> capacity q"
begin

text \<open>A burst of offers with no poll in between keeps the oldest elements that fit.\<close>

lemma offers_contents:
  "invar q \<Longrightarrow>
     invar (fold offer xs q) \<and> capacity (fold offer xs q) = capacity q \<and>
     contents (fold offer xs q) = take (capacity q) (contents q @ xs)"
proof (induction xs arbitrary: q)
  case Nil
  then show ?case by (simp add: invar_bound)
next
  case (Cons x xs)
  have *: "invar (offer x q)" "capacity (offer x q) = capacity q"
    using Cons.prems by (simp_all add: invar_offer capacity_offer)
  show ?case
  proof (cases "length (contents q) < capacity q")
    case True
    then show ?thesis using Cons.IH [OF *(1)] * Cons.prems by (simp add: contents_offer)
  next
    case False
    then have "length (contents q) = capacity q"
      using invar_bound [OF Cons.prems] by simp
    then show ?thesis using Cons.IH [OF *(1)] * Cons.prems by (simp add: contents_offer)
  qed
qed

text \<open>Draining a queue delivers its contents, in order, and leaves it empty.\<close>

primrec drain :: "nat \<Rightarrow> 'q \<Rightarrow> 'a list \<times> 'q" where
  "drain 0 q = ([], q)"
| "drain (Suc n) q =
     (case poll q of None \<Rightarrow> ([], q) | Some (x, q') \<Rightarrow> (let (xs, r) = drain n q' in (x # xs, r)))"

lemma drain_contents:
  "invar q \<Longrightarrow> length (contents q) \<le> n \<Longrightarrow>
     fst (drain n q) = contents q \<and> contents (snd (drain n q)) = []"
proof (induction n arbitrary: q)
  case 0
  then show ?case by simp
next
  case (Suc n)
  show ?case
  proof (cases "poll q")
    case None
    with poll_empty [OF Suc.prems(1)] have "contents q = []" by simp
    with None show ?thesis by simp
  next
    case (Some p)
    obtain x q' where p: "p = (x, q')" by (cases p)
    have c: "contents q = x # contents q'" and i: "invar q'"
      using Suc.prems Some p by (auto intro: poll_contents invar_poll)
    have "length (contents q') \<le> n" using Suc.prems c by simp
    from Suc.IH [OF i this] show ?thesis using Some p c by (simp add: split_beta)
  qed
qed

end

section \<open>An open channel is a bounded queue\<close>

text \<open>What the senders and the \<open>range\<close> loop of an open channel do to it.\<close>

definition chan_offer :: "'a \<Rightarrow> 'a chan \<Rightarrow> 'a chan" where
  "chan_offer x c = (case (try_send x c :: 'a chan res) of Ok c' \<Rightarrow> c' | _ \<Rightarrow> c)"

definition chan_poll :: "'a chan \<Rightarrow> ('a \<times> 'a chan) option" where
  "chan_poll c = (case chan_recv c of Some (Some x, c') \<Rightarrow> Some (x, c') | _ \<Rightarrow> None)"

definition chan_open :: "'a chan \<Rightarrow> bool" where
  "chan_open c \<longleftrightarrow> \<not> ch_closed c \<and> chan_ok c"

lemma try_send_open: "chan_open c \<Longrightarrow> try_send x c = Ok (chan_offer x c)"
  by (auto simp: chan_open_def chan_offer_def try_send_def)

interpretation cq: bounded_queue chan_offer chan_poll ch_buf ch_cap chan_open
  by unfold_locales
    (auto simp: chan_offer_def chan_poll_def chan_open_def chan_defs
       split: list.splits if_splits option.splits)

end
