(* ===== verification/Wire.thy ===== *)
theory Wire
  imports Go_Errors
begin

text \<open>
  The bytes the peers exchange: the type byte in front of every payload (\<open>SetFirstByte\<close> of
  \<open>internal/utils\<close>, the constants of \<open>network-serv.go\<close>) and the ICE credentials that travel in
  an SDP message as two words separated by a space.
\<close>

section \<open>Type bytes\<close>

datatype sdp_type = CREDS | CANDIDATE

primrec sdp_byte :: "sdp_type \<Rightarrow> byte" where
  "sdp_byte CREDS = 0"
| "sdp_byte CANDIDATE = 1"

datatype msg_type = CHAT | VOICE | WEBCAM | SCREEN

primrec msg_byte :: "msg_type \<Rightarrow> byte" where
  "msg_byte CHAT = 0"
| "msg_byte VOICE = 1"
| "msg_byte WEBCAM = 2"
| "msg_byte SCREEN = 3"

lemma sdp_byte_inject [simp]: "sdp_byte a = sdp_byte b \<longleftrightarrow> a = b"
  by (cases a; cases b) simp_all

lemma msg_byte_inject [simp]: "msg_byte a = msg_byte b \<longleftrightarrow> a = b"
  by (cases a; cases b) simp_all

definition set_first_byte :: "byte \<Rightarrow> bytes \<Rightarrow> bytes" where
  "set_first_byte fb data = ([] @ [fb]) @ data"

lemma set_first_byte_simp [simp]: "set_first_byte fb data = fb # data"
  by (simp add: set_first_byte_def)

section \<open>ICE credentials\<close>

text \<open>The space character, and \<open>strings.Split(s, " ")\<close>.\<close>

definition space_byte :: byte where
  "space_byte = 32"

fun split_space :: "bytes \<Rightarrow> bytes list" where
  "split_space [] = [[]]"
| "split_space (b # bs) =
     (if b = space_byte then [] # split_space bs
      else (case split_space bs of w # ws \<Rightarrow> (b # w) # ws | [] \<Rightarrow> [[b]]))"

text \<open>\<open>fmt.Appendf(nil, "%s %s", localFrag, localPwd)\<close> behind the type byte.\<close>

definition creds_sdp :: "bytes \<Rightarrow> bytes \<Rightarrow> bytes" where
  "creds_sdp ufrag pwd = set_first_byte (sdp_byte CREDS) (ufrag @ [space_byte] @ pwd)"

definition candidate_sdp :: "bytes \<Rightarrow> bytes" where
  "candidate_sdp c = set_first_byte (sdp_byte CANDIDATE) c"

text \<open>The receiver's reading of a credentials payload; \<open>None\<close> is the silent return.\<close>

definition parse_creds :: "bytes \<Rightarrow> (bytes \<times> bytes) option" where
  "parse_creds payload =
     (let creds = split_space (tl payload)
      in if length creds < 2 then None else Some (creds ! 0, creds ! 1))"

lemma split_space_not_Nil [simp]: "split_space bs \<noteq> []"
  by (cases bs) (auto split: list.split)

lemma split_space_word:
  "space_byte \<notin> set w \<Longrightarrow> split_space (w @ space_byte # bs) = w # split_space bs"
  by (induction w) (auto split: list.split)

lemma split_space_single: "space_byte \<notin> set w \<Longrightarrow> split_space w = [w]"
  by (induction w) auto

lemma split_space_no_space: "w \<in> set (split_space bs) \<Longrightarrow> space_byte \<notin> set w"
proof (induction bs arbitrary: w)
  case (Cons b bs)
  obtain v vs where v: "split_space bs = v # vs" by (cases "split_space bs") auto
  then show ?case using Cons by (auto split: if_splits)
qed simp

lemma parse_creds_sdp:
  "space_byte \<notin> set ufrag \<Longrightarrow> space_byte \<notin> set pwd \<Longrightarrow>
     parse_creds (creds_sdp ufrag pwd) = Some (ufrag, pwd)"
  by (simp add: parse_creds_def creds_sdp_def split_space_word split_space_single)

text \<open>
  The credentials a peer announces are the ones the other peer hands to its ICE agent,
  whenever neither word contains a space (ICE fragments and passwords never do).
\<close>

lemma creds_roundtrip:
  assumes "space_byte \<notin> set ufrag" "space_byte \<notin> set pwd"
  shows "parse_creds (creds_sdp ufrag pwd) = Some (ufrag, pwd)"
  using assms by (rule parse_creds_sdp)

lemma creds_roundtrip_witness: "parse_creds (creds_sdp [97, 98] [99]) = Some ([97, 98], [99])"
  using creds_roundtrip [of "[97, 98]" "[99]"] by (simp add: space_byte_def)

lemma parse_creds_no_space:
  assumes "parse_creds p = Some (u, w)"
  shows "space_byte \<notin> set u \<and> space_byte \<notin> set w"
proof -
  let ?ws = "split_space (tl p)"
  from assms have "\<not> length ?ws < 2" "u = ?ws ! 0" "w = ?ws ! 1"
    by (auto simp: parse_creds_def Let_def split: if_splits)
  then have "u \<in> set ?ws" "w \<in> set ?ws" by auto
  then show ?thesis by (auto dest: split_space_no_space)
qed

end
