(* ===== verification/Session_Repo.thy ===== *)
theory Session_Repo
  imports Go_Chan Wire
begin

text \<open>
  The session data model (\<open>internal/domain/models/session.go\<close>) and the session store
  (\<open>internal/domain/repository/session-repo.go\<close>). The store holds pointers: a session is a
  reference, and deleting compares the reference, not the contents. The interface
  \<open>SessionRepository\<close> is the locale \<open>session_store\<close>; the \<open>sync.Map\<close> model provides it.
\<close>

section \<open>Sessions\<close>

type_synonym sref = nat

text \<open>Handles of the libraries' objects: an ICE agent, a QUIC connection, a QUIC stream.\<close>

type_synonym agent_id = nat
type_synonym conn_id = nat
type_synonym stream_id = nat

text \<open>
  The JSON decoder and encoder are bound to the secure stream over the event stream: the model
  keeps the stream and the key they were made with. The \<open>sync.Once\<close> of the code is two fields here:
  \<open>Closing\<close> is whether its function has got past closing the media channels, and \<open>Leaving\<close> what that
  call has still to do: delete the session from the store, or tell the others; the flag is
  \<open>isLeaveInitiator\<close>.
\<close>

datatype leave_stage = Deleting bool | Telling bool

record session =
  UserID :: uuid
  CurrentConnects :: "uuid list"
  Agent :: "agent_id option"
  Conn :: "conn_id option"
  EventStream :: "stream_id option"
  EventDecoder :: "(stream_id \<times> bytes) option"
  EventEncoder :: "(stream_id \<times> bytes) option"
  IsInitiator :: bool
  CredsChan :: "unit chan"
  Closing :: bool
  Leaving :: "leave_stage option"
  ReadyChan :: "unit chan"
  VoiceChan :: "bytes chan"
  WebcamChan :: "bytes chan"
  ScreenChan :: "bytes chan"
  Key :: bytes

section \<open>The store\<close>

text \<open>
  A \<open>sync.Map\<close> from ids to session pointers. The order of the list is the order in which
  \<open>Range\<close> would meet the entries; the code relies on none. Every value is a session pointer,
  so the type assertions of the code always succeed.
\<close>

type_synonym session_repo = "(uuid \<times> sref) list"

definition new_session_repository :: session_repo where
  "new_session_repository = []"

definition repo_lookup :: "session_repo \<Rightarrow> uuid \<Rightarrow> sref option" where
  "repo_lookup m = map_of m"

definition repo_valid :: "session_repo \<Rightarrow> bool" where
  "repo_valid m \<longleftrightarrow> distinct (map fst m)"

text \<open>The first argument of each operation is whether \<open>ctx.Done()\<close> is ready.\<close>

definition repo_add :: "bool \<Rightarrow> uuid \<Rightarrow> sref \<Rightarrow> session_repo \<Rightarrow> unit res \<times> session_repo" where
  "repo_add ctx_done i session m =
     (if ctx_done then (Err (err_request_timeout ''sessionRepository.Add''), m)
      else (case map_of m i of
              Some _ \<Rightarrow> (Err (err_already_exists ''sessionRepository.Add''), m)
            | None \<Rightarrow> (Ok (), (i, session) # m)))"

definition repo_delete :: "bool \<Rightarrow> uuid \<Rightarrow> sref \<Rightarrow> session_repo \<Rightarrow> unit res \<times> session_repo" where
  "repo_delete ctx_done i session m =
     (if ctx_done then (Err (err_request_timeout ''sessionRepository.Delete''), m)
      else if map_of m i = Some session then (Ok (), filter (\<lambda>p. fst p \<noteq> i) m)
      else (Err (err_not_found ''sessionRepository.Delete''), m))"

definition repo_get :: "bool \<Rightarrow> uuid \<Rightarrow> session_repo \<Rightarrow> sref res" where
  "repo_get ctx_done i m =
     (if ctx_done then Err (err_request_timeout ''sessionRepository.Get'')
      else (case map_of m i of
              None \<Rightarrow> Err (err_not_found ''sessionRepository.Get'')
            | Some user \<Rightarrow> Ok user))"

definition repo_fetch :: "bool \<Rightarrow> session_repo \<Rightarrow> sref list res" where
  "repo_fetch ctx_done m =
     (if ctx_done then Err (err_request_timeout ''sessionRepository.Fetch'')
      else Ok (fold (\<lambda>p sessions. sessions @ [snd p]) m []))"

text \<open>\<open>Clear\<close> ranges over the entries and deletes each; \<open>LoadAndDelete\<close> always finds it.\<close>

definition repo_clear :: "bool \<Rightarrow> session_repo \<Rightarrow> unit res \<times> session_repo" where
  "repo_clear ctx_done m =
     (if ctx_done then (Err (err_request_timeout ''sessionRepository.Clear''), m)
      else (Ok (), fold (\<lambda>p r. filter (\<lambda>q. fst q \<noteq> fst p) r) m m))"

lemmas repo_defs [go_defs] =
  new_session_repository_def repo_lookup_def repo_valid_def repo_add_def repo_delete_def
  repo_get_def repo_fetch_def repo_clear_def

lemma fold_collect: "fold (\<lambda>p acc. acc @ [f p]) m acc = acc @ map f m"
  by (induction m arbitrary: acc) auto

lemma repo_fetch_map: "repo_fetch False m = Ok (map snd m)"
  by (simp add: repo_fetch_def fold_collect)

lemma fold_filter_keys:
  "fold (\<lambda>p r. filter (\<lambda>q. fst q \<noteq> fst p) r) ps r = filter (\<lambda>q. fst q \<notin> fst ` set ps) r"
proof (induction ps arbitrary: r)
  case Nil
  then show ?case by simp
next
  case (Cons p ps)
  show ?case by (simp add: Cons.IH conj_commute)
qed

lemma repo_clear_empty: "repo_clear False m = (Ok (), [])"
  by (auto simp: repo_clear_def fold_filter_keys filter_empty_conv)

section \<open>The interface SessionRepository\<close>

locale session_store =
  fixes lookup :: "'m \<Rightarrow> uuid \<Rightarrow> sref option"
    and valid :: "'m \<Rightarrow> bool"
    and fresh :: "'m"
    and add :: "bool \<Rightarrow> uuid \<Rightarrow> sref \<Rightarrow> 'm \<Rightarrow> unit res \<times> 'm"
    and delete :: "bool \<Rightarrow> uuid \<Rightarrow> sref \<Rightarrow> 'm \<Rightarrow> unit res \<times> 'm"
    and get :: "bool \<Rightarrow> uuid \<Rightarrow> 'm \<Rightarrow> sref res"
    and fetch :: "bool \<Rightarrow> 'm \<Rightarrow> sref list res"
    and clear :: "bool \<Rightarrow> 'm \<Rightarrow> unit res \<times> 'm"
  assumes fresh_law: "valid fresh" "lookup fresh = Map.empty"
    and add_valid: "valid m \<Longrightarrow> valid (snd (add c i r m))"
    and delete_valid: "valid m \<Longrightarrow> valid (snd (delete c i r m))"
    and add_ok: "fst (add c i r m) = Ok () \<longleftrightarrow> \<not> c \<and> lookup m i = None"
    and add_lookup: "lookup (snd (add c i r m)) =
          (if \<not> c \<and> lookup m i = None then (lookup m)(i \<mapsto> r) else lookup m)"
    and add_exists: "lookup m i \<noteq> None \<Longrightarrow>
          (\<exists>e. fst (add False i r m) = Err e \<and> errors_is e (Base ErrAlreadyExistsBase))"
    and delete_ok: "fst (delete c i r m) = Ok () \<longleftrightarrow> \<not> c \<and> lookup m i = Some r"
    and delete_lookup: "valid m \<Longrightarrow> lookup (snd (delete c i r m)) =
          (if \<not> c \<and> lookup m i = Some r then (lookup m)(i := None) else lookup m)"
    and get_ok: "get c i m = Ok r \<longleftrightarrow> \<not> c \<and> lookup m i = Some r"
    and get_missing: "lookup m i = None \<Longrightarrow>
          (\<exists>e. get False i m = Err e \<and> errors_is e (Base ErrNotFoundBase))"
    and get_no_panic: "get c i m \<noteq> Panic"
    and fetch_live: "\<exists>rs. fetch False m = Ok rs"
    and fetch_set: "valid m \<Longrightarrow> fetch c m = Ok rs \<Longrightarrow> set rs = ran (lookup m)"
    and clear_lookup: "lookup (snd (clear False m)) = Map.empty"
    and clear_valid: "valid (snd (clear False m))"
begin

text \<open>Deleting with a reference the id no longer maps to changes nothing.\<close>

lemma delete_stale:
  "valid m \<Longrightarrow> lookup m i \<noteq> Some r \<Longrightarrow> lookup (snd (delete c i r m)) = lookup m"
  by (simp add: delete_lookup)

lemma get_after_add: "fst (add c i r m) = Ok () \<Longrightarrow> get False i (snd (add c i r m)) = Ok r"
  by (simp add: add_ok add_lookup get_ok)

lemma add_keeps: "lookup m i = Some q \<Longrightarrow> lookup (snd (add c j r m)) i = Some q"
  by (auto simp: add_lookup)

text \<open>Deleting every fetched session under its own id empties the store.\<close>

lemma delete_each_lookup:
  assumes "valid m" "\<forall>i r. lookup m i = Some r \<longrightarrow> own r = i"
  shows "valid (fold (\<lambda>r m. snd (delete False (own r) r m)) rs m) \<and>
    lookup (fold (\<lambda>r m. snd (delete False (own r) r m)) rs m) =
      (\<lambda>i. if \<exists>r \<in> set rs. lookup m i = Some r then None else lookup m i)"
  using assms
proof (induction rs arbitrary: m)
  case Nil
  then show ?case by simp
next
  case (Cons r rs)
  let ?m = "snd (delete False (own r) r m)"
  have v: "valid ?m" using Cons.prems(1) by (rule delete_valid)
  have l: "lookup ?m = (\<lambda>i. if lookup m i = Some r then None else lookup m i)"
  proof (rule ext)
    fix j
    show "lookup ?m j = (if lookup m j = Some r then None else lookup m j)"
    proof (cases "lookup m j = Some r")
      case True
      then have "own r = j" using Cons.prems(2) by blast
      with True show ?thesis using delete_lookup [OF Cons.prems(1)] by simp
    next
      case False
      then show ?thesis using delete_lookup [OF Cons.prems(1)] by (cases "own r = j") simp_all
    qed
  qed
  have "\<forall>i r. lookup ?m i = Some r \<longrightarrow> own r = i"
    using Cons.prems(2) by (auto simp: l split: if_splits)
  note IH = Cons.IH [OF v this]
  have "lookup (fold (\<lambda>r m. snd (delete False (own r) r m)) rs ?m) j =
      (if \<exists>q \<in> set (r # rs). lookup m j = Some q then None else lookup m j)" for j
    by (cases "lookup m j = Some r") (simp_all add: IH l)
  with IH show ?case by (simp add: fun_eq_iff)
qed

lemma delete_fetched_empty:
  assumes "valid m" "\<forall>i r. lookup m i = Some r \<longrightarrow> own r = i" "fetch c m = Ok rs"
  shows "lookup (fold (\<lambda>r m. snd (delete False (own r) r m)) rs m) = Map.empty"
proof -
  have "set rs = ran (lookup m)" using assms(1,3) by (rule fetch_set)
  then show ?thesis
    using delete_each_lookup [OF assms(1,2), of rs]
    by (auto simp: fun_eq_iff ran_def) (metis option.exhaust)
qed

end

interpretation sr: session_store repo_lookup repo_valid new_session_repository
  repo_add repo_delete repo_get repo_fetch repo_clear
proof (unfold_locales, goal_cases)
  case (14 m c rs)
  then have "rs = map snd m" "distinct (map fst m)"
    by (simp_all add: repo_defs fold_collect split: if_splits)
  then show ?case by (simp add: repo_lookup_def ran_distinct)
next
  case (3 m c i r)
  then show ?case
    by (auto simp: repo_valid_def repo_add_def map_of_eq_None_iff split: option.splits)
next
  case (15 m)
  then show ?case by (simp add: repo_clear_empty repo_lookup_def)
next
  case (16 m)
  then show ?case by (simp add: repo_clear_empty repo_valid_def)
qed (auto simp: repo_defs fold_collect filter_key_map_of distinct_filter_keys app_error_defs
      split: option.splits if_splits)

section \<open>Refinement: the store is a partial map\<close>

text \<open>A run of changing operations on the store, and the same run on a partial map.\<close>

datatype repo_op = OpAdd bool uuid sref | OpDelete bool uuid sref | OpClear

fun repo_step :: "session_repo \<Rightarrow> repo_op \<Rightarrow> session_repo" where
  "repo_step m (OpAdd c i r) = snd (repo_add c i r m)"
| "repo_step m (OpDelete c i r) = snd (repo_delete c i r m)"
| "repo_step m OpClear = snd (repo_clear False m)"

fun map_step :: "(uuid \<rightharpoonup> sref) \<Rightarrow> repo_op \<Rightarrow> (uuid \<rightharpoonup> sref)" where
  "map_step f (OpAdd c i r) = (if c \<or> f i \<noteq> None then f else f(i \<mapsto> r))"
| "map_step f (OpDelete c i r) = (if c \<or> f i \<noteq> Some r then f else f(i := None))"
| "map_step f OpClear = Map.empty"

lemma repo_step_refines:
  "repo_valid m \<Longrightarrow> repo_valid (repo_step m op) \<and> repo_lookup (repo_step m op) = map_step (repo_lookup m) op"
  by (cases op) (auto simp: sr.add_valid sr.delete_valid sr.add_lookup sr.delete_lookup sr.clear_lookup
      sr.clear_valid)

text \<open>
  C26: from an empty store, any sequence of operations leaves at most one session per id, and the
  store answers as the partial map on which the same sequence ran; what \<open>Fetch\<close> returns are
  exactly that map's sessions.
\<close>

theorem repo_refines_map:
  "repo_valid (foldl repo_step new_session_repository ops) \<and>
   repo_lookup (foldl repo_step new_session_repository ops) = foldl map_step Map.empty ops \<and>
   (\<exists>rs. repo_fetch False (foldl repo_step new_session_repository ops) = Ok rs \<and>
         set rs = ran (foldl map_step Map.empty ops))"
proof -
  have run: "repo_valid m \<Longrightarrow> repo_valid (foldl repo_step m ops) \<and>
      repo_lookup (foldl repo_step m ops) = foldl map_step (repo_lookup m) ops" for m
    by (induction ops arbitrary: m) (auto simp: repo_step_refines)
  let ?m = "foldl repo_step new_session_repository ops"
  have v: "repo_valid ?m" and l: "repo_lookup ?m = foldl map_step Map.empty ops"
    using run [of new_session_repository] sr.fresh_law by simp_all
  obtain rs where "repo_fetch False ?m = Ok rs" using sr.fetch_live by blast
  with sr.fetch_set [OF v this] v l show ?thesis by auto
qed

text \<open>
  Deleting with a stale reference (a session that was replaced under the same id) reports
  \<open>not found\<close> and keeps the session that replaced it.
\<close>

lemma repo_delete_stale:
  assumes "repo_valid m" "repo_lookup m i = Some q" "q \<noteq> r"
  shows "repo_lookup (snd (repo_delete c i r m)) = repo_lookup m \<and>
         fst (repo_delete c i r m) \<noteq> Ok () \<and> repo_get False i (snd (repo_delete c i r m)) = Ok q"
  using assms sr.delete_stale [OF assms(1), of i r c] by (simp add: sr.get_ok sr.delete_ok)

lemma repo_delete_stale_witness:
  "repo_lookup (snd (repo_delete False 7 1 [(7, 2)])) = repo_lookup [(7, 2)] \<and>
   fst (repo_delete False 7 1 [(7, 2)]) \<noteq> Ok () \<and>
   repo_get False 7 (snd (repo_delete False 7 1 [(7, 2)])) = Ok 2"
  by (rule repo_delete_stale) (simp_all add: repo_defs)

end
