(* ===== verification/E2EE.thy ===== *)
theory E2EE
  imports Wire
begin

text \<open>
  End-to-end encryption (\<open>internal/domain/e2ee\<close> and \<open>setupE2EE\<close> of
  \<open>services/networking/utils.go\<close>). The primitives of the standard library (AES-GCM, X25519,
  HKDF-SHA256) are a parameter, the record \<open>crypto\<close>; what their documentation promises is the
  pair of predicates \<open>gcm_ok\<close> and \<open>x25519_ok\<close>, which the properties name as hypotheses.
\<close>

section \<open>The primitives the code calls\<close>

record crypto =
  gcm_seal :: "bytes \<Rightarrow> bytes \<Rightarrow> bytes \<Rightarrow> bytes \<Rightarrow> bytes"
  gcm_open :: "bytes \<Rightarrow> bytes \<Rightarrow> bytes \<Rightarrow> bytes \<Rightarrow> bytes option"
  x25519_public :: "bytes \<Rightarrow> bytes"
  x25519_ecdh :: "bytes \<Rightarrow> bytes \<Rightarrow> bytes option"
  hkdf_sha256 :: "bytes \<Rightarrow> bytes"

text \<open>
  Arguments of \<open>gcm_seal\<close> and \<open>gcm_open\<close>: key, nonce, text, additional data. \<open>x25519_ecdh\<close> is
  \<open>None\<close> where \<open>ECDH\<close> returns an error; \<open>hkdf_sha256\<close> is the key stream of \<open>hkdf.New\<close> with a nil
  salt and info, as far as it is read here.
\<close>

definition gcm_nonce_size :: nat where "gcm_nonce_size = 12"

definition gcm_ok :: "crypto \<Rightarrow> bool" where
  "gcm_ok cr \<longleftrightarrow>
     (\<forall>k n p a. length n = gcm_nonce_size \<longrightarrow> gcm_open cr k n (gcm_seal cr k n p a) a = Some p) \<and>
     (\<forall>k n p a. length (gcm_seal cr k n p a) = length p + 16) \<and>
     (\<forall>k n c p a. gcm_open cr k n c a = Some p \<longrightarrow> c = gcm_seal cr k n p a)"

definition x25519_ok :: "crypto \<Rightarrow> bool" where
  "x25519_ok cr \<longleftrightarrow>
     (\<forall>a. length (x25519_public cr a) = 32) \<and>
     (\<forall>a b. x25519_ecdh cr a (x25519_public cr b) = x25519_ecdh cr b (x25519_public cr a)) \<and>
     (\<forall>s. 32 \<le> length (hkdf_sha256 cr s))"

text \<open>\<open>io.ReadFull\<close> of \<open>n\<close> bytes from a source that has the bytes \<open>src\<close> left.\<close>

definition io_read_full :: "nat \<Rightarrow> bytes \<Rightarrow> bytes res" where
  "io_read_full n src =
     (if n \<le> length src then Ok (take n src)
      else if src = [] then Err IoEOF
      else Err (LibError ''unexpected EOF'' []))"

text \<open>\<open>aes.NewCipher\<close>; the cipher is its key. \<open>cipher.NewGCM\<close> never fails on an AES block.\<close>

definition aes_new_cipher :: "bytes \<Rightarrow> bytes res" where
  "aes_new_cipher key =
     (if length key \<in> {16, 24, 32} then Ok key
      else Err (LibError ''crypto/aes: invalid key size'' []))"

text \<open>\<open>Seal\<close> and \<open>Open\<close> panic on a nonce of the wrong length.\<close>

definition aead_seal :: "crypto \<Rightarrow> bytes \<Rightarrow> bytes \<Rightarrow> bytes \<Rightarrow> bytes \<Rightarrow> bytes \<Rightarrow> bytes res" where
  "aead_seal cr key dst nonce plain ad =
     (if length nonce \<noteq> gcm_nonce_size then Panic else Ok (dst @ gcm_seal cr key nonce plain ad))"

definition aead_open :: "crypto \<Rightarrow> bytes \<Rightarrow> bytes \<Rightarrow> bytes \<Rightarrow> bytes \<Rightarrow> bytes res" where
  "aead_open cr key nonce ct ad =
     (if length nonce \<noteq> gcm_nonce_size then Panic
      else (case gcm_open cr key nonce ct ad of
              Some p \<Rightarrow> Ok p
            | None \<Rightarrow> Err (LibError ''cipher: message authentication failed'' [])))"

section \<open>e2ee.go\<close>

definition aad :: bytes where
  "aad = map (\<lambda>c. of_nat (of_char c)) ''aloh-hell-yeah''"

definition new_keys :: "crypto \<Rightarrow> bytes \<Rightarrow> (bytes \<times> bytes) res" where
  "new_keys cr rnd = go_bind (io_read_full 32 rnd) (\<lambda>priv. Ok (priv, x25519_public cr priv))"

definition new_aescm :: "bytes \<Rightarrow> bytes res" where
  "new_aescm key = go_bind (aes_new_cipher key) (\<lambda>block. Ok block)"

definition cipher_payload :: "crypto \<Rightarrow> bytes \<Rightarrow> bytes \<Rightarrow> bytes \<Rightarrow> bytes res" where
  "cipher_payload cr aead rnd payload =
     go_bind (io_read_full gcm_nonce_size rnd) (\<lambda>nonce.
       aead_seal cr aead nonce nonce payload aad)"

text \<open>\<open>data[:nonceSize], data[nonceSize:]\<close> panics when \<open>data\<close> is shorter than the nonce.\<close>

definition decipher_payload :: "crypto \<Rightarrow> bytes \<Rightarrow> bytes \<Rightarrow> bytes res" where
  "decipher_payload cr aead data =
     (if length data < gcm_nonce_size then Panic
      else let nonce = take gcm_nonce_size data; cipherPayload = drop gcm_nonce_size data
           in aead_open cr aead nonce cipherPayload aad)"

definition new_master_key :: "crypto \<Rightarrow> bytes \<Rightarrow> bytes \<Rightarrow> bytes res" where
  "new_master_key cr priv publicKeyByte =
     (if length publicKeyByte \<noteq> 32 then Err (LibError ''crypto/ecdh: invalid public key'' [])
      else (case x25519_ecdh cr priv publicKeyByte of
              None \<Rightarrow> Err (LibError ''crypto/ecdh: bad X25519 remote ECDH input'' [])
            | Some secret \<Rightarrow> io_read_full 32 (hkdf_sha256 cr secret)))"

section \<open>secure-datagram.go\<close>

definition cipher_datagram :: "crypto \<Rightarrow> bytes \<Rightarrow> bytes \<Rightarrow> bytes \<Rightarrow> bytes res" where
  "cipher_datagram cr rnd datagram key =
     go_bind (new_aescm key) (\<lambda>aesgcm. cipher_payload cr aesgcm rnd datagram)"

definition decipher_datagram :: "crypto \<Rightarrow> bytes \<Rightarrow> bytes \<Rightarrow> bytes res" where
  "decipher_datagram cr datagram key =
     go_bind (new_aescm key) (\<lambda>aesgcm. decipher_payload cr aesgcm datagram)"

lemmas e2ee_defs [go_defs] =
  gcm_nonce_size_def io_read_full_def aes_new_cipher_def aead_seal_def aead_open_def new_keys_def
  new_aescm_def cipher_payload_def decipher_payload_def new_master_key_def cipher_datagram_def
  decipher_datagram_def

section \<open>secure-stream.go\<close>

text \<open>
  A QUIC stream as the wrapper sees it. The kind decides the type assertions: only a
  bidirectional stream is an \<open>io.Reader\<close>, an \<open>io.Writer\<close> and an \<open>io.Closer\<close> at once. The bytes
  that will arrive before the peer's FIN, and the error a read, write or close meets, are what
  the connection decides.
\<close>

datatype stream_kind = BidiStream | SendStream | ReceiveStream

record quic_stream =
  qs_kind :: stream_kind
  qs_in :: bytes
  qs_read_err :: "go_error option"
  qs_out :: bytes
  qs_write_err :: "go_error option"
  qs_closed :: bool
  qs_close_err :: "go_error option"

definition is_reader :: "quic_stream \<Rightarrow> bool" where
  "is_reader s \<longleftrightarrow> qs_kind s \<noteq> SendStream"

definition is_writer :: "quic_stream \<Rightarrow> bool" where
  "is_writer s \<longleftrightarrow> qs_kind s \<noteq> ReceiveStream"

definition is_closer :: "quic_stream \<Rightarrow> bool" where
  "is_closer s \<longleftrightarrow> qs_kind s \<noteq> ReceiveStream"

definition stream_write :: "bytes \<Rightarrow> quic_stream \<Rightarrow> nat res \<times> quic_stream" where
  "stream_write p s =
     (case qs_write_err s of
        Some e \<Rightarrow> (Err e, s)
      | None \<Rightarrow> (Ok (length p), s\<lparr>qs_out := qs_out s @ p\<rparr>))"

definition stream_read :: "nat \<Rightarrow> quic_stream \<Rightarrow> bytes res \<times> quic_stream" where
  "stream_read n s =
     (if qs_in s \<noteq> [] then (Ok (take n (qs_in s)), s\<lparr>qs_in := drop n (qs_in s)\<rparr>)
      else (Err (case qs_read_err s of Some e \<Rightarrow> e | None \<Rightarrow> IoEOF), s))"

definition io_read_all :: "quic_stream \<Rightarrow> bytes res \<times> quic_stream" where
  "io_read_all s =
     (case qs_read_err s of
        Some e \<Rightarrow> (Err e, s\<lparr>qs_in := []\<rparr>)
      | None \<Rightarrow> (Ok (qs_in s), s\<lparr>qs_in := []\<rparr>))"

definition stream_close :: "quic_stream \<Rightarrow> unit res \<times> quic_stream" where
  "stream_close s =
     (case qs_close_err s of
        Some e \<Rightarrow> (Err e, s)
      | None \<Rightarrow> (Ok (), s\<lparr>qs_closed := True\<rparr>))"

record secure_stream =
  ss_stream :: quic_stream
  ss_aead :: bytes

definition new_secure_stream :: "quic_stream \<Rightarrow> bytes \<Rightarrow> secure_stream res" where
  "new_secure_stream qs key =
     go_bind (new_aescm key) (\<lambda>aesgcm. Ok \<lparr>ss_stream = qs, ss_aead = aesgcm\<rparr>)"

definition ss_read :: "nat \<Rightarrow> secure_stream \<Rightarrow> bytes res \<times> secure_stream" where
  "ss_read n ss =
     (if \<not> is_reader (ss_stream ss) then (Err (Base ErrInvalidType), ss)
      else let (r, qs) = stream_read n (ss_stream ss) in (r, ss\<lparr>ss_stream := qs\<rparr>))"

definition ss_write :: "bytes \<Rightarrow> secure_stream \<Rightarrow> nat res \<times> secure_stream" where
  "ss_write payload ss =
     (if \<not> is_writer (ss_stream ss) then (Err (Base ErrInvalidType), ss)
      else let (r, qs) = stream_write payload (ss_stream ss) in (r, ss\<lparr>ss_stream := qs\<rparr>))"

definition ss_send :: "crypto \<Rightarrow> bytes \<Rightarrow> bytes \<Rightarrow> secure_stream \<Rightarrow> unit res \<times> secure_stream" where
  "ss_send cr rnd payload ss =
     (case cipher_payload cr (ss_aead ss) rnd payload of
        Err e \<Rightarrow> (Err e, ss)
      | Panic \<Rightarrow> (Panic, ss)
      | Ok cipherPayload \<Rightarrow>
          if \<not> is_writer (ss_stream ss) then (Err (Base ErrInvalidType), ss)
          else (case stream_write cipherPayload (ss_stream ss) of
                  (Err e, qs) \<Rightarrow> (Err e, ss\<lparr>ss_stream := qs\<rparr>)
                | (Panic, qs) \<Rightarrow> (Panic, ss\<lparr>ss_stream := qs\<rparr>)
                | (Ok n, qs) \<Rightarrow> (Ok (), ss\<lparr>ss_stream := qs\<rparr>)))"

definition ss_close :: "secure_stream \<Rightarrow> unit res \<times> secure_stream" where
  "ss_close ss =
     (if \<not> is_closer (ss_stream ss) then (Err (Base ErrInvalidType), ss)
      else let (r, qs) = stream_close (ss_stream ss) in (r, ss\<lparr>ss_stream := qs\<rparr>))"

definition ss_receive :: "crypto \<Rightarrow> secure_stream \<Rightarrow> bytes res \<times> secure_stream" where
  "ss_receive cr ss =
     (if \<not> is_reader (ss_stream ss) then (Err (Base ErrInvalidType), ss)
      else (case io_read_all (ss_stream ss) of
              (Ok data, qs) \<Rightarrow> (decipher_payload cr (ss_aead ss) data, ss\<lparr>ss_stream := qs\<rparr>)
            | (Err e, qs) \<Rightarrow> (Err e, ss\<lparr>ss_stream := qs\<rparr>)
            | (Panic, qs) \<Rightarrow> (Panic, ss\<lparr>ss_stream := qs\<rparr>)))"

lemmas stream_defs [go_defs] =
  is_reader_def is_writer_def is_closer_def stream_write_def stream_read_def io_read_all_def
  stream_close_def new_secure_stream_def ss_read_def ss_write_def ss_send_def ss_close_def
  ss_receive_def

section \<open>setupE2EE (services/networking/utils.go)\<close>

text \<open>What the connection answers to the calls of \<open>setupE2EE\<close>, in their order.\<close>

record e2ee_env =
  ee_open :: "unit call"
  ee_write :: "unit call"
  ee_close :: "unit call"
  ee_accept :: "unit call"
  ee_read :: "bytes call"

text \<open>
  The result is the key the session gets, paired with the public key that was written to the
  peer (\<open>None\<close> when the code returned before the write).
\<close>

definition setup_e2ee :: "crypto \<Rightarrow> bytes \<Rightarrow> e2ee_env \<Rightarrow> bytes option \<times> bytes res" where
  "setup_e2ee cr rnd env =
     (case new_keys cr rnd of
        Err e \<Rightarrow> (None, Err e)
      | Panic \<Rightarrow> (None, Panic)
      | Ok (privKey, publicKey) \<Rightarrow>
          (case ee_open env of
             Inl e \<Rightarrow> (None, Err e)
           | Inr _ \<Rightarrow>
               (Some publicKey,
                go_bind (of_call (ee_write env)) (\<lambda>_.
                go_bind (of_call (ee_close env)) (\<lambda>_.
                go_bind (of_call (ee_accept env)) (\<lambda>_.
                go_bind (of_call (ee_read env)) (\<lambda>recPublicKeyBytes.
                  new_master_key cr privKey recPublicKeyBytes)))))))"

section \<open>Properties\<close>

definition aes_key :: "bytes \<Rightarrow> bool" where
  "aes_key key \<longleftrightarrow> length key \<in> {16, 24, 32}"

lemma new_aescm_key: "new_aescm key = (if aes_key key then Ok key else
    Err (LibError ''crypto/aes: invalid key size'' []))"
  by (simp add: new_aescm_def aes_new_cipher_def aes_key_def)

lemma cipher_payload_Ok:
  assumes "12 \<le> length rnd"
  shows "cipher_payload cr k rnd p = Ok (take 12 rnd @ gcm_seal cr k (take 12 rnd) p aad)"
  using assms by (simp add: cipher_payload_def io_read_full_def gcm_nonce_size_def aead_seal_def)

lemma decipher_payload_append:
  assumes "length nonce = 12"
  shows "decipher_payload cr k (nonce @ ct) = aead_open cr k nonce ct aad"
  using assms by (simp add: decipher_payload_def gcm_nonce_size_def)

lemma payload_roundtrip:
  assumes "gcm_ok cr" "12 \<le> length rnd" "cipher_payload cr k rnd p = Ok ct"
  shows "decipher_payload cr k ct = Ok p" "length ct = length p + 28"
proof -
  have ct: "ct = take 12 rnd @ gcm_seal cr k (take 12 rnd) p aad"
    using assms(2,3) cipher_payload_Ok by simp
  have len: "length (take 12 rnd) = gcm_nonce_size"
    using assms(2) by (simp add: gcm_nonce_size_def)
  then have "gcm_open cr k (take 12 rnd) (gcm_seal cr k (take 12 rnd) p aad) aad = Some p"
    using assms(1) unfolding gcm_ok_def by blast
  with len show "decipher_payload cr k ct = Ok p"
    by (simp add: ct decipher_payload_append aead_open_def gcm_nonce_size_def)
  show "length ct = length p + 28"
    using assms(1,2) by (simp add: ct gcm_ok_def)
qed

text \<open>
  A datagram sealed under the session key is opened by the peer to exactly what was sent, and
  grows by the nonce and the tag.
\<close>

lemma datagram_roundtrip:
  assumes "gcm_ok cr" "aes_key key" "12 \<le> length rnd"
  shows "\<exists>ct. cipher_datagram cr rnd datagram key = Ok ct \<and>
           decipher_datagram cr ct key = Ok datagram \<and> length ct = length datagram + 28"
proof -
  let ?ct = "take 12 rnd @ gcm_seal cr key (take 12 rnd) datagram aad"
  have "cipher_datagram cr rnd datagram key = Ok ?ct"
    using assms(2,3) by (simp add: cipher_datagram_def new_aescm_key cipher_payload_Ok)
  moreover have "decipher_datagram cr ?ct key = Ok datagram" "length ?ct = length datagram + 28"
    using payload_roundtrip [OF assms(1,3) cipher_payload_Ok [OF assms(3)], of key datagram] assms(2)
    by (simp_all add: decipher_datagram_def new_aescm_key)
  ultimately show ?thesis by blast
qed

text \<open>An instance of the primitives that meets the documented laws, for the witnesses.\<close>

definition pad32 :: "bytes \<Rightarrow> bytes" where
  "pad32 a = take 32 (a @ replicate 32 0)"

definition sample_crypto :: crypto where
  "sample_crypto =
     \<lparr>gcm_seal = (\<lambda>k n p a. p @ replicate 16 0),
      gcm_open = (\<lambda>k n c a.
        if 16 \<le> length c \<and> drop (length c - 16) c = replicate 16 0
        then Some (take (length c - 16) c) else None),
      x25519_public = pad32,
      x25519_ecdh = (\<lambda>a p. Some (map2 (+) (pad32 a) p)),
      hkdf_sha256 = pad32\<rparr>"

lemma length_pad32 [simp]: "length (pad32 a) = 32"
  by (simp add: pad32_def)

lemma sample_gcm_ok: "gcm_ok sample_crypto"
proof -
  have "c = take (length c - 16) c @ replicate 16 0"
    if "16 \<le> length c" "drop (length c - 16) c = replicate 16 (0 :: byte)" for c
    using that append_take_drop_id [of "length c - 16" c] by simp
  then show ?thesis
    by (auto simp: gcm_ok_def sample_crypto_def split: if_splits)
qed

lemma map2_add_commute: "map2 (+) (xs :: byte list) ys = map2 (+) ys xs"
  by (induction xs arbitrary: ys) (auto simp: zip_Cons1 add.commute split: list.split)

lemma sample_x25519_ok: "x25519_ok sample_crypto"
  by (simp add: x25519_ok_def sample_crypto_def map2_add_commute)

lemma datagram_roundtrip_witness:
  "\<exists>ct. cipher_datagram sample_crypto (replicate 12 5) [1, 2] (replicate 32 9) = Ok ct \<and>
     decipher_datagram sample_crypto ct (replicate 32 9) = Ok [1, 2] \<and> length ct = length [1, 2 :: byte] + 28"
  by (rule datagram_roundtrip [OF sample_gcm_ok]) (simp_all add: aes_key_def)

text \<open>
  What the sender's secure stream puts on a unidirectional stream, the receiver's secure
  stream reads back as the message that was sent.
\<close>

lemma secure_stream_roundtrip:
  assumes "gcm_ok cr" "aes_key key" "12 \<le> length rnd"
    and "is_writer out" "qs_out out = []" "qs_write_err out = None"
    and "is_reader inc" "qs_read_err inc = None"
    and "new_secure_stream out key = Ok tx" "ss_send cr rnd msg tx = (r, tx')"
    and "qs_in inc = qs_out (ss_stream tx')" "new_secure_stream inc key = Ok rx"
  shows "r = Ok () \<and> fst (ss_receive cr rx) = Ok msg"
proof -
  have tx: "tx = \<lparr>ss_stream = out, ss_aead = key\<rparr>" and rx: "rx = \<lparr>ss_stream = inc, ss_aead = key\<rparr>"
    using assms(2,9,12) by (simp_all add: new_secure_stream_def new_aescm_key)
  obtain ct where ct: "cipher_payload cr key rnd msg = Ok ct"
    using cipher_payload_Ok [OF assms(3)] by blast
  have "r = Ok ()" "qs_out (ss_stream tx') = ct"
    using assms(4,5,6,10) ct by (auto simp: tx ss_send_def stream_write_def)
  then show ?thesis
    using assms(7,8,11) payload_roundtrip(1) [OF assms(1,3) ct]
    by (simp add: rx ss_receive_def io_read_all_def)
qed

text \<open>A fresh stream of a kind, and the sender's stream after one message, for the witness.\<close>

definition sample_stream :: "stream_kind \<Rightarrow> bytes \<Rightarrow> quic_stream" where
  "sample_stream k inc =
     \<lparr>qs_kind = k, qs_in = inc, qs_read_err = None, qs_out = [], qs_write_err = None,
      qs_closed = False, qs_close_err = None\<rparr>"

definition sample_sent :: "unit res \<times> secure_stream" where
  "sample_sent = ss_send sample_crypto (replicate 12 5) [0, 7]
     \<lparr>ss_stream = sample_stream SendStream [], ss_aead = replicate 32 9\<rparr>"

lemma secure_stream_roundtrip_witness:
  "fst sample_sent = Ok () \<and>
   fst (ss_receive sample_crypto
     \<lparr>ss_stream = sample_stream ReceiveStream (qs_out (ss_stream (snd sample_sent))),
      ss_aead = replicate 32 9\<rparr>) = Ok [0, 7]"
  by (rule secure_stream_roundtrip [where out = "sample_stream SendStream []"
        and inc = "sample_stream ReceiveStream (qs_out (ss_stream (snd sample_sent)))"
        and tx' = "snd sample_sent" and key = "replicate 32 9" and rnd = "replicate 12 5",
        OF sample_gcm_ok])
    (simp_all add: aes_key_def sample_stream_def is_writer_def is_reader_def
      new_secure_stream_def new_aescm_key sample_sent_def)

text \<open>
  C28: only what was sealed under the session key, with the program's additional data, is ever
  accepted: a datagram that deciphers is one that \<open>CipherDatagram\<close> produces from the result.
\<close>

theorem decipher_only_sealed:
  assumes "gcm_ok cr" "decipher_datagram cr datagram key = Ok p"
  shows "cipher_datagram cr (take 12 datagram) p key = Ok datagram"
proof -
  have key: "aes_key key" and d: "decipher_payload cr key datagram = Ok p"
    using assms(2) by (auto simp: decipher_datagram_def new_aescm_key split: if_splits)
  have len: "12 \<le> length datagram"
    using d by (auto simp: decipher_payload_def gcm_nonce_size_def split: if_splits)
  have "gcm_open cr key (take 12 datagram) (drop 12 datagram) aad = Some p"
    using d len by (auto simp: decipher_payload_def aead_open_def gcm_nonce_size_def
        split: if_splits option.splits)
  then have "drop 12 datagram = gcm_seal cr key (take 12 datagram) p aad"
    using assms(1) unfolding gcm_ok_def by blast
  then have "take 12 datagram @ gcm_seal cr key (take 12 datagram) p aad = datagram"
    by (metis append_take_drop_id)
  then show ?thesis
    using key len by (simp add: cipher_datagram_def new_aescm_key cipher_payload_Ok)
qed

theorem decipher_only_sealed_witness:
  "cipher_datagram sample_crypto (take 12 (replicate 12 5 @ [7] @ replicate 16 0)) [7] (replicate 32 9) =
     Ok (replicate 12 5 @ [7] @ replicate 16 0)"
  by (rule decipher_only_sealed [OF sample_gcm_ok])
    (simp add: decipher_datagram_def new_aescm_key aes_key_def decipher_payload_def
      gcm_nonce_size_def aead_open_def sample_crypto_def)

text \<open>
  Deciphering is total except on input shorter than the nonce, where slicing the nonce off
  panics: the length of what arrives is not checked.
\<close>

lemma decipher_datagram_panics:
  "decipher_datagram cr datagram key = Panic \<longleftrightarrow> aes_key key \<and> length datagram < 12"
  by (auto simp: decipher_datagram_def new_aescm_key decipher_payload_def aead_open_def
      gcm_nonce_size_def split: option.splits)

lemma new_master_key_Ok:
  assumes "x25519_ok cr" "length pk = 32" "x25519_ecdh cr sk pk = Some secret"
  shows "new_master_key cr sk pk = Ok (take 32 (hkdf_sha256 cr secret))"
  using assms by (simp add: new_master_key_def io_read_full_def x25519_ok_def)

lemma setup_e2ee_Ok:
  assumes "32 \<le> length rnd" "ee_open env = Inr ()" "ee_write env = Inr ()" "ee_close env = Inr ()"
    "ee_accept env = Inr ()" "ee_read env = Inr pk"
  shows "setup_e2ee cr rnd env =
           (Some (x25519_public cr (take 32 rnd)), new_master_key cr (take 32 rnd) pk)"
  using assms by (simp add: setup_e2ee_def new_keys_def io_read_full_def)

text \<open>A connection on which every call succeeds and \<open>pk\<close> is what arrives.\<close>

definition e2ee_env_of :: "bytes \<Rightarrow> e2ee_env" where
  "e2ee_env_of pk = \<lparr>ee_open = Inr (), ee_write = Inr (), ee_close = Inr (), ee_accept = Inr (),
                     ee_read = Inr pk\<rparr>"

text \<open>
  C27: when each peer reads the public key the other one wrote, \<open>setupE2EE\<close> gives both sessions
  the same AES-256 key.
\<close>

theorem e2ee_key_agreement:
  assumes "x25519_ok cr" "32 \<le> length rndA" "32 \<le> length rndB"
    and "x25519_ecdh cr (take 32 rndA) (x25519_public cr (take 32 rndB)) \<noteq> None"
    and "setup_e2ee cr rndA (e2ee_env_of pkB) = (Some pkA, keyA)"
    and "setup_e2ee cr rndB (e2ee_env_of pkA) = (Some pkB, keyB)"
  shows "\<exists>key. keyA = Ok key \<and> keyB = Ok key \<and> length key = 32 \<and> aes_key key"
proof -
  have A: "pkA = x25519_public cr (take 32 rndA)" "keyA = new_master_key cr (take 32 rndA) pkB"
    and B: "pkB = x25519_public cr (take 32 rndB)" "keyB = new_master_key cr (take 32 rndB) pkA"
    using assms(5,6) setup_e2ee_Ok [OF assms(2), of "e2ee_env_of pkB"]
      setup_e2ee_Ok [OF assms(3), of "e2ee_env_of pkA"] by (simp_all add: e2ee_env_of_def)
  obtain secret where s: "x25519_ecdh cr (take 32 rndA) pkB = Some secret"
    using assms(4) B(1) by auto
  then have s': "x25519_ecdh cr (take 32 rndB) pkA = Some secret"
    using assms(1) A(1) B(1) by (simp add: x25519_ok_def)
  have "length pkA = 32" "length pkB = 32"
    using assms(1) A(1) B(1) by (simp_all add: x25519_ok_def)
  then have "keyA = Ok (take 32 (hkdf_sha256 cr secret))" "keyB = Ok (take 32 (hkdf_sha256 cr secret))"
    using A(2) B(2) s s' assms(1) by (simp_all add: new_master_key_Ok)
  moreover have "length (take 32 (hkdf_sha256 cr secret)) = 32"
    using assms(1) by (simp add: x25519_ok_def)
  ultimately show ?thesis by (auto simp: aes_key_def)
qed

theorem e2ee_key_agreement_witness:
  "\<exists>key. snd (setup_e2ee sample_crypto (replicate 32 1) (e2ee_env_of (replicate 32 2))) = Ok key \<and>
         snd (setup_e2ee sample_crypto (replicate 32 2) (e2ee_env_of (replicate 32 1))) = Ok key \<and>
         length key = 32 \<and> aes_key key"
  by (rule e2ee_key_agreement [OF sample_x25519_ok, where rndA = "replicate 32 1"
        and rndB = "replicate 32 2" and pkA = "replicate 32 1" and pkB = "replicate 32 2"])
    (simp_all add: sample_crypto_def pad32_def prod_eq_iff setup_e2ee_def new_keys_def
      io_read_full_def e2ee_env_of_def)

text \<open>
  \<open>SecureStream.Write\<close>, through which the JSON encoder of the event stream sends, puts its
  argument on the wire as it is, whatever the key; \<open>SecureStream.Read\<close> hands the wire's bytes on.
\<close>

lemma secure_stream_write_is_plaintext:
  assumes "is_writer (ss_stream ss)" "qs_write_err (ss_stream ss) = None"
  shows "fst (ss_write payload ss) = Ok (length payload) \<and>
         qs_out (ss_stream (snd (ss_write payload ss))) = qs_out (ss_stream ss) @ payload \<and>
         fst (ss_read n (ss\<lparr>ss_aead := key\<rparr>)) = fst (ss_read n ss)"
  using assms by (simp add: ss_write_def stream_write_def ss_read_def split_beta)

lemma secure_stream_write_is_plaintext_witness:
  "fst (ss_write [1] \<lparr>ss_stream = sample_stream BidiStream [], ss_aead = replicate 32 9\<rparr>) = Ok (length [1 :: byte]) \<and>
   qs_out (ss_stream (snd (ss_write [1] \<lparr>ss_stream = sample_stream BidiStream [], ss_aead = replicate 32 9\<rparr>))) =
     qs_out (sample_stream BidiStream []) @ [1] \<and>
   fst (ss_read 1 (\<lparr>ss_stream = sample_stream BidiStream [], ss_aead = replicate 32 9\<rparr>\<lparr>ss_aead := []\<rparr>)) =
     fst (ss_read 1 \<lparr>ss_stream = sample_stream BidiStream [], ss_aead = replicate 32 9\<rparr>)"
  using secure_stream_write_is_plaintext
    [of "\<lparr>ss_stream = sample_stream BidiStream [], ss_aead = replicate 32 9\<rparr>" "[1]" 1 "[]"]
  by (simp add: sample_stream_def is_writer_def)

end
