(* ===== verification/Sparse_Log.thy ===== *)
theory Sparse_Log
  imports Go_Errors
begin

text \<open>
  \<open>pkg/logger\<close>: which records a logger lets through (\<open>logger.go\<close>, on top of \<open>log/slog\<close>) and the
  sampling of \<open>sparce-logger.go\<close>. Nothing else of the program depends on what is logged, except
  that the sampling divides by a configured number.
\<close>

section \<open>Levels and loggers (logger.go)\<close>

datatype log_level = LevelDebug | LevelInfo | LevelWarn | LevelError

primrec level_num :: "log_level \<Rightarrow> int" where
  "level_num LevelDebug = - 4"
| "level_num LevelInfo = 0"
| "level_num LevelWarn = 4"
| "level_num LevelError = 8"

lemma level_num_inject [simp]: "level_num a = level_num b \<longleftrightarrow> a = b"
  by (cases a; cases b) simp_all

instantiation log_level :: linorder
begin

definition less_eq_log_level :: "log_level \<Rightarrow> log_level \<Rightarrow> bool" where
  "less_eq_log_level a b \<longleftrightarrow> level_num a \<le> level_num b"

definition less_log_level :: "log_level \<Rightarrow> log_level \<Rightarrow> bool" where
  "less_log_level a b \<longleftrightarrow> level_num a < level_num b"

instance
  by standard (auto simp: less_eq_log_level_def less_log_level_def)

end

datatype log_format = TextHandler | JSONHandler

record logger =
  log_format :: log_format
  log_min :: log_level
  log_attrs :: "(string \<times> string) list"

record log_record =
  lr_level :: log_level
  lr_msg :: string
  lr_attrs :: "(string \<times> string) list"

text \<open>
  \<open>NewLogger\<close> opens the log file when a path is configured, and panics when it cannot; then it chooses
  the handler for \<open>acfg.Env\<close> and sets the three attributes every record of the logger has.
\<close>

definition open_log :: "string \<Rightarrow> unit call \<Rightarrow> unit res" where
  "open_log logPath opened =
     (if logPath \<noteq> [] then (case opened of Inl e \<Rightarrow> Panic | Inr _ \<Rightarrow> Ok ()) else Ok ())"

definition new_logger :: "string \<Rightarrow> string \<Rightarrow> string \<Rightarrow> logger" where
  "new_logger env name version =
     (let (fmt, lvl) =
            (if env = ''local'' then (TextHandler, LevelDebug)
             else if env = ''dev'' then (JSONHandler, LevelDebug)
             else if env = ''prod'' then (JSONHandler, LevelInfo)
             else (JSONHandler, LevelInfo))
      in \<lparr>log_format = fmt, log_min = lvl,
          log_attrs = [(''env'', env), (''app'', name), (''version'', version)]\<rparr>)"

definition log_emit :: "logger \<Rightarrow> log_level \<Rightarrow> string \<Rightarrow> (string \<times> string) list \<Rightarrow> log_record list" where
  "log_emit l lvl msg args =
     (if log_min l \<le> lvl
      then [\<lparr>lr_level = lvl, lr_msg = msg, lr_attrs = log_attrs l @ args\<rparr>] else [])"

definition log_info :: "logger \<Rightarrow> string \<Rightarrow> (string \<times> string) list \<Rightarrow> log_record list" where
  "log_info l msg args = log_emit l LevelInfo msg args"

definition log_error :: "logger \<Rightarrow> string \<Rightarrow> (string \<times> string) list \<Rightarrow> log_record list" where
  "log_error l msg args = log_emit l LevelError msg args"

definition log_debug :: "logger \<Rightarrow> string \<Rightarrow> (string \<times> string) list \<Rightarrow> log_record list" where
  "log_debug l msg args = log_emit l LevelDebug msg args"

definition add_op :: "string \<Rightarrow> logger \<Rightarrow> logger" where
  "add_op op l = l\<lparr>log_attrs := log_attrs l @ [(''op'', op)]\<rparr>"

text \<open>Attributes: an error, a value, and a list of them.\<close>

definition log_err :: "go_error \<Rightarrow> string \<times> string" where
  "log_err e = (''error'', error_text e)"

definition log_attr :: "string \<Rightarrow> 'v \<Rightarrow> string \<times> 'v" where
  "log_attr key val = (key, val)"

definition new_log_data :: "'v list \<Rightarrow> 'v list" where
  "new_log_data attrs = fold (\<lambda>a ld. ld @ [a]) attrs []"

lemmas logger_defs [go_defs] =
  new_logger_def log_emit_def log_info_def log_error_def log_debug_def add_op_def

section \<open>Sparse logging (sparce-logger.go)\<close>

record sparse_logger =
  sl_logger :: logger
  sl_target :: "32 word"

definition sparse :: "logger \<Rightarrow> 32 word \<Rightarrow> sparse_logger" where
  "sparse l target = \<lparr>sl_logger = l, sl_target = target\<rparr>"

text \<open>
  The guard \<open>count%sl.target == 0 || count == 1\<close>: the remainder is evaluated first, and a zero
  target makes it panic.
\<close>

definition sparse_guard :: "32 word \<Rightarrow> 32 word \<Rightarrow> bool res" where
  "sparse_guard target count =
     (if target = 0 then Panic else Ok (count mod target = 0 \<or> count = 1))"

definition sparse_log ::
    "sparse_logger \<Rightarrow> log_level \<Rightarrow> 32 word \<Rightarrow> string \<Rightarrow> (string \<times> string) list \<Rightarrow>
     log_record list res" where
  "sparse_log sl lvl count msg args =
     go_bind (sparse_guard (sl_target sl) count)
       (\<lambda>b. Ok (if b then log_emit (sl_logger sl) lvl msg args else []))"

definition sparse_info ::
    "sparse_logger \<Rightarrow> 32 word \<Rightarrow> string \<Rightarrow> (string \<times> string) list \<Rightarrow> log_record list res" where
  "sparse_info sl count msg args = sparse_log sl LevelInfo count msg args"

definition sparse_error ::
    "sparse_logger \<Rightarrow> 32 word \<Rightarrow> string \<Rightarrow> (string \<times> string) list \<Rightarrow> log_record list res" where
  "sparse_error sl count msg args = sparse_log sl LevelError count msg args"

definition sparse_debug ::
    "sparse_logger \<Rightarrow> 32 word \<Rightarrow> string \<Rightarrow> (string \<times> string) list \<Rightarrow> log_record list res" where
  "sparse_debug sl count msg args = sparse_log sl LevelDebug count msg args"

lemmas sparse_defs [go_defs] =
  sparse_def sparse_guard_def sparse_log_def sparse_info_def sparse_error_def sparse_debug_def

lemma sparse_guard_Panic_iff [simp]: "sparse_guard t c = Panic \<longleftrightarrow> t = 0"
  by (simp add: sparse_guard_def)

text \<open>How many of the counts \<open>1, \<dots>, n\<close> pass the guard.\<close>

definition sparse_passes :: "32 word \<Rightarrow> nat \<Rightarrow> nat" where
  "sparse_passes target n =
     length (filter (\<lambda>k. sparse_guard target (of_nat k) = (Ok True :: bool res)) [1..<Suc n])"

lemma sparse_guard_of_nat:
  assumes "target \<noteq> 0" "k < 2 ^ 32"
  shows "sparse_guard target (of_nat k) = Ok (k mod unat target = 0 \<or> k = 1)"
proof -
  have k: "unat (of_nat k :: 32 word) = k" using assms(2) by (simp add: unat_of_nat)
  have "((of_nat k :: 32 word) mod target = 0) = (k mod unat target = 0)"
    by (simp add: word_unat_eq_iff unat_mod_distrib k)
  moreover have "((of_nat k :: 32 word) = 1) = (k = 1)"
    using k by (auto simp: word_unat_eq_iff)
  ultimately show ?thesis using assms(1) by (simp add: sparse_guard_def)
qed

lemma sparse_passes_Suc:
  assumes "target \<noteq> 0" "Suc n < 2 ^ 32"
  shows "sparse_passes target (Suc n) =
           sparse_passes target n + (if Suc n mod unat target = 0 \<or> n = 0 then 1 else 0)"
proof -
  define P where "P = (\<lambda>k. sparse_guard target (of_nat k) = (Ok True :: bool res))"
  have passes: "sparse_passes target m = length (filter P [1..<Suc m])" for m
    by (simp only: sparse_passes_def P_def)
  have "P (Suc n) \<longleftrightarrow> Suc n mod unat target = 0 \<or> n = 0"
    using sparse_guard_of_nat [OF assms] by (simp only: P_def) simp
  moreover have "[1..<Suc (Suc n)] = [1..<Suc n] @ [Suc n]" by (rule upt_Suc_append) simp
  ultimately show ?thesis by (simp add: passes)
qed

text \<open>
  With a positive target and no wrap of the 32-bit counter, of the first \<open>n\<close> records exactly
  every target-th one is written, and the first one in any case.
\<close>

lemma sparse_passes_count:
  assumes "target \<noteq> 0" "n < 2 ^ 32"
  shows "sparse_passes target n = n div unat target + (if n > 0 \<and> target \<noteq> 1 then 1 else 0)"
  using assms(2)
proof (induction n)
  case 0
  then show ?case by (simp add: sparse_passes_def)
next
  case (Suc n)
  have pos: "unat target > 0" using assms(1) by (simp add: unat_gt_0)
  have one: "unat target = 1 \<longleftrightarrow> target = 1" by (simp add: word_unat_eq_iff)
  have "Suc n div unat target = n div unat target + (if Suc n mod unat target = 0 then 1 else 0)"
    by (simp add: div_Suc)
  moreover have "n = 0 \<Longrightarrow> Suc n mod unat target = 0 \<longleftrightarrow> target = 1"
    using one pos by auto
  ultimately show ?case
    using Suc sparse_passes_Suc [OF assms(1) Suc.prems] by auto
qed

lemma sparse_passes_count_witness: "sparse_passes 100 250 = 250 div unat (100 :: 32 word) + 1"
  using sparse_passes_count [of 100 250] by simp

text \<open>With the zero value of the configured target every sampled log call panics.\<close>

lemma sparse_log_zero_target:
  "sparse_log (sparse l 0) lvl count msg args = Panic"
  by (simp add: sparse_defs)

end
