(* ===== verification/Config_Model.thy ===== *)
theory Config_Model
  imports Go_Errors
begin

text \<open>
  The configuration (\<open>config/config.go\<close>) and what is handed to TLS and QUIC. A \<open>time.Duration\<close> is a number of nanoseconds; the
  model reads only the log targets, and every deadline is a moment at which a context is done,
  which the operations take as an argument.
\<close>

type_synonym duration = int

record app_config =
  app_Name :: string
  app_Version :: string
  app_Env :: string
  app_ReceiveSDPSize :: int
  app_SendSDPSize :: int
  app_LogPath :: string

record signaling_config =
  sg_Address :: string
  sg_Port :: string
  sg_MaxIdleTimeout :: duration
  sg_HandshakeTimeout :: duration
  sg_KeepAlivePeriodTimeout :: duration
  sg_CloseTimeout :: duration
  sg_StartTimeout :: duration
  sg_NextProtos :: "string list"
  sg_MaxIncomingStreams :: int
  sg_MaxIncomingUniStreams :: int
  sg_RegTimeout :: duration

record networking_config =
  nw_MaxIdleTimeout :: duration
  nw_HandshakeTimeout :: duration
  nw_KeepAlivePeriodTimeout :: duration
  nw_NextProtos :: "string list"
  nw_STUNHost :: string
  nw_STUNPort :: int
  nw_TURNHost :: string
  nw_TURNPort :: int
  nw_NewSDPTimeout :: duration
  nw_SendInStreamTimeout :: duration
  nw_EstablishConnTimeout :: duration
  nw_DatagramLogTargetCount :: "32 word"
  nw_FetchLogTargetCount :: "32 word"
  nw_DisconnectedTimeout :: duration

record handler_config =
  hd_SendVideoTimeout :: duration
  hd_SendChatTimeout :: duration
  hd_SendVoiceTimeout :: duration
  hd_ConnectTimeout :: duration
  hd_DisonnectTimeout :: duration
  hd_FetchOnlineTimeout :: duration

record config =
  cfg_App :: app_config
  cfg_Signaling :: signaling_config
  cfg_Networking :: networking_config
  cfg_Handler :: handler_config

text \<open>
  What the program hands to \<open>crypto/tls\<close> and \<open>quic-go\<close>: the fields it sets; a certificate is the bytes the
  library made.
\<close>

record tls_conf =
  tls_InsecureSkipVerify :: bool
  tls_Certificates :: "bytes list"
  tls_NextProtos :: "string list"

record quic_conf =
  qc_HandshakeIdleTimeout :: duration
  qc_MaxIdleTimeout :: duration
  qc_MaxIncomingStreams :: int
  qc_MaxIncomingUniStreams :: int
  qc_KeepAlivePeriod :: duration
  qc_EnableDatagrams :: bool

record conn_conf =
  cc_quicConf :: quic_conf
  cc_tlsConf :: tls_conf
  cc_addr :: string

text \<open>
  \<open>GenerateTLSConfig\<close> of \<open>internal/utils\<close>, for QUIC connections between peers: a key, a certificate the key
  signs for itself, and both read back from their PEM blocks. The three calls of the standard library are
  functions of the argument \<open>env\<close>; an error of any of them is a panic.
\<close>

record cert_env =
  ce_GenerateKey :: "bytes call"
  ce_CreateCertificate :: "bytes \<Rightarrow> bytes call"
  ce_X509KeyPair :: "bytes \<Rightarrow> bytes \<Rightarrow> bytes call"

definition generate_tls_config :: "cert_env \<Rightarrow> string list \<Rightarrow> tls_conf res" where
  "generate_tls_config env protos =
     (case ce_GenerateKey env of
        Inl _ \<Rightarrow> Panic
      | Inr key \<Rightarrow>
          (case ce_CreateCertificate env key of
             Inl _ \<Rightarrow> Panic
           | Inr certDER \<Rightarrow>
               (case ce_X509KeyPair env certDER key of
                  Inl _ \<Rightarrow> Panic
                | Inr tlsCert \<Rightarrow>
                    Ok \<lparr>tls_InsecureSkipVerify = True, tls_Certificates = [tlsCert], tls_NextProtos = protos\<rparr>)))"

text \<open>Every configuration the program makes skips the verification of the other side's certificate.\<close>

lemma generate_tls_config_unverified:
  "generate_tls_config env protos = Ok t \<Longrightarrow>
     tls_InsecureSkipVerify t \<and> tls_NextProtos t = protos \<and> length (tls_Certificates t) = 1"
  by (auto simp: generate_tls_config_def split: sum.splits)

lemma generate_tls_config_total: "generate_tls_config env protos \<noteq> Err e"
  by (simp add: generate_tls_config_def split: sum.split)

text \<open>\<open>NewSignalingClient\<close>: how the server is dialed.\<close>

definition signaling_conn_conf :: "signaling_config \<Rightarrow> conn_conf" where
  "signaling_conn_conf cfg =
     \<lparr>cc_quicConf =
        \<lparr>qc_HandshakeIdleTimeout = sg_HandshakeTimeout cfg, qc_MaxIdleTimeout = sg_MaxIdleTimeout cfg,
         qc_MaxIncomingStreams = sg_MaxIncomingStreams cfg,
         qc_MaxIncomingUniStreams = sg_MaxIncomingUniStreams cfg,
         qc_KeepAlivePeriod = sg_KeepAlivePeriodTimeout cfg, qc_EnableDatagrams = True\<rparr>,
      cc_tlsConf = \<lparr>tls_InsecureSkipVerify = True, tls_Certificates = [], tls_NextProtos = sg_NextProtos cfg\<rparr>,
      cc_addr = sg_Address cfg @ '':'' @ sg_Port cfg\<rparr>"

end
