(* ===== verification/Net_State.thy ===== *)
theory Net_State
  imports Session_Repo E2EE Sparse_Log Config_Model
begin

text \<open>
  The state of the networking service (\<open>networkingServ\<close> and \<open>handlers\<close> of
  \<open>services/networking\<close>) and the event type of \<open>protocol.go\<close>. Sessions live in a heap, because
  the goroutines of a session keep its pointer after the store has dropped it. What the service
  does to the outside is recorded in order: callbacks of the user, requests to the signaling
  client, calls that change an object of the ICE and QUIC libraries.
\<close>

section \<open>Events (protocol.go)\<close>

datatype event_type =
    FULL_MUTE | MIC_MUTE | HARD_DENOISE | SOFT_DENOISE | WEBCAM_STATE | SCREEN_STATE
  | WEBCAM_KEY_FRAME | SCREEN_KEY_FRAME | GENERAL

primrec event_type_num :: "event_type \<Rightarrow> nat" where
  "event_type_num FULL_MUTE = 0"
| "event_type_num MIC_MUTE = 1"
| "event_type_num HARD_DENOISE = 2"
| "event_type_num SOFT_DENOISE = 3"
| "event_type_num WEBCAM_STATE = 4"
| "event_type_num SCREEN_STATE = 5"
| "event_type_num WEBCAM_KEY_FRAME = 6"
| "event_type_num SCREEN_KEY_FRAME = 7"
| "event_type_num GENERAL = 8"

record event =
  Typee :: nat
  Data :: bytes
  Timestamp :: int

record general_data =
  FullMute :: bool
  MicMute :: bool
  HardDenoise :: bool
  SoftDenoise :: bool

section \<open>Handlers (handlers.go)\<close>

text \<open>
  A handler is the callback's observable behaviour: the list of effects a call has on the user's
  side, of any type \<open>'c\<close>. \<open>None\<close> is an \<open>atomic.Value\<close> in which nothing was stored.
\<close>

type_synonym 'c data_handler = "uuid \<Rightarrow> bytes \<Rightarrow> 'c list"
type_synonym 'c connection_handler = "uuid \<Rightarrow> 'c list"
type_synonym 'c event_handler = "uuid \<Rightarrow> event \<Rightarrow> 'c list"

record 'c handlers =
  onChatHandler :: "'c data_handler option"
  onVoiceHandler :: "'c data_handler option"
  onWebcamHandler :: "'c data_handler option"
  onScreenHandler :: "'c data_handler option"
  onPeerConnectedHandler :: "'c connection_handler option"
  onPeerDisconnectedHandler :: "'c connection_handler option"
  onEventHandler :: "'c event_handler option"
  onOnlineFriendHandler :: "'c connection_handler option"

definition no_handlers :: "'c handlers" where
  "no_handlers =
     \<lparr>onChatHandler = None, onVoiceHandler = None, onWebcamHandler = None, onScreenHandler = None,
      onPeerConnectedHandler = None, onPeerDisconnectedHandler = None, onEventHandler = None,
      onOnlineFriendHandler = None\<rparr>"

section \<open>The service\<close>

text \<open>Requests handed to the signaling client, and calls that change a library object.\<close>

datatype sig_call =
    AddInSession uuid
  | DeleteFromSession uuid
  | NewSDP bytes "uuid list"
  | GetSessionsById uuid
  | GetOnline
  | GetFriendsOnline "uuid list"

datatype stun_scheme = SchemeSTUN | SchemeTURN
datatype stun_proto = ProtoUDP | ProtoTCP

record stun_uri =
  uri_Scheme :: stun_scheme
  uri_Host :: string
  uri_Port :: int
  uri_Username :: string
  uri_Password :: string
  uri_Proto :: stun_proto

datatype lib_call =
    AgentNew agent_id "stun_uri list" duration
  | StreamClose stream_id
  | ConnClose conn_id nat string
  | AgentGracefulClose agent_id
  | AgentGather agent_id
  | AgentSetRemote agent_id bytes bytes
  | AgentAddCandidate agent_id bytes
  | StreamHandshake stream_id

text \<open>The loops \<open>handleConnection\<close> starts for a session.\<close>

datatype session_loop = EventLoop | DatagramLoop | VoiceLoop | WebcamLoop | ScreenLoop | StreamLoop

text \<open>
  Where the goroutine that establishes a session's connection is, between the steps at which others can see
  its effects: in the \<open>select\<close> on the credentials; dialing, until \<open>Conn\<close> is set; exchanging keys, until \<open>Key\<close>
  is set; setting up the event stream; calling the user's handler; starting the loops and closing
  \<open>ReadyChan\<close>. After an error, when \<open>ReadyChan\<close> is closed, it has the session to reset.
\<close>

datatype est_phase =
    AwaitCreds | Dialing | Exchanging | Streaming | Announcing | Finishing | Resetting

text \<open>
  \<open>ns_heap\<close> maps every session pointer ever made to its session. The last fields are the running
  goroutines the model follows: sessions whose connection is being established, with the phase of each, the loops of the
  sessions whose connection is handled, and the reconnect loops, each with its peer and, while it
  waits for \<open>ReadyChan\<close>, the session it made, and the event handlers that were started and have not run,
  each by its effects.
\<close>

record 'c net =
  ns_id :: uuid
  ns_cfg :: networking_config
  ns_closing :: bool
  ns_repo :: session_repo
  ns_heap :: "sref \<rightharpoonup> session"
  ns_next :: sref
  ns_handlers :: "'c handlers"
  ns_calls :: "'c list"
  ns_sig :: "sig_call list"
  ns_lib :: "lib_call list"
  ns_sendDatagramLogCount :: "32 word"
  ns_sendStreamLogCount :: "32 word"
  ns_fetchLogCount :: "32 word"
  ns_establishing :: "sref list"
  ns_phase :: "sref \<Rightarrow> est_phase"
  ns_handling :: "(sref \<times> session_loop) list"
  ns_reconnecting :: "(uuid \<times> sref option) list"
  ns_spawned :: "'c list list"

definition new_networking_serv :: "uuid \<Rightarrow> networking_config \<Rightarrow> session_repo \<Rightarrow> 'c net" where
  "new_networking_serv i cfg sr =
     \<lparr>ns_id = i, ns_cfg = cfg, ns_closing = False, ns_repo = sr, ns_heap = Map.empty,
      ns_next = 0, ns_handlers = no_handlers, ns_calls = [], ns_sig = [], ns_lib = [],
      ns_sendDatagramLogCount = 0, ns_sendStreamLogCount = 0, ns_fetchLogCount = 0,
      ns_establishing = [], ns_phase = (\<lambda>_. AwaitCreds), ns_handling = [], ns_reconnecting = [], ns_spawned = []\<rparr>"

definition save_chat_handler :: "'c data_handler \<Rightarrow> 'c net \<Rightarrow> 'c net" where
  "save_chat_handler h s = s\<lparr>ns_handlers := (ns_handlers s)\<lparr>onChatHandler := Some h\<rparr>\<rparr>"

definition save_voice_handler :: "'c data_handler \<Rightarrow> 'c net \<Rightarrow> 'c net" where
  "save_voice_handler h s = s\<lparr>ns_handlers := (ns_handlers s)\<lparr>onVoiceHandler := Some h\<rparr>\<rparr>"

definition save_webcam_handler :: "'c data_handler \<Rightarrow> 'c net \<Rightarrow> 'c net" where
  "save_webcam_handler h s = s\<lparr>ns_handlers := (ns_handlers s)\<lparr>onWebcamHandler := Some h\<rparr>\<rparr>"

definition save_screen_handler :: "'c data_handler \<Rightarrow> 'c net \<Rightarrow> 'c net" where
  "save_screen_handler h s = s\<lparr>ns_handlers := (ns_handlers s)\<lparr>onScreenHandler := Some h\<rparr>\<rparr>"

definition save_peer_connected_handler :: "'c connection_handler \<Rightarrow> 'c net \<Rightarrow> 'c net" where
  "save_peer_connected_handler h s =
     s\<lparr>ns_handlers := (ns_handlers s)\<lparr>onPeerConnectedHandler := Some h\<rparr>\<rparr>"

definition save_peer_disconnected_handler :: "'c connection_handler \<Rightarrow> 'c net \<Rightarrow> 'c net" where
  "save_peer_disconnected_handler h s =
     s\<lparr>ns_handlers := (ns_handlers s)\<lparr>onPeerDisconnectedHandler := Some h\<rparr>\<rparr>"

definition save_event_handler :: "'c event_handler \<Rightarrow> 'c net \<Rightarrow> 'c net" where
  "save_event_handler h s = s\<lparr>ns_handlers := (ns_handlers s)\<lparr>onEventHandler := Some h\<rparr>\<rparr>"

definition save_online_friend_handler :: "'c connection_handler \<Rightarrow> 'c net \<Rightarrow> 'c net" where
  "save_online_friend_handler h s =
     s\<lparr>ns_handlers := (ns_handlers s)\<lparr>onOnlineFriendHandler := Some h\<rparr>\<rparr>"

lemmas save_defs [go_defs] =
  save_chat_handler_def save_voice_handler_def save_webcam_handler_def save_screen_handler_def
  save_peer_connected_handler_def save_peer_disconnected_handler_def save_event_handler_def
  save_online_friend_handler_def

text \<open>\<open>h, ok := ns.onX.Load().(dataHandler); if ok { h(id, p) }\<close>\<close>

definition call_data :: "'c data_handler option \<Rightarrow> uuid \<Rightarrow> bytes \<Rightarrow> 'c net \<Rightarrow> 'c net" where
  "call_data h i p s = (case h of Some f \<Rightarrow> s\<lparr>ns_calls := ns_calls s @ f i p\<rparr> | None \<Rightarrow> s)"

definition call_connection :: "'c connection_handler option \<Rightarrow> uuid \<Rightarrow> 'c net \<Rightarrow> 'c net" where
  "call_connection h i s = (case h of Some f \<Rightarrow> s\<lparr>ns_calls := ns_calls s @ f i\<rparr> | None \<Rightarrow> s)"

text \<open>
  \<open>if ok { go eventHndlr(id, event) }\<close>: the event handler runs in a goroutine of its own, after which its
  effects are there; the goroutines that were started may run in any order.
\<close>

definition spawn_event :: "'c event_handler option \<Rightarrow> uuid \<Rightarrow> event \<Rightarrow> 'c net \<Rightarrow> 'c net" where
  "spawn_event h i e s = (case h of Some f \<Rightarrow> s\<lparr>ns_spawned := ns_spawned s @ [f i e]\<rparr> | None \<Rightarrow> s)"

definition run_spawned :: "nat \<Rightarrow> 'c net \<Rightarrow> 'c net" where
  "run_spawned k s =
     (if k < length (ns_spawned s)
      then s\<lparr>ns_calls := ns_calls s @ ns_spawned s ! k,
             ns_spawned := take k (ns_spawned s) @ drop (Suc k) (ns_spawned s)\<rparr>
      else s)"

definition sig_request :: "sig_call \<Rightarrow> 'c net \<Rightarrow> 'c net" where
  "sig_request q s = s\<lparr>ns_sig := ns_sig s @ [q]\<rparr>"

definition lib_do :: "lib_call list \<Rightarrow> 'c net \<Rightarrow> 'c net" where
  "lib_do qs s = s\<lparr>ns_lib := ns_lib s @ qs\<rparr>"

lemmas call_defs [go_defs] =
  call_data_def call_connection_def spawn_event_def run_spawned_def sig_request_def lib_do_def

section \<open>The heap of sessions\<close>

text \<open>A nil pointer would panic; \<open>set_session\<close> writes a session back through its pointer.\<close>

definition with_session :: "sref \<Rightarrow> 'c net \<Rightarrow> (session \<Rightarrow> 'a res) \<Rightarrow> 'a res" where
  "with_session r s k = (case ns_heap s r of Some x \<Rightarrow> k x | None \<Rightarrow> Panic)"

definition set_session :: "sref \<Rightarrow> session \<Rightarrow> 'c net \<Rightarrow> 'c net" where
  "set_session r x s = s\<lparr>ns_heap := (ns_heap s)(r \<mapsto> x)\<rparr>"

lemma with_session_Some [simp]: "ns_heap s r = Some x \<Longrightarrow> with_session r s k = k x"
  by (simp add: with_session_def)

lemma with_session_None [simp]: "ns_heap s r = None \<Longrightarrow> with_session r s k = Panic"
  by (simp add: with_session_def)

section \<open>The invariant of the service\<close>

text \<open>
  A session has its ICE agent; its media channels keep their capacity and are closed exactly when the session was
  disconnected; the store maps every id to a live session of that id; \<open>ReadyChan\<close> is open while the session is
  being established, up to the reset.
\<close>

definition session_ok :: "session \<Rightarrow> bool" where
  "session_ok x \<longleftrightarrow>
     ch_cap (VoiceChan x) = 100 \<and> ch_cap (WebcamChan x) = 100 \<and> ch_cap (ScreenChan x) = 100 \<and>
     ch_cap (CredsChan x) = 1 \<and> ch_cap (ReadyChan x) = 1 \<and> Agent x \<noteq> None \<and>
     chan_ok (VoiceChan x) \<and> chan_ok (WebcamChan x) \<and> chan_ok (ScreenChan x) \<and>
     chan_ok (CredsChan x) \<and> ch_buf (ReadyChan x) = [] \<and> \<not> ch_closed (CredsChan x) \<and>
     ch_closed (VoiceChan x) = Closing x \<and> ch_closed (WebcamChan x) = Closing x \<and>
     ch_closed (ScreenChan x) = Closing x \<and> (Leaving x \<noteq> None \<longrightarrow> Closing x)"

definition net_ok :: "'c net \<Rightarrow> bool" where
  "net_ok s \<longleftrightarrow>
     repo_valid (ns_repo s) \<and>
     (\<forall>i r. repo_lookup (ns_repo s) i = Some r \<longrightarrow>
        (\<exists>x. ns_heap s r = Some x \<and> UserID x = i)) \<and>
     (\<forall>r x. ns_heap s r = Some x \<longrightarrow> session_ok x \<and> r < ns_next s) \<and>
     distinct (ns_establishing s) \<and>
     (\<forall>r \<in> set (ns_establishing s).
        \<exists>x. ns_heap s r = Some x \<and> (ch_closed (ReadyChan x) \<longleftrightarrow> ns_phase s r = Resetting)) \<and>
     (\<forall>r. r \<notin> set (ns_establishing s) \<longrightarrow> ns_phase s r = AwaitCreds)"

lemma net_okD:
  assumes "net_ok s"
  shows "repo_valid (ns_repo s)"
    "repo_lookup (ns_repo s) i = Some r \<Longrightarrow> \<exists>x. ns_heap s r = Some x \<and> UserID x = i"
    "ns_heap s r = Some x \<Longrightarrow> session_ok x"
    "ns_heap s r = Some x \<Longrightarrow> r < ns_next s"
    "distinct (ns_establishing s)"
    "r \<in> set (ns_establishing s) \<Longrightarrow>
       \<exists>x. ns_heap s r = Some x \<and> (ch_closed (ReadyChan x) \<longleftrightarrow> ns_phase s r = Resetting)"
    "r \<notin> set (ns_establishing s) \<Longrightarrow> ns_phase s r = AwaitCreds"
  using assms unfolding net_ok_def by auto

lemma net_ok_init: "net_ok (new_networking_serv i cfg new_session_repository)"
  by (simp add: net_ok_def new_networking_serv_def repo_defs)

text \<open>The invariant reads the store, the heap and the establishing goroutines only.\<close>

definition net_core :: "'c net \<Rightarrow> session_repo \<times> (sref \<rightharpoonup> session) \<times> sref \<times> sref list \<times> (sref \<Rightarrow> est_phase)" where
  "net_core s = (ns_repo s, ns_heap s, ns_next s, ns_establishing s, ns_phase s)"

lemma net_ok_core: "net_core s = net_core t \<Longrightarrow> net_ok s = net_ok t"
  by (simp add: net_ok_def net_core_def)

lemma net_core_calls [go_frame]:
  "net_core (call_data h i p s) = net_core s"
  "net_core (call_connection c i s) = net_core s"
  "net_core (spawn_event ev i e s) = net_core s" "net_core (run_spawned k s) = net_core s"
  "net_core (sig_request q s) = net_core s"
  "net_core (lib_do qs s) = net_core s"
  by (auto simp: net_core_def call_defs split: option.split)

lemma heap_calls [simp]:
  "ns_heap (call_data h i p s) = ns_heap s"
  "ns_heap (call_connection c i s) = ns_heap s"
  "ns_heap (spawn_event ev i e s) = ns_heap s" "ns_heap (run_spawned k s) = ns_heap s"
  "ns_heap (sig_request q s) = ns_heap s"
  "ns_heap (lib_do qs s) = ns_heap s"
  by (auto simp: call_defs split: option.split)

lemma repo_calls [simp]:
  "ns_repo (call_data h i p s) = ns_repo s"
  "ns_repo (call_connection c i s) = ns_repo s"
  "ns_repo (spawn_event ev i e s) = ns_repo s" "ns_repo (run_spawned k s) = ns_repo s"
  "ns_repo (sig_request q s) = ns_repo s"
  "ns_repo (lib_do qs s) = ns_repo s"
  by (auto simp: call_defs split: option.split)

lemma other_calls [simp]:
  "ns_next (call_data h i p s) = ns_next s"
  "ns_next (call_connection c i s) = ns_next s"
  "ns_next (spawn_event ev i e s) = ns_next s" "ns_next (run_spawned k s) = ns_next s"
  "ns_next (sig_request q s) = ns_next s"
  "ns_next (lib_do qs s) = ns_next s"
  "ns_establishing (call_data h i p s) = ns_establishing s"
  "ns_establishing (call_connection c i s) = ns_establishing s"
  "ns_establishing (spawn_event ev i e s) = ns_establishing s" "ns_establishing (run_spawned k s) = ns_establishing s"
  "ns_establishing (sig_request q s) = ns_establishing s"
  "ns_establishing (lib_do qs s) = ns_establishing s"
  "ns_phase (call_data h i p s) = ns_phase s" "ns_phase (call_connection c i s) = ns_phase s"
  "ns_phase (spawn_event ev i e s) = ns_phase s" "ns_phase (run_spawned k s) = ns_phase s"
  "ns_phase (sig_request q s) = ns_phase s" "ns_phase (lib_do qs s) = ns_phase s"
  "ns_closing (call_data h i p s) = ns_closing s"
  "ns_closing (call_connection c i s) = ns_closing s"
  "ns_closing (spawn_event ev i e s) = ns_closing s" "ns_closing (run_spawned k s) = ns_closing s"
  "ns_closing (sig_request q s) = ns_closing s"
  "ns_closing (lib_do qs s) = ns_closing s"
  "ns_id (call_data h i p s) = ns_id s"
  "ns_id (call_connection c i s) = ns_id s"
  "ns_id (spawn_event ev i e s) = ns_id s" "ns_id (run_spawned k s) = ns_id s"
  "ns_id (sig_request q s) = ns_id s"
  "ns_id (lib_do qs s) = ns_id s"
  "ns_cfg (call_data h i p s) = ns_cfg s"
  "ns_cfg (call_connection c i s) = ns_cfg s"
  "ns_cfg (spawn_event ev i e s) = ns_cfg s" "ns_cfg (run_spawned k s) = ns_cfg s"
  "ns_cfg (sig_request q s) = ns_cfg s"
  "ns_cfg (lib_do qs s) = ns_cfg s"
  "ns_handlers (call_data h i p s) = ns_handlers s"
  "ns_handlers (call_connection c i s) = ns_handlers s"
  "ns_handlers (spawn_event ev i e s) = ns_handlers s" "ns_handlers (run_spawned k s) = ns_handlers s"
  "ns_handlers (sig_request q s) = ns_handlers s"
  "ns_handlers (lib_do qs s) = ns_handlers s"
  "ns_handling (call_data h i p s) = ns_handling s"
  "ns_handling (call_connection c i s) = ns_handling s"
  "ns_handling (spawn_event ev i e s) = ns_handling s" "ns_handling (run_spawned k s) = ns_handling s"
  "ns_handling (sig_request q s) = ns_handling s"
  "ns_handling (lib_do qs s) = ns_handling s"
  "ns_reconnecting (call_data h i p s) = ns_reconnecting s"
  "ns_reconnecting (call_connection c i s) = ns_reconnecting s"
  "ns_reconnecting (spawn_event ev i e s) = ns_reconnecting s" "ns_reconnecting (run_spawned k s) = ns_reconnecting s"
  "ns_reconnecting (sig_request q s) = ns_reconnecting s"
  "ns_reconnecting (lib_do qs s) = ns_reconnecting s"
  "ns_spawned (call_data h i p s) = ns_spawned s" "ns_spawned (call_connection c i s) = ns_spawned s"
  "ns_spawned (sig_request q s) = ns_spawned s" "ns_spawned (lib_do qs s) = ns_spawned s"
  by (auto simp: call_defs split: option.split)

lemma set_session_fields [simp]:
  "ns_repo (set_session r x s) = ns_repo s" "ns_heap (set_session r x s) = (ns_heap s)(r \<mapsto> x)"
  "ns_next (set_session r x s) = ns_next s" "ns_calls (set_session r x s) = ns_calls s"
  "ns_sig (set_session r x s) = ns_sig s" "ns_lib (set_session r x s) = ns_lib s"
  "ns_handlers (set_session r x s) = ns_handlers s" "ns_id (set_session r x s) = ns_id s"
  "ns_establishing (set_session r x s) = ns_establishing s" "ns_phase (set_session r x s) = ns_phase s"
  "ns_closing (set_session r x s) = ns_closing s" "ns_cfg (set_session r x s) = ns_cfg s"
  "ns_handling (set_session r x s) = ns_handling s"
  "ns_reconnecting (set_session r x s) = ns_reconnecting s"
  "ns_spawned (set_session r x s) = ns_spawned s"
  by (simp_all add: set_session_def)

lemma net_ok_calls [go_inv, simp]:
  "net_ok (call_data h i p s) = net_ok s"
  "net_ok (call_connection c i s) = net_ok s"
  "net_ok (spawn_event ev i e s) = net_ok s" "net_ok (run_spawned k s) = net_ok s"
  "net_ok (sig_request q s) = net_ok s"
  "net_ok (lib_do qs s) = net_ok s"
  by (auto intro!: net_ok_core simp: go_frame)

text \<open>Writing a session back keeps the invariant when its id stays and its channels stay sound.\<close>

lemma net_ok_set_session [go_inv]:
  assumes "net_ok s" "ns_heap s r = Some x" "session_ok y" "UserID y = UserID x"
    "r \<in> set (ns_establishing s) \<Longrightarrow> ch_closed (ReadyChan y) = ch_closed (ReadyChan x)"
  shows "net_ok (set_session r y s)"
proof -
  have "\<exists>z. ((ns_heap s)(r \<mapsto> y)) q = Some z \<and> UserID z = i"
    if "repo_lookup (ns_repo s) i = Some q" for i q
    using net_okD(2) [OF assms(1) that] assms(2,4) by auto
  moreover have "\<exists>z. ((ns_heap s)(r \<mapsto> y)) q = Some z \<and> (ch_closed (ReadyChan z) \<longleftrightarrow> ns_phase s q = Resetting)"
    if "q \<in> set (ns_establishing s)" for q
    using net_okD(6) [OF assms(1) that] assms(2,5) that by auto
  ultimately show ?thesis
    using assms(1-3) by (auto simp: net_ok_def)
qed

end
