(* ===== verification/Net_Session.thy ===== *)
theory Net_Session
  imports Net_State
begin

text \<open>
  What happens to one session of the networking service once it exists
  (\<open>services/networking/helpers.go\<close>): incoming data (\<open>processData\<close>, the three channel
  processors, the goroutines of \<open>receiveDatagrams\<close> and \<open>receiveStreams\<close>) and its end
  (\<open>disconnectSession\<close>, \<open>resetSession\<close>).
\<close>

section \<open>Incoming data\<close>

definition process_data :: "sref \<Rightarrow> bytes \<Rightarrow> 'c net \<Rightarrow> 'c net res" where
  "process_data r data s =
     with_session r s (\<lambda>session.
       case data of
         [] \<Rightarrow> Panic
       | msgType # payload \<Rightarrow>
           if msgType = msg_byte CHAT
           then Ok (call_data (onChatHandler (ns_handlers s)) (UserID session) payload s)
           else if msgType = msg_byte VOICE
           then go_bind (try_send payload (VoiceChan session))
                  (\<lambda>c. Ok (set_session r (session\<lparr>VoiceChan := c\<rparr>) s))
           else if msgType = msg_byte WEBCAM
           then go_bind (try_send payload (WebcamChan session))
                  (\<lambda>c. Ok (set_session r (session\<lparr>WebcamChan := c\<rparr>) s))
           else if msgType = msg_byte SCREEN
           then go_bind (try_send payload (ScreenChan session))
                  (\<lambda>c. Ok (set_session r (session\<lparr>ScreenChan := c\<rparr>) s))
           else Ok s)"

text \<open>
  One turn of each \<open>for p := range session.XChan\<close> loop of \<open>startDatagramsProcessors\<close>: \<open>None\<close> while
  the loop waits, otherwise the new state and whether the loop goes on.
\<close>

definition voice_processor :: "sref \<Rightarrow> 'c net \<Rightarrow> ('c net \<times> bool) option" where
  "voice_processor r s =
     (case ns_heap s r of
        None \<Rightarrow> None
      | Some session \<Rightarrow>
          (case chan_recv (VoiceChan session) of
             None \<Rightarrow> None
           | Some (None, c) \<Rightarrow> Some (s, False)
           | Some (Some p, c) \<Rightarrow>
               Some (call_data (onVoiceHandler (ns_handlers s)) (UserID session) p
                       (set_session r (session\<lparr>VoiceChan := c\<rparr>) s), True)))"

definition webcam_processor :: "sref \<Rightarrow> 'c net \<Rightarrow> ('c net \<times> bool) option" where
  "webcam_processor r s =
     (case ns_heap s r of
        None \<Rightarrow> None
      | Some session \<Rightarrow>
          (case chan_recv (WebcamChan session) of
             None \<Rightarrow> None
           | Some (None, c) \<Rightarrow> Some (s, False)
           | Some (Some p, c) \<Rightarrow>
               Some (call_data (onWebcamHandler (ns_handlers s)) (UserID session) p
                       (set_session r (session\<lparr>WebcamChan := c\<rparr>) s), True)))"

definition screen_processor :: "sref \<Rightarrow> 'c net \<Rightarrow> ('c net \<times> bool) option" where
  "screen_processor r s =
     (case ns_heap s r of
        None \<Rightarrow> None
      | Some session \<Rightarrow>
          (case chan_recv (ScreenChan session) of
             None \<Rightarrow> None
           | Some (None, c) \<Rightarrow> Some (s, False)
           | Some (Some p, c) \<Rightarrow>
               Some (call_data (onScreenHandler (ns_handlers s)) (UserID session) p
                       (set_session r (session\<lparr>ScreenChan := c\<rparr>) s), True)))"

section \<open>The end of a session\<close>

text \<open>
  The library calls both ends make, for the parts of the session that are set; an error of any of
  them is logged and nothing else.
\<close>

definition close_calls :: "session \<Rightarrow> lib_call list" where
  "close_calls session =
     (case EventStream session of Some e \<Rightarrow> [StreamClose e] | None \<Rightarrow> []) @
     (case Conn session of Some c \<Rightarrow> [ConnClose c 0 ''disconnected''] | None \<Rightarrow> []) @
     (case Agent session of Some a \<Rightarrow> [AgentGracefulClose a] | None \<Rightarrow> [])"

definition drop_from_repo :: "sref \<Rightarrow> session \<Rightarrow> 'c net \<Rightarrow> 'c net" where
  "drop_from_repo r session s =
     s\<lparr>ns_repo := snd (repo_delete False (UserID session) r (ns_repo s))\<rparr>"

text \<open>
  \<open>disconnectSession\<close> in the parts at whose ends other goroutines can see a change: the call that enters
  the \<open>sync.Once\<close> closes the parts of the session and its media channels; it deletes the session from the
  store; it tells the signaling server or the user. A later call finds the \<open>Once\<close> taken.
\<close>

definition disconnect_begin :: "sref \<Rightarrow> bool \<Rightarrow> 'c net \<Rightarrow> 'c net res" where
  "disconnect_begin r isLeaveInitiator s =
     with_session r s (\<lambda>session.
       if Closing session then Ok s
       else
         go_bind (chan_close (VoiceChan session)) (\<lambda>vc.
         go_bind (chan_close (WebcamChan session)) (\<lambda>wc.
         go_bind (chan_close (ScreenChan session)) (\<lambda>sc.
           Ok (set_session r (session\<lparr>Closing := True, VoiceChan := vc, WebcamChan := wc, ScreenChan := sc,
                                       Leaving := Some (Deleting isLeaveInitiator)\<rparr>)
                 (lib_do (close_calls session) s))))))"

text \<open>What the call inside the \<open>Once\<close> does next: \<open>None\<close> when there is none at work.\<close>

definition disconnect_turn :: "sref \<Rightarrow> 'c net \<Rightarrow> 'c net option" where
  "disconnect_turn r s =
     (case ns_heap s r of
        None \<Rightarrow> None
      | Some session \<Rightarrow>
          (case Leaving session of
             None \<Rightarrow> None
           | Some (Deleting leave) \<Rightarrow>
               Some (drop_from_repo r session (set_session r (session\<lparr>Leaving := Some (Telling leave)\<rparr>) s))
           | Some (Telling leave) \<Rightarrow>
               Some (let t = set_session r (session\<lparr>Leaving := None\<rparr>) s
                     in if leave then sig_request (DeleteFromSession (UserID session)) t
                        else call_connection (onPeerDisconnectedHandler (ns_handlers t)) (UserID session) t)))"

definition disconnect_rest :: "sref \<Rightarrow> 'c net \<Rightarrow> 'c net" where
  "disconnect_rest r s =
     (case disconnect_turn r s of
        None \<Rightarrow> s
      | Some t \<Rightarrow> (case disconnect_turn r t of None \<Rightarrow> t | Some u \<Rightarrow> u))"

text \<open>
  A whole call: it returns when the function of the \<open>Once\<close> has returned, also when it is another
  goroutine that is inside; nothing else runs meanwhile.
\<close>

definition disconnect_session :: "sref \<Rightarrow> bool \<Rightarrow> 'c net \<Rightarrow> 'c net res" where
  "disconnect_session r isLeaveInitiator s =
     go_bind (disconnect_begin r isLeaveInitiator s) (\<lambda>t. Ok (disconnect_rest r t))"

definition reset_session :: "sref \<Rightarrow> 'c net \<Rightarrow> 'c net res" where
  "reset_session r s =
     with_session r s (\<lambda>session. Ok (drop_from_repo r session (lib_do (close_calls session) s)))"

section \<open>Receiving loops\<close>

text \<open>
  The goroutine \<open>receiveDatagrams\<close> starts for a datagram; \<open>logCount\<close> is the value of the loop's
  counter it reads.
\<close>

definition handle_datagram :: "crypto \<Rightarrow> 32 word \<Rightarrow> sref \<Rightarrow> bytes \<Rightarrow> 'c net \<Rightarrow> 'c net res" where
  "handle_datagram cr logCount r datagram s =
     with_session r s (\<lambda>session.
       case decipher_datagram cr datagram (Key session) of
         Err e \<Rightarrow> Ok s
       | Panic \<Rightarrow> Panic
       | Ok data \<Rightarrow>
           go_bind (sparse_guard (nw_DatagramLogTargetCount (ns_cfg s)) logCount) (\<lambda>_.
             if length data < 1 then Ok s else process_data r data s))"

text \<open>The goroutine \<open>receiveStreams\<close> starts for a unidirectional stream.\<close>

definition handle_uni_stream :: "crypto \<Rightarrow> 32 word \<Rightarrow> sref \<Rightarrow> quic_stream \<Rightarrow> 'c net \<Rightarrow> 'c net res" where
  "handle_uni_stream cr logCount r stream s =
     with_session r s (\<lambda>session.
       case new_secure_stream stream (Key session) of
         Err e \<Rightarrow> Ok s
       | Panic \<Rightarrow> Panic
       | Ok secureStream \<Rightarrow>
           (case fst (ss_receive cr secureStream) of
              Err e \<Rightarrow> Ok s
            | Panic \<Rightarrow> Panic
            | Ok data \<Rightarrow>
                if length data < 1 then Ok s
                else go_bind (sparse_guard (nw_DatagramLogTargetCount (ns_cfg s)) logCount)
                       (\<lambda>_. process_data r data s)))"

text \<open>
  One turn of the two loops: a received item starts its goroutine, an error ends the loop and
  disconnects the session: the loop's goroutine enters the \<open>Once\<close>, or waits for the one that did, and
  returns afterwards. A datagram error is logged sparsely unless \<open>CheckErr\<close> passes it over.
\<close>

definition receive_datagrams_turn ::
    "crypto \<Rightarrow> 32 word \<Rightarrow> sref \<Rightarrow> bytes res \<Rightarrow> 'c net \<Rightarrow> ('c net \<times> bool) res" where
  "receive_datagrams_turn cr logCount r received s =
     (case received of
        Ok datagram \<Rightarrow> go_bind (handle_datagram cr logCount r datagram s) (\<lambda>t. Ok (t, True))
      | Panic \<Rightarrow> Panic
      | Err e \<Rightarrow>
          go_bind (if check_err e \<noteq> None
                   then sparse_guard (nw_DatagramLogTargetCount (ns_cfg s)) logCount else Ok False)
            (\<lambda>_. go_bind (disconnect_begin r False s) (\<lambda>t. Ok (t, False))))"

definition receive_streams_turn ::
    "crypto \<Rightarrow> 32 word \<Rightarrow> sref \<Rightarrow> quic_stream res \<Rightarrow> 'c net \<Rightarrow> ('c net \<times> bool) res" where
  "receive_streams_turn cr logCount r received s =
     (case received of
        Ok stream \<Rightarrow> go_bind (handle_uni_stream cr logCount r stream s) (\<lambda>t. Ok (t, True))
      | Panic \<Rightarrow> Panic
      | Err e \<Rightarrow> go_bind (disconnect_begin r False s) (\<lambda>t. Ok (t, False)))"

text \<open>
  One turn of \<open>proccessEventStream\<close>. The handler is loaded once, when the loop starts, so it is an
  argument; \<open>decoded\<close> is what the JSON decoder returned. The handler is called by a new goroutine.
\<close>

definition process_event_turn ::
    "'c event_handler option \<Rightarrow> sref \<Rightarrow> event res \<Rightarrow> 'c net \<Rightarrow> ('c net \<times> bool) res" where
  "process_event_turn eventHndlr r decoded s =
     with_session r s (\<lambda>session.
       case decoded of
         Err e \<Rightarrow> go_bind (disconnect_begin r False s) (\<lambda>t. Ok (t, False))
       | Panic \<Rightarrow> Panic
       | Ok event \<Rightarrow> Ok (spawn_event eventHndlr (UserID session) event s, True))"

lemmas session_end_defs [go_defs] =
  close_calls_def drop_from_repo_def disconnect_begin_def disconnect_turn_def disconnect_rest_def
  disconnect_session_def reset_session_def

section \<open>Every step of a session keeps the invariant\<close>

lemma session_ok_send_voice:
  assumes "session_ok x" "try_send p (VoiceChan x) = Ok c"
  shows "session_ok (x\<lparr>VoiceChan := c\<rparr>)"
  using assms(1) try_send_OkD [OF assms(2)] by (simp add: session_ok_def)

lemma session_ok_recv_voice:
  assumes "session_ok x" "chan_recv (VoiceChan x) = Some (v, c)"
  shows "session_ok (x\<lparr>VoiceChan := c\<rparr>)"
  using assms(1) chan_recv_SomeD [OF assms(2)] by (simp add: session_ok_def)

lemma session_ok_send_webcam:
  assumes "session_ok x" "try_send p (WebcamChan x) = Ok c"
  shows "session_ok (x\<lparr>WebcamChan := c\<rparr>)"
  using assms(1) try_send_OkD [OF assms(2)] by (simp add: session_ok_def)

lemma session_ok_recv_webcam:
  assumes "session_ok x" "chan_recv (WebcamChan x) = Some (v, c)"
  shows "session_ok (x\<lparr>WebcamChan := c\<rparr>)"
  using assms(1) chan_recv_SomeD [OF assms(2)] by (simp add: session_ok_def)

lemma session_ok_send_screen:
  assumes "session_ok x" "try_send p (ScreenChan x) = Ok c"
  shows "session_ok (x\<lparr>ScreenChan := c\<rparr>)"
  using assms(1) try_send_OkD [OF assms(2)] by (simp add: session_ok_def)

lemma session_ok_recv_screen:
  assumes "session_ok x" "chan_recv (ScreenChan x) = Some (v, c)"
  shows "session_ok (x\<lparr>ScreenChan := c\<rparr>)"
  using assms(1) chan_recv_SomeD [OF assms(2)] by (simp add: session_ok_def)

lemmas session_ok_send = session_ok_send_voice session_ok_send_webcam session_ok_send_screen
lemmas session_ok_recv = session_ok_recv_voice session_ok_recv_webcam session_ok_recv_screen

lemma net_ok_drop [go_inv]:
  assumes "net_ok s"
  shows "net_ok (drop_from_repo r x s)"
proof -
  let ?m = "snd (repo_delete False (UserID x) r (ns_repo s))"
  have v: "repo_valid ?m" using net_okD(1) [OF assms] by (rule sr.delete_valid)
  have "repo_lookup ?m i = Some q \<Longrightarrow> repo_lookup (ns_repo s) i = Some q" for i q
    using net_okD(1) [OF assms] by (auto simp: sr.delete_lookup split: if_splits)
  then show ?thesis using assms v unfolding net_ok_def drop_from_repo_def by simp
qed

lemma drop_fields [simp]:
  "ns_heap (drop_from_repo r x s) = ns_heap s" "ns_next (drop_from_repo r x s) = ns_next s"
  "ns_calls (drop_from_repo r x s) = ns_calls s" "ns_sig (drop_from_repo r x s) = ns_sig s"
  "ns_lib (drop_from_repo r x s) = ns_lib s" "ns_handlers (drop_from_repo r x s) = ns_handlers s"
  "ns_establishing (drop_from_repo r x s) = ns_establishing s" "ns_phase (drop_from_repo r x s) = ns_phase s"
  "ns_id (drop_from_repo r x s) = ns_id s" "ns_closing (drop_from_repo r x s) = ns_closing s"
  by (simp_all add: drop_from_repo_def)

lemma drop_lookup:
  "repo_valid (ns_repo s) \<Longrightarrow> repo_lookup (ns_repo (drop_from_repo r x s)) i =
     (if i = UserID x \<and> repo_lookup (ns_repo s) i = Some r then None else repo_lookup (ns_repo s) i)"
  by (auto simp: drop_from_repo_def sr.delete_lookup)

lemma process_data_ok [go_inv]:
  assumes "net_ok s" "process_data r data s = Ok t"
  shows "net_ok t"
proof (cases "ns_heap s r")
  case None
  then show ?thesis using assms(2) by (simp add: process_data_def)
next
  case (Some x)
  have x: "session_ok x" using net_okD(3) [OF assms(1) Some] .
  show ?thesis
    using assms(2) Some
    using assms(1)
    by (auto simp: process_data_def go_bind_Ok_iff
        intro!: net_ok_set_session [OF assms(1) Some] session_ok_send [OF x]
        split: list.splits if_splits)
qed

lemma voice_processor_ok [go_inv]:
  assumes "net_ok s" "voice_processor r s = Some (t, b)"
  shows "net_ok t"
proof (cases "ns_heap s r")
  case None
  then show ?thesis using assms(2) by (simp add: voice_processor_def)
next
  case (Some x)
  have x: "session_ok x" using net_okD(3) [OF assms(1) Some] .
  show ?thesis
    using assms Some
    by (auto simp: voice_processor_def
        intro!: net_ok_set_session [OF assms(1) Some] session_ok_recv [OF x]
        split: option.splits prod.splits)
qed

lemma webcam_processor_ok [go_inv]:
  assumes "net_ok s" "webcam_processor r s = Some (t, b)"
  shows "net_ok t"
proof (cases "ns_heap s r")
  case None
  then show ?thesis using assms(2) by (simp add: webcam_processor_def)
next
  case (Some x)
  have x: "session_ok x" using net_okD(3) [OF assms(1) Some] .
  show ?thesis
    using assms Some
    by (auto simp: webcam_processor_def
        intro!: net_ok_set_session [OF assms(1) Some] session_ok_recv [OF x]
        split: option.splits prod.splits)
qed

lemma screen_processor_ok [go_inv]:
  assumes "net_ok s" "screen_processor r s = Some (t, b)"
  shows "net_ok t"
proof (cases "ns_heap s r")
  case None
  then show ?thesis using assms(2) by (simp add: screen_processor_def)
next
  case (Some x)
  have x: "session_ok x" using net_okD(3) [OF assms(1) Some] .
  show ?thesis
    using assms Some
    by (auto simp: screen_processor_def
        intro!: net_ok_set_session [OF assms(1) Some] session_ok_recv [OF x]
        split: option.splits prod.splits)
qed

text \<open>The session after \<open>disconnectSession\<close>, and while the call is inside the \<open>Once\<close>.\<close>

definition closed_session :: "session \<Rightarrow> session" where
  "closed_session x =
     x\<lparr>Closing := True, Leaving := None, VoiceChan := (VoiceChan x)\<lparr>ch_closed := True\<rparr>,
       WebcamChan := (WebcamChan x)\<lparr>ch_closed := True\<rparr>,
       ScreenChan := (ScreenChan x)\<lparr>ch_closed := True\<rparr>\<rparr>"

definition leaving_session :: "leave_stage \<Rightarrow> session \<Rightarrow> session" where
  "leaving_session st x = (closed_session x)\<lparr>Leaving := Some st\<rparr>"

lemma closed_session_ok: "session_ok x \<Longrightarrow> session_ok (closed_session x)"
  by (simp add: session_ok_def closed_session_def chan_ok_def)

lemma leaving_session_ok: "session_ok x \<Longrightarrow> session_ok (leaving_session st x)"
  by (simp add: session_ok_def closed_session_def leaving_session_def chan_ok_def)

lemma closed_session_fields [simp]:
  "UserID (closed_session x) = UserID x" "Closing (closed_session x)" "Leaving (closed_session x) = None"
  "ReadyChan (closed_session x) = ReadyChan x" "CredsChan (closed_session x) = CredsChan x"
  "Conn (closed_session x) = Conn x" "EventStream (closed_session x) = EventStream x"
  "Agent (closed_session x) = Agent x" "Key (closed_session x) = Key x"
  by (simp_all add: closed_session_def)

lemma leaving_session_fields [simp]:
  "UserID (leaving_session st x) = UserID x" "Closing (leaving_session st x)"
  "Leaving (leaving_session st x) = Some st" "ReadyChan (leaving_session st x) = ReadyChan x"
  "Conn (leaving_session st x) = Conn x" "EventStream (leaving_session st x) = EventStream x"
  "Agent (leaving_session st x) = Agent x" "Key (leaving_session st x) = Key x"
  "(leaving_session st x)\<lparr>Leaving := Some st'\<rparr> = leaving_session st' x"
  "(leaving_session st x)\<lparr>Leaving := None\<rparr> = closed_session x"
  by (auto simp: leaving_session_def closed_session_def)

text \<open>A session whose call is inside the \<open>Once\<close> differs from a closed one in this only.\<close>

lemma closing_session:
  assumes "session_ok x" "Closing x"
  shows "closed_session x = x\<lparr>Leaving := None\<rparr>" "Leaving x = Some st \<Longrightarrow> leaving_session st x = x"
proof -
  have c: "c\<lparr>ch_closed := True\<rparr> = c" if "ch_closed c" for c :: "bytes chan" using that by (cases c) simp
  show e: "closed_session x = x\<lparr>Leaving := None\<rparr>"
    using assms by (cases x) (simp add: closed_session_def session_ok_def c)
  show "leaving_session st x = x" if "Leaving x = Some st"
    using that unfolding leaving_session_def e by (cases x) simp
qed

text \<open>The effects of a disconnect on an open session, in the order of the code.\<close>

definition told :: "bool \<Rightarrow> session \<Rightarrow> 'c net \<Rightarrow> 'c net" where
  "told leave x s =
     (if leave then sig_request (DeleteFromSession (UserID x)) s
      else call_connection (onPeerDisconnectedHandler (ns_handlers s)) (UserID x) s)"

definition disconnected :: "sref \<Rightarrow> bool \<Rightarrow> session \<Rightarrow> 'c net \<Rightarrow> 'c net" where
  "disconnected r leave x s =
     told leave x (drop_from_repo r x (set_session r (closed_session x) (lib_do (close_calls x) s)))"

lemma told_fields [simp]:
  "ns_heap (told l x s) = ns_heap s" "ns_repo (told l x s) = ns_repo s" "ns_next (told l x s) = ns_next s"
  "ns_establishing (told l x s) = ns_establishing s" "ns_phase (told l x s) = ns_phase s"
  "ns_closing (told l x s) = ns_closing s" "ns_id (told l x s) = ns_id s" "ns_handlers (told l x s) = ns_handlers s"
  "ns_lib (told l x s) = ns_lib s"
  by (simp_all add: told_def go_frame call_defs split: option.split)

lemma told_core [simp]: "net_core (told l x s) = net_core s"
  by (simp add: told_def net_core_def)

lemma told_ok [simp]: "net_ok (told l x s) = net_ok s"
  by (rule net_ok_core) simp

lemma disconnect_begin_eq:
  assumes "net_ok s" "ns_heap s r = Some x"
  shows "disconnect_begin r leave s =
    Ok (if Closing x then s else set_session r (leaving_session (Deleting leave) x) (lib_do (close_calls x) s))"
  using net_okD(3) [OF assms]
  by (simp add: disconnect_begin_def assms(2) leaving_session_def closed_session_def session_ok_def chan_close_def)

text \<open>A turn of the call inside the \<open>Once\<close>, and what is left of it.\<close>

lemma disconnect_turn_eq:
  assumes "ns_heap s r = Some (leaving_session st x)"
  shows "disconnect_turn r s = Some (case st of
      Deleting l \<Rightarrow> drop_from_repo r x (set_session r (leaving_session (Telling l) x) s)
    | Telling l \<Rightarrow> told l x (set_session r (closed_session x) s))"
  by (cases st) (simp_all add: disconnect_turn_def assms told_def drop_from_repo_def Let_def)

lemma disconnect_turn_None: "ns_heap s r = Some x \<Longrightarrow> Leaving x = None \<Longrightarrow> disconnect_turn r s = None"
  by (simp add: disconnect_turn_def)

lemma drop_set_session [simp]:
  "drop_from_repo q y (set_session r x s) = set_session r x (drop_from_repo q y s)"
  by (simp add: drop_from_repo_def set_session_def)

lemma disconnect_rest_eq:
  assumes "ns_heap s r = Some (leaving_session st x)"
  shows "disconnect_rest r s = (case st of
      Deleting l \<Rightarrow> told l x (set_session r (closed_session x) (drop_from_repo r x s))
    | Telling l \<Rightarrow> told l x (set_session r (closed_session x) s))"
proof (cases st)
  case (Deleting l)
  let ?t = "set_session r (leaving_session (Telling l) x) (drop_from_repo r x s)"
  have "disconnect_turn r ?t = Some (told l x (set_session r (closed_session x) ?t))"
    using disconnect_turn_eq [of ?t r "Telling l" x] by simp
  moreover have "set_session r (closed_session x) ?t = set_session r (closed_session x) (drop_from_repo r x s)"
    by (simp add: set_session_def)
  ultimately show ?thesis using disconnect_turn_eq [OF assms] Deleting by (simp add: disconnect_rest_def)
next
  case (Telling l)
  have "disconnect_turn r (told l x (set_session r (closed_session x) s)) = None"
    by (simp add: disconnect_turn_None [where x = "closed_session x"])
  then show ?thesis using disconnect_turn_eq [OF assms] Telling by (simp add: disconnect_rest_def)
qed

lemma disconnect_session_eq:
  assumes "net_ok s" "ns_heap s r = Some x"
  shows "disconnect_session r leave s = Ok (if Closing x then disconnect_rest r s else disconnected r leave x s)"
proof (cases "Closing x")
  case False
  let ?s = "set_session r (leaving_session (Deleting leave) x) (lib_do (close_calls x) s)"
  have "disconnect_rest r ?s = told leave x (set_session r (closed_session x) (drop_from_repo r x ?s))"
    using disconnect_rest_eq [of ?s r "Deleting leave" x] by simp
  also have "\<dots> = disconnected r leave x s"
    by (simp add: disconnected_def) (simp add: set_session_def drop_from_repo_def)
  finally show ?thesis
    using False disconnect_begin_eq [OF assms, of leave] by (simp add: disconnect_session_def)
qed (use disconnect_begin_eq [OF assms, of leave] in \<open>simp add: disconnect_session_def\<close>)

text \<open>The rest of a call, by the stage the session is in.\<close>

lemma leaving_cases:
  assumes "net_ok s" "ns_heap s r = Some x"
  obtains "Leaving x = None" "disconnect_rest r s = s"
  | l where "Leaving x = Some (Deleting l)" "Closing x"
      "disconnect_rest r s = told l x (set_session r (closed_session x) (drop_from_repo r x s))"
  | l where "Leaving x = Some (Telling l)" "Closing x"
      "disconnect_rest r s = told l x (set_session r (closed_session x) s)"
proof -
  have x: "session_ok x" by (rule net_okD(3) [OF assms])
  show thesis
  proof (cases "Leaving x")
    case None
    then show thesis using that(1) assms(2) by (simp add: disconnect_rest_def disconnect_turn_None)
  next
    case (Some st)
    then have c: "Closing x" using x by (simp add: session_ok_def)
    then have "ns_heap s r = Some (leaving_session st x)" using closing_session(2) [OF x c Some] assms(2) by simp
    from disconnect_rest_eq [OF this] show thesis using that(2,3) Some c by (cases st) auto
  qed
qed

lemma set_closed_ok:
  assumes "net_ok s" "ns_heap s r = Some x"
  shows "net_ok (set_session r (closed_session x) s)" "net_ok (set_session r (leaving_session st x) s)"
  using net_okD(3) [OF assms] assms closed_session_ok leaving_session_ok
  by (auto intro!: net_ok_set_session [where x = x])

lemma disconnected_ok [go_inv]:
  assumes "net_ok s" "ns_heap s r = Some x"
  shows "net_ok (disconnected r leave x s)"
proof -
  have "net_ok (set_session r (closed_session x) (lib_do (close_calls x) s))"
    using assms by (intro set_closed_ok) simp_all
  then have "net_ok (drop_from_repo r x (set_session r (closed_session x) (lib_do (close_calls x) s)))"
    by (rule net_ok_drop)
  then show ?thesis by (simp add: disconnected_def del: drop_set_session)
qed

lemma disconnect_rest_ok [go_inv]:
  assumes "net_ok s"
  shows "net_ok (disconnect_rest r s)"
proof (cases "ns_heap s r")
  case None
  then show ?thesis using assms by (simp add: disconnect_rest_def disconnect_turn_def)
next
  case (Some x)
  have "net_ok (set_session r (closed_session x) (drop_from_repo r x s))"
    using assms Some by (intro set_closed_ok net_ok_drop) simp_all
  then show ?thesis
    using leaving_cases [OF assms Some] set_closed_ok [OF assms Some] assms by (metis told_ok)
qed

lemma disconnect_begin_ok [go_inv]:
  assumes "net_ok s" "disconnect_begin r leave s = Ok t"
  shows "net_ok t"
proof (cases "ns_heap s r")
  case None
  then show ?thesis using assms(2) by (simp add: disconnect_begin_def)
next
  case (Some x)
  have "net_ok (set_session r (leaving_session (Deleting leave) x) (lib_do (close_calls x) s))"
    using assms(1) Some by (intro set_closed_ok) simp_all
  then show ?thesis using assms disconnect_begin_eq [OF assms(1) Some] by (auto split: if_splits)
qed

lemma disconnect_session_ok [go_inv]:
  assumes "net_ok s" "disconnect_session r leave s = Ok t"
  shows "net_ok t"
proof -
  obtain u where "disconnect_begin r leave s = Ok u" "t = disconnect_rest r u"
    using assms(2) by (auto simp: disconnect_session_def go_bind_Ok_iff)
  then show ?thesis using disconnect_rest_ok [OF disconnect_begin_ok [OF assms(1)]] by simp
qed

lemma disconnect_turn_ok [go_inv]:
  assumes "net_ok s" "disconnect_turn r s = Some t"
  shows "net_ok t"
proof (cases "ns_heap s r")
  case None
  then show ?thesis using assms(2) by (simp add: disconnect_turn_def)
next
  case (Some x)
  have x: "session_ok x" by (rule net_okD(3) [OF assms(1) Some])
  obtain st where st: "Leaving x = Some st" using assms(2) Some by (cases "Leaving x") (auto simp: disconnect_turn_def)
  then have "Closing x" using x by (simp add: session_ok_def)
  from closing_session(2) [OF x this st] Some have "ns_heap s r = Some (leaving_session st x)" by simp
  from disconnect_turn_eq [OF this] assms Some show ?thesis
    using set_closed_ok [OF assms(1) Some] set_closed_ok [OF net_ok_drop [OF assms(1)], of r x r x] by (cases st) auto
qed

lemma reset_session_ok [go_inv]:
  assumes "net_ok s" "reset_session r s = Ok t"
  shows "net_ok t"
  using assms by (cases "ns_heap s r") (auto simp: reset_session_def intro: net_ok_drop)

text \<open>Taking a session off the store by its own id unmaps every id it is stored under.\<close>

lemma drop_own_lookup:
  assumes "net_ok s" "ns_heap s r = Some x" "UserID y = UserID x"
  shows "repo_lookup (ns_repo (drop_from_repo r y s)) i =
    (if repo_lookup (ns_repo s) i = Some r then None else repo_lookup (ns_repo s) i)"
proof -
  have "repo_lookup (ns_repo s) i = Some r \<Longrightarrow> i = UserID x"
    using net_okD(2) [OF assms(1), of i r] assms(2) by auto
  then show ?thesis using net_okD(1) [OF assms(1)] assms(3) by (auto simp: drop_lookup)
qed

lemma disconnected_repo:
  "ns_repo (disconnected r leave x s) = ns_repo (drop_from_repo r x s)"
  by (simp add: disconnected_def) (simp add: drop_from_repo_def)

lemma disconnected_lookup:
  assumes "net_ok s" "ns_heap s r = Some x"
  shows "repo_lookup (ns_repo (disconnected r leave x s)) i =
    (if repo_lookup (ns_repo s) i = Some r then None else repo_lookup (ns_repo s) i)"
  unfolding disconnected_repo by (rule drop_own_lookup [OF assms]) simp

lemma disconnected_heap:
  "ns_heap (disconnected r leave x s) = (ns_heap s)(r \<mapsto> closed_session x)"
  by (simp add: disconnected_def)

lemma disconnected_calls:
  "ns_calls (disconnected r leave x s) = ns_calls s @
     (if leave then [] else case onPeerDisconnectedHandler (ns_handlers s) of
        None \<Rightarrow> [] | Some f \<Rightarrow> f (UserID x))"
  "ns_sig (disconnected r leave x s) = ns_sig s @ (if leave then [DeleteFromSession (UserID x)] else [])"
  "ns_lib (disconnected r leave x s) = ns_lib s @ close_calls x"
  by (auto simp: disconnected_def told_def call_defs split: option.split)

lemma disconnect_turn_frame:
  assumes "disconnect_turn r s = Some t"
  shows "ns_next t = ns_next s" "ns_establishing t = ns_establishing s" "ns_phase t = ns_phase s"
    "ns_closing t = ns_closing s" "ns_id t = ns_id s" "ns_handling t = ns_handling s"
    "ns_reconnecting t = ns_reconnecting s" "ns_spawned t = ns_spawned s" "q \<noteq> r \<Longrightarrow> ns_heap t q = ns_heap s q"
  using assms
  by (auto simp: disconnect_turn_def Let_def drop_from_repo_def set_session_def call_defs
      split: option.splits leave_stage.splits if_splits)

lemma disconnect_rest_frame [simp]:
  "ns_next (disconnect_rest r s) = ns_next s" "ns_establishing (disconnect_rest r s) = ns_establishing s"
  "ns_phase (disconnect_rest r s) = ns_phase s" "ns_closing (disconnect_rest r s) = ns_closing s"
  "ns_id (disconnect_rest r s) = ns_id s" "q \<noteq> r \<Longrightarrow> ns_heap (disconnect_rest r s) q = ns_heap s q"
  by (auto simp: disconnect_rest_def disconnect_turn_frame split: option.split)

lemma disconnect_rest_lookup:
  assumes "net_ok s" "ns_heap s r = Some x" "repo_lookup (ns_repo s) i \<noteq> Some r"
  shows "repo_lookup (ns_repo (disconnect_rest r s)) i = repo_lookup (ns_repo s) i"
  using assms(1,2)
  by (cases rule: leaving_cases) (use assms drop_own_lookup [OF assms(1,2)] in auto)

text \<open>What every call leaves as it is.\<close>

lemma disconnected_frame [simp]:
  "ns_next (disconnected r leave x s) = ns_next s" "ns_establishing (disconnected r leave x s) = ns_establishing s"
  "ns_phase (disconnected r leave x s) = ns_phase s" "ns_closing (disconnected r leave x s) = ns_closing s"
  "ns_id (disconnected r leave x s) = ns_id s"
  by (simp_all add: disconnected_def)

end
