(* ===== verification/Net_Connect.thy ===== *)
theory Net_Connect
  imports Net_Session
begin

text \<open>
  How a session comes to exist and gets its connection (\<open>services/networking/helpers.go\<close>):
  \<open>createSession\<close>, \<open>establishConnection\<close> with \<open>initEventStream\<close>, \<open>createAndEstablish\<close>,
  \<open>getSession\<close>, the handling of incoming SDP messages in \<open>receiveConnects\<close>, and the reaction to
  ICE connection states with the reconnect loop.

  What the signaling client, the ICE agent and QUIC answer is an environment record per
  operation, one field per call in the order of the code; what a context or a \<open>select\<close> decides is
  a Boolean field.
\<close>

section \<open>createSession\<close>

text \<open>
  The \<open>select\<close> over \<open>ns.closeCtx.Done()\<close>, \<open>ctx.Done()\<close> and \<open>default\<close> at the entry of an
  operation; when both contexts are done Go picks one at random, here \<open>pick_ctx\<close>.
\<close>

definition entry_select :: "string \<Rightarrow> bool \<Rightarrow> bool \<Rightarrow> bool \<Rightarrow> unit res" where
  "entry_select op closing ctx_done pick_ctx =
     (if closing \<and> \<not> (ctx_done \<and> pick_ctx) then Err (app_closing op)
      else if ctx_done then Err (err_request_timeout op)
      else Ok ())"

definition stun_uris :: "networking_config \<Rightarrow> string \<Rightarrow> string \<Rightarrow> stun_uri list" where
  "stun_uris cfg username password =
     [\<lparr>uri_Scheme = SchemeSTUN, uri_Host = nw_STUNHost cfg, uri_Port = nw_STUNPort cfg,
       uri_Username = [], uri_Password = [], uri_Proto = ProtoUDP\<rparr>,
      \<lparr>uri_Scheme = SchemeTURN, uri_Host = nw_TURNHost cfg, uri_Port = nw_TURNPort cfg,
       uri_Username = username, uri_Password = password, uri_Proto = ProtoUDP\<rparr>,
      \<lparr>uri_Scheme = SchemeTURN, uri_Host = nw_TURNHost cfg, uri_Port = nw_TURNPort cfg,
       uri_Username = username, uri_Password = password, uri_Proto = ProtoTCP\<rparr>]"

definition new_session :: "uuid \<Rightarrow> agent_id \<Rightarrow> bool \<Rightarrow> session" where
  "new_session rid agent isInitiator =
     \<lparr>UserID = rid, CurrentConnects = [], Agent = Some agent, Conn = None, EventStream = None,
      EventDecoder = None, EventEncoder = None, IsInitiator = isInitiator,
      CredsChan = make_chan 1, Closing = False, Leaving = None, ReadyChan = make_chan 1,
      VoiceChan = make_chan 100, WebcamChan = make_chan 100, ScreenChan = make_chan 100,
      Key = []\<rparr>"

definition alloc_session :: "session \<Rightarrow> 'c net \<Rightarrow> sref \<times> 'c net" where
  "alloc_session x s =
     (ns_next s, s\<lparr>ns_heap := (ns_heap s)(ns_next s \<mapsto> x), ns_next := Suc (ns_next s)\<rparr>)"

record create_env =
  ce_ctx_done :: bool
  ce_pick_ctx :: bool
  ce_add_in_session :: "unit call"
  ce_creds :: "(string \<times> string) call"
  ce_agent :: "agent_id call"
  ce_local :: "(bytes \<times> bytes) call"
  ce_new_sdp :: "unit call"
  ce_on_state :: "unit call"
  ce_ctx_done_add :: bool

definition create_session :: "create_env \<Rightarrow> uuid \<Rightarrow> bool \<Rightarrow> 'c net \<Rightarrow> sref res \<times> 'c net" where
  "create_session env rid isInitiator s =
     (let op = ''networkingServ.createSession'' in
      case entry_select op (ns_closing s) (ce_ctx_done env) (ce_pick_ctx env) of
        Err e \<Rightarrow> (Err e, s)
      | Panic \<Rightarrow> (Panic, s)
      | Ok _ \<Rightarrow>
          let s1 = sig_request (AddInSession rid) s in
          try_op op (of_call (ce_add_in_session env)) s1 (\<lambda>_.
          try_op op (of_call (ce_creds env)) s1 (\<lambda>(username, password).
          try_op op (of_call (ce_agent env)) s1 (\<lambda>agent.
            let (r, s2) = alloc_session (new_session rid agent isInitiator)
                  (lib_do [AgentNew agent (stun_uris (ns_cfg s1) username password)
                             (nw_DisconnectedTimeout (ns_cfg s1))] s1) in
          try_op op (of_call (ce_local env)) s2 (\<lambda>(localFrag, localPwd).
            let s3 = sig_request (NewSDP (creds_sdp localFrag localPwd) [rid]) s2 in
          try_op op (of_call (ce_new_sdp env)) s3 (\<lambda>_.
          try_op op (of_call (ce_on_state env)) s3 (\<lambda>_.
            let s4 = lib_do [AgentGather agent] s3;
                (added, m) = repo_add (ce_ctx_done_add env) rid r (ns_repo s4);
                s5 = s4\<lparr>ns_repo := m\<rparr> in
          try_op op added s5 (\<lambda>_. (Ok r, s5)))))))))"

text \<open>The callback \<open>OnCandidate\<close>: a nil candidate ends gathering, any other is sent to the peer.\<close>

definition on_candidate :: "uuid \<Rightarrow> bytes option \<Rightarrow> 'c net \<Rightarrow> 'c net" where
  "on_candidate rid c s =
     (case c of None \<Rightarrow> s | Some cand \<Rightarrow> sig_request (NewSDP (candidate_sdp cand) [rid]) s)"

section \<open>establishConnection\<close>

record est_env =
  ev_pick_creds :: bool
  ev_remote :: "(bytes \<times> bytes) call"
  ev_ice :: "unit call"
  ev_listen :: "unit call"
  ev_quic :: "conn_id call"
  ev_rnd :: bytes
  ev_e2ee :: e2ee_env
  ev_stream :: "stream_id call"
  ev_handshake :: "unit call"

text \<open>
  \<open>ev_stream\<close> answers \<open>OpenStreamSync\<close> on the initiator's side and \<open>AcceptStream\<close> on the other;
  \<open>ev_handshake\<close> the write, or the read, of the handshake byte.
\<close>

definition init_event_stream :: "est_env \<Rightarrow> sref \<Rightarrow> 'c net \<Rightarrow> unit res \<times> 'c net" where
  "init_event_stream env r s =
     (case ns_heap s r of
        None \<Rightarrow> (Panic, s)
      | Some session \<Rightarrow>
          let op = ''networkingServ.initEventStream'' in
          try_op op (of_call (ev_stream env)) s (\<lambda>eventStream.
          try_op op (of_call (ev_handshake env)) s (\<lambda>_.
            let s1 = (if IsInitiator session then lib_do [StreamHandshake eventStream] s else s) in
          try_op op (new_aescm (Key session)) s1 (\<lambda>aead.
            (Ok (), set_session r
              (session\<lparr>EventStream := Some eventStream, EventDecoder := Some (eventStream, aead),
                       EventEncoder := Some (eventStream, aead)\<rparr>) s1)))))"

definition close_ready :: "sref \<Rightarrow> 'c net \<Rightarrow> 'c net res" where
  "close_ready r s =
     with_session r s (\<lambda>session.
       go_bind (chan_close (ReadyChan session))
         (\<lambda>c. Ok (set_session r (session\<lparr>ReadyChan := c\<rparr>) s)))"

text \<open>\<open>handleConnection\<close> with \<open>startDatagramsProcessors\<close>: six loops, each a goroutine of its own.\<close>

definition session_loops :: "sref \<Rightarrow> (sref \<times> session_loop) list" where
  "session_loops r =
     map (Pair r) [EventLoop, DatagramLoop, VoiceLoop, WebcamLoop, ScreenLoop, StreamLoop]"

definition handle_connection :: "sref \<Rightarrow> 'c net \<Rightarrow> 'c net" where
  "handle_connection r s = s\<lparr>ns_handling := ns_handling s @ session_loops r\<rparr>"

text \<open>
  What follows the \<open>select\<close> on the credentials, in the parts at whose ends other goroutines can see a
  change: the ICE and QUIC connection until \<open>session.Conn\<close> is set; the key exchange until \<open>session.Key\<close> is
  set; the event stream; the user's handler; the loops and \<open>close(session.ReadyChan)\<close>.
\<close>

definition dial_peer :: "est_env \<Rightarrow> sref \<Rightarrow> 'c net \<Rightarrow> unit res \<times> 'c net" where
  "dial_peer env r s =
     (let op = ''networkingServ.establishConnection'' in
      case ns_heap s r of
        None \<Rightarrow> (Panic, s)
      | Some session \<Rightarrow>
          try_op op (of_call (ev_remote env)) s (\<lambda>_.
          try_op op (of_call (ev_ice env)) s (\<lambda>_.
          try_op op (if IsInitiator session then Ok () else of_call (ev_listen env)) s (\<lambda>_.
          try_op op (of_call (ev_quic env)) s (\<lambda>quicConn.
            (Ok (), set_session r (session\<lparr>Conn := Some quicConn\<rparr>) s))))))"

definition exchange_keys :: "crypto \<Rightarrow> est_env \<Rightarrow> sref \<Rightarrow> 'c net \<Rightarrow> unit res \<times> 'c net" where
  "exchange_keys cr env r s =
     (case ns_heap s r of
        None \<Rightarrow> (Panic, s)
      | Some session \<Rightarrow>
          try_op ''networkingServ.establishConnection'' (snd (setup_e2ee cr (ev_rnd env) (ev_e2ee env))) s
            (\<lambda>key. (Ok (), set_session r (session\<lparr>Key := key\<rparr>) s)))"

definition open_event_stream :: "est_env \<Rightarrow> sref \<Rightarrow> 'c net \<Rightarrow> unit res \<times> 'c net" where
  "open_event_stream env r s =
     (let (inited, t) = init_event_stream env r s
      in try_op ''networkingServ.establishConnection'' inited t (\<lambda>_. (Ok (), t)))"

definition announce_peer :: "sref \<Rightarrow> 'c net \<Rightarrow> unit res \<times> 'c net" where
  "announce_peer r s =
     (case ns_heap s r of
        None \<Rightarrow> (Panic, s)
      | Some session \<Rightarrow>
          (Ok (), call_connection (onPeerConnectedHandler (ns_handlers s)) (UserID session) s))"

definition start_handling :: "sref \<Rightarrow> 'c net \<Rightarrow> unit res \<times> 'c net" where
  "start_handling r s =
     (let t = handle_connection r s
      in case close_ready r t of Ok u \<Rightarrow> (Ok (), u) | Err e \<Rightarrow> (Err e, t) | Panic \<Rightarrow> (Panic, t))"

definition establish_run :: "crypto \<Rightarrow> est_env \<Rightarrow> sref \<Rightarrow> 'c net \<Rightarrow> unit res \<times> 'c net" where
  "establish_run cr env r s =
     go_then (dial_peer env r s) (\<lambda>s1.
     go_then (exchange_keys cr env r s1) (\<lambda>s2.
     go_then (open_event_stream env r s2) (\<lambda>s3.
     go_then (announce_peer r s3) (start_handling r))))"

text \<open>
  \<open>None\<close> while the \<open>select\<close> over \<open>session.CredsChan\<close> and \<open>ns.closeCtx.Done()\<close> waits. The context
  of the call, which carries \<open>EstablishConnTimeout\<close>, is not part of that \<open>select\<close>.
\<close>

definition await_creds :: "est_env \<Rightarrow> sref \<Rightarrow> 'c net \<Rightarrow> (unit res \<times> 'c net) option" where
  "await_creds env r s =
     (case ns_heap s r of
        None \<Rightarrow> Some (Panic, s)
      | Some session \<Rightarrow>
          (case chan_recv (CredsChan session) of
             Some (v, c) \<Rightarrow>
               if ns_closing s \<and> \<not> ev_pick_creds env
               then Some (Err (app_closing ''networkingServ.establishConnection''), s)
               else Some (Ok (), set_session r (session\<lparr>CredsChan := c\<rparr>) s)
           | None \<Rightarrow>
               if ns_closing s
               then Some (Err (app_closing ''networkingServ.establishConnection''), s)
               else None))"

definition establish_connection ::
    "crypto \<Rightarrow> est_env \<Rightarrow> sref \<Rightarrow> 'c net \<Rightarrow> (unit res \<times> 'c net) option" where
  "establish_connection cr env r s =
     map_option (\<lambda>p. go_then p (establish_run cr env r)) (await_creds env r s)"

section \<open>createAndEstablish\<close>

definition create_and_establish ::
    "create_env \<Rightarrow> uuid \<Rightarrow> bool \<Rightarrow> 'c net \<Rightarrow> sref res \<times> 'c net" where
  "create_and_establish env i isInitiator s =
     (let (created, s1) = create_session env i isInitiator s in
      try_op ''networkingServ.createAndEstablish'' created s1 (\<lambda>r.
        (Ok r, s1\<lparr>ns_establishing := ns_establishing s1 @ [r]\<rparr>)))"

definition established :: "sref \<Rightarrow> 'c net \<Rightarrow> 'c net" where
  "established r s =
     s\<lparr>ns_establishing := filter (\<lambda>q. q \<noteq> r) (ns_establishing s), ns_phase := (ns_phase s)(r := AwaitCreds)\<rparr>"

text \<open>
  The goroutine \<open>createAndEstablish\<close> starts, run by itself: \<open>None\<close> while \<open>establishConnection\<close> waits.
\<close>

definition establish_goroutine ::
    "crypto \<Rightarrow> est_env \<Rightarrow> sref \<Rightarrow> 'c net \<Rightarrow> 'c net res option" where
  "establish_goroutine cr env r s =
     (case establish_connection cr env r s of
        None \<Rightarrow> None
      | Some (Ok _, t) \<Rightarrow> Some (Ok (established r t))
      | Some (Panic, t) \<Rightarrow> Some Panic
      | Some (Err e, t) \<Rightarrow>
          Some (go_bind (close_ready r t) (\<lambda>u.
                go_bind (reset_session r u) (\<lambda>v. Ok (established r v)))))"

text \<open>
  The same goroutine step by step, from one phase to the next, with anything in between. An error closes
  \<open>ReadyChan\<close>; resetting the session is a step of its own.
\<close>

definition in_phase :: "sref \<Rightarrow> est_phase \<Rightarrow> 'c net \<Rightarrow> 'c net" where
  "in_phase r p s = s\<lparr>ns_phase := (ns_phase s)(r := p)\<rparr>"

definition end_turn :: "sref \<Rightarrow> ('c net \<Rightarrow> 'c net) \<Rightarrow> unit res \<times> 'c net \<Rightarrow> 'c net res" where
  "end_turn r next p =
     (case p of
        (Ok _, t) \<Rightarrow> Ok (next t)
      | (Panic, t) \<Rightarrow> Panic
      | (Err e, t) \<Rightarrow> go_bind (close_ready r t) (\<lambda>u. Ok (in_phase r Resetting u)))"

definition establish_turn :: "crypto \<Rightarrow> est_env \<Rightarrow> sref \<Rightarrow> 'c net \<Rightarrow> 'c net res option" where
  "establish_turn cr env r s =
     (case ns_phase s r of
        AwaitCreds \<Rightarrow> map_option (end_turn r (in_phase r Dialing)) (await_creds env r s)
      | Dialing \<Rightarrow> Some (end_turn r (in_phase r Exchanging) (dial_peer env r s))
      | Exchanging \<Rightarrow> Some (end_turn r (in_phase r Streaming) (exchange_keys cr env r s))
      | Streaming \<Rightarrow> Some (end_turn r (in_phase r Announcing) (open_event_stream env r s))
      | Announcing \<Rightarrow> Some (end_turn r (in_phase r Finishing) (announce_peer r s))
      | Finishing \<Rightarrow> Some (end_turn r (established r) (start_handling r s))
      | Resetting \<Rightarrow> Some (go_bind (reset_session r s) (\<lambda>t. Ok (established r t))))"

section \<open>getSession and incoming SDP messages\<close>

record get_env =
  ge_ctx_done :: bool
  ge_pick_ctx :: bool
  ge_ctx_done_get :: bool
  ge_create :: create_env

definition get_session :: "get_env \<Rightarrow> uuid \<Rightarrow> 'c net \<Rightarrow> sref res \<times> 'c net" where
  "get_session env i s =
     (let op = ''networkingServ.getSession'' in
      case entry_select op (ns_closing s) (ge_ctx_done env) (ge_pick_ctx env) of
        Err e \<Rightarrow> (Err e, s)
      | Panic \<Rightarrow> (Panic, s)
      | Ok _ \<Rightarrow>
          (case repo_get (ge_ctx_done_get env) i (ns_repo s) of
             Ok r \<Rightarrow> (Ok r, s)
           | Panic \<Rightarrow> (Panic, s)
           | Err e \<Rightarrow>
               if errors_is e (Base ErrNotFoundBase)
               then let (got, s1) = create_and_establish (ge_create env) i False s
                    in try_op op got s1 (\<lambda>r. (Ok r, s1))
               else (Err (new_app_error op e), s)))"

record sdp_env =
  se_get :: get_env
  se_recreate :: create_env
  se_set_remote :: "unit call"
  se_unmarshal :: "bytes call"
  se_add_candidate :: "unit call"

text \<open>\<open>SetRemoteCredentials\<close>, then the non-blocking send on \<open>CredsChan\<close>.\<close>

definition set_remote_credentials ::
    "sdp_env \<Rightarrow> bytes \<Rightarrow> bytes \<Rightarrow> sref \<Rightarrow> 'c net \<Rightarrow> 'c net res" where
  "set_remote_credentials env ufrag pwd r s =
     with_session r s (\<lambda>session.
       case Agent session of
         None \<Rightarrow> Panic
       | Some agent \<Rightarrow>
           (case se_set_remote env of
              Inl e \<Rightarrow> Ok s
            | Inr _ \<Rightarrow>
                go_bind (try_send () (CredsChan session)) (\<lambda>c.
                  Ok (set_session r (session\<lparr>CredsChan := c\<rparr>)
                        (lib_do [AgentSetRemote agent ufrag pwd] s)))))"

text \<open>The \<open>switch\<close> on the first byte of the payload, for the session found for the sender.\<close>

definition sdp_dispatch :: "sdp_env \<Rightarrow> uuid \<Rightarrow> bytes \<Rightarrow> sref \<Rightarrow> 'c net \<Rightarrow> 'c net res" where
  "sdp_dispatch env sender payload r s =
     (if hd payload = sdp_byte CREDS
      then (case parse_creds payload of
              None \<Rightarrow> Ok s
            | Some (ufrag, pwd) \<Rightarrow>
                with_session r s (\<lambda>session.
                  if Conn session \<noteq> None
                  then go_bind (reset_session r s) (\<lambda>s2.
                         let (created, s3) = create_and_establish (se_recreate env) sender False s2
                         in case created of
                              Err e \<Rightarrow> Ok s3
                            | Panic \<Rightarrow> Panic
                            | Ok r' \<Rightarrow> set_remote_credentials env ufrag pwd r' s3)
                  else set_remote_credentials env ufrag pwd r s))
      else if hd payload = sdp_byte CANDIDATE
      then (case se_unmarshal env of
              Inl e \<Rightarrow> Ok s
            | Inr c \<Rightarrow>
                with_session r s (\<lambda>session.
                  case Agent session of
                    None \<Rightarrow> Panic
                  | Some agent \<Rightarrow>
                      (case se_add_candidate env of
                         Inl e \<Rightarrow> Ok s
                       | Inr _ \<Rightarrow> Ok (lib_do [AgentAddCandidate agent c] s))))
      else Ok s)"

text \<open>The goroutine \<open>receiveConnects\<close> starts for a message, when it makes its own \<open>getSession\<close> call.\<close>

definition handle_sdp :: "sdp_env \<Rightarrow> uuid \<Rightarrow> bytes \<Rightarrow> 'c net \<Rightarrow> 'c net res" where
  "handle_sdp env sender payload s =
     (if length payload < 2 then Ok s
      else
        let (got, s1) = get_session (se_get env) sender s in
        case got of
          Err e \<Rightarrow> Ok s1
        | Panic \<Rightarrow> Panic
        | Ok r \<Rightarrow> sdp_dispatch env sender payload r s1)"

text \<open>
  Messages of one sender whose goroutines meet while \<open>getSession\<close> runs share its result through
  \<open>sdpsGroup\<close> (\<open>singleflight\<close>): the call is made once, then every goroutine goes on with the same
  session pointer, here in the order of the list.
\<close>

fun sdp_dispatch_all :: "uuid \<Rightarrow> (sdp_env \<times> bytes) list \<Rightarrow> sref \<Rightarrow> 'c net \<Rightarrow> 'c net res" where
  "sdp_dispatch_all sender [] r s = Ok s"
| "sdp_dispatch_all sender (m # ms) r s =
     go_bind (sdp_dispatch (fst m) sender (snd m) r s) (sdp_dispatch_all sender ms r)"

definition handle_sdp_group ::
    "get_env \<Rightarrow> uuid \<Rightarrow> (sdp_env \<times> bytes) list \<Rightarrow> 'c net \<Rightarrow> 'c net res" where
  "handle_sdp_group env sender msgs s =
     (let live = filter (\<lambda>m. \<not> length (snd m) < 2) msgs in
      if live = [] then Ok s
      else
        let (got, s1) = get_session env sender s in
        case got of
          Err e \<Rightarrow> Ok s1
        | Panic \<Rightarrow> Panic
        | Ok r \<Rightarrow> sdp_dispatch_all sender live r s1)"

section \<open>ICE connection states and the reconnect loop\<close>

datatype ice_state =
    IceUnknown | IceNew | IceChecking | IceConnected | IceCompleted | IceFailed
  | IceDisconnected | IceClosed

definition on_connection_state :: "sref \<Rightarrow> ice_state \<Rightarrow> 'c net \<Rightarrow> 'c net res" where
  "on_connection_state r c s =
     (if c = IceFailed \<or> c = IceDisconnected
      then go_bind (reset_session r s) (\<lambda>t.
             with_session r t (\<lambda>session.
               Ok (if IsInitiator session
                   then t\<lparr>ns_reconnecting := ns_reconnecting t @ [(UserID session, None)]\<rparr> else t)))
      else Ok s)"

text \<open>
  One turn of the reconnect loop after its sleep: stop when the service closes, try again when the
  session cannot be created, otherwise wait for its \<open>ReadyChan\<close>.
\<close>

datatype reconnect_turn = RcStop | RcRetry | RcWait sref | RcDone

definition reconnect_try :: "create_env \<Rightarrow> uuid \<Rightarrow> 'c net \<Rightarrow> reconnect_turn \<times> 'c net" where
  "reconnect_try env rid s =
     (if ns_closing s then (RcStop, s)
      else let (created, t) = create_and_establish env rid True s
           in (case created of Ok r \<Rightarrow> (RcWait r, t) | _ \<Rightarrow> (RcRetry, t)))"

text \<open>\<open>None\<close> while the loop waits on \<open>newSession.ReadyChan\<close>.\<close>

definition reconnect_ready :: "sref \<Rightarrow> 'c net \<Rightarrow> reconnect_turn option" where
  "reconnect_ready r s =
     (case ns_heap s r of
        None \<Rightarrow> None
      | Some session \<Rightarrow>
          (case chan_recv (ReadyChan session) of
             None \<Rightarrow> None
           | Some _ \<Rightarrow> Some (if Conn session = None then RcRetry else RcDone)))"

text \<open>How the loop goes on: the entry of a peer's loop after a turn.\<close>

definition reconnect_next :: "uuid \<Rightarrow> reconnect_turn \<Rightarrow> (uuid \<times> sref option) list" where
  "reconnect_next rid turn =
     (case turn of RcStop \<Rightarrow> [] | RcDone \<Rightarrow> [] | RcRetry \<Rightarrow> [(rid, None)] | RcWait r \<Rightarrow> [(rid, Some r)])"

definition reconnect_moves :: "uuid \<times> sref option \<Rightarrow> reconnect_turn \<Rightarrow> 'c net \<Rightarrow> 'c net" where
  "reconnect_moves p turn s =
     s\<lparr>ns_reconnecting := remove1 p (ns_reconnecting s) @ reconnect_next (fst p) turn\<rparr>"

lemmas connect_defs [go_defs] =
  handle_connection_def reconnect_next_def reconnect_moves_def
  entry_select_def create_session_def alloc_session_def create_and_establish_def
  init_event_stream_def close_ready_def dial_peer_def exchange_keys_def open_event_stream_def
  announce_peer_def start_handling_def establish_run_def establish_connection_def await_creds_def
  establish_goroutine_def established_def get_session_def set_remote_credentials_def
  sdp_dispatch_def handle_sdp_def handle_sdp_group_def on_connection_state_def reconnect_try_def reconnect_ready_def

end
