(* ===== verification/Net_Session_Props.thy ===== *)
theory Net_Session_Props
  imports Net_Session
begin

text \<open>
  The properties of a single session: what \<open>disconnectSession\<close> does exactly once, when
  \<open>processData\<close> panics, and that the media pipeline delivers a burst of frames in order up to the
  capacity of its channel.
\<close>

section \<open>A concrete service with one session, for the witnesses\<close>

definition sample_cfg :: networking_config where
  "sample_cfg =
     \<lparr>nw_MaxIdleTimeout = 30, nw_HandshakeTimeout = 10, nw_KeepAlivePeriodTimeout = 15,
      nw_NextProtos = [''aloh-networking''], nw_STUNHost = ''stun'', nw_STUNPort = 19302,
      nw_TURNHost = ''turn'', nw_TURNPort = 3478, nw_NewSDPTimeout = 5,
      nw_SendInStreamTimeout = 10, nw_EstablishConnTimeout = 30, nw_DatagramLogTargetCount = 100,
      nw_FetchLogTargetCount = 100, nw_DisconnectedTimeout = 10\<rparr>"

definition sample_session :: session where
  "sample_session =
     \<lparr>UserID = 7, CurrentConnects = [], Agent = Some 1, Conn = Some 2, EventStream = Some 3,
      EventDecoder = None, EventEncoder = None, IsInitiator = True, CredsChan = make_chan 1,
      Closing = False, Leaving = None, ReadyChan = make_chan 1, VoiceChan = make_chan 100,
      WebcamChan = make_chan 100, ScreenChan = make_chan 100, Key = replicate 32 9\<rparr>"

datatype sample_call = GotChat uuid bytes | GotVoice uuid bytes | Joined uuid | Left uuid

definition sample_net :: "sample_call net" where
  "sample_net = (new_networking_serv 1 sample_cfg [(7, 0)])
     \<lparr>ns_heap := [0 \<mapsto> sample_session], ns_next := 1,
      ns_handlers := no_handlers\<lparr>onChatHandler := Some (\<lambda>i p. [GotChat i p]),
        onVoiceHandler := Some (\<lambda>i p. [GotVoice i p]),
        onPeerConnectedHandler := Some (\<lambda>i. [Joined i]),
        onPeerDisconnectedHandler := Some (\<lambda>i. [Left i])\<rparr>\<rparr>"

lemma sample_net_simps [simp]:
  "ns_heap sample_net 0 = Some sample_session" "ns_repo sample_net = [(7, 0)]"
  "UserID sample_session = 7" "\<not> Closing sample_session"
  "VoiceChan sample_session = make_chan 100"
  "onVoiceHandler (ns_handlers sample_net) = Some (\<lambda>i p. [GotVoice i p])"
  "Leaving sample_session = None"
  by (simp_all add: sample_net_def sample_session_def new_networking_serv_def)

lemma sample_session_ok: "session_ok sample_session"
  by (simp add: session_ok_def sample_session_def)

lemma sample_net_ok: "net_ok sample_net"
  using sample_session_ok
  by (auto simp: net_ok_def sample_net_def new_networking_serv_def repo_lookup_def repo_valid_def
      split: if_splits)

section \<open>disconnectSession\<close>

text \<open>
  Disconnecting never panics, keeps the invariant, and runs once: whatever happens to be
  asked later (by either side), a second disconnect of the same session changes nothing.
\<close>

lemma disconnect_session_once:
  assumes "net_ok s" "ns_heap s r = Some x"
  shows "\<exists>t. disconnect_session r leave s = Ok t \<and> net_ok t \<and>
             disconnect_session r leave' t = Ok t"
proof (cases "Closing x")
  case True
  let ?t = "disconnect_rest r s"
  have ok: "net_ok ?t" by (rule disconnect_rest_ok [OF assms(1)])
  have x: "session_ok x" by (rule net_okD(3) [OF assms])
  from assms obtain y where y: "ns_heap ?t r = Some y" "Closing y" "Leaving y = None"
    by (cases rule: leaving_cases) (use True assms in auto)
  have "disconnect_session r leave' ?t = Ok ?t"
    using disconnect_session_eq [OF ok y(1)] y by (simp add: disconnect_rest_def disconnect_turn_None)
  then show ?thesis using disconnect_session_eq [OF assms] True ok by simp
next
  case False
  let ?t = "disconnected r leave x s"
  have ok: "net_ok ?t" by (rule disconnected_ok [OF assms])
  have "ns_heap ?t r = Some (closed_session x)" by (simp add: disconnected_heap)
  from disconnect_session_eq [OF ok this] this ok show ?thesis
    using disconnect_session_eq [OF assms] False by (simp add: disconnect_rest_def disconnect_turn_None)
qed

lemma disconnect_session_once_witness:
  "\<exists>t. disconnect_session 0 True sample_net = Ok t \<and> net_ok t \<and> disconnect_session 0 False t = Ok t"
  by (rule disconnect_session_once [OF sample_net_ok]) simp

text \<open>
  What a disconnect of an open session does: exactly the ids that map to this very session
  leave the store (a session that replaced it stays); the event stream, the QUIC connection and
  the ICE agent that are set are closed, in this order; the side that leaves tells the signaling
  server and does not call the peer-disconnected handler, the other side does the opposite.
\<close>

lemma disconnect_session_effects:
  assumes "net_ok s" "ns_heap s r = Some x" "\<not> Closing x" "disconnect_session r leave s = Ok t"
  shows "(\<forall>i. repo_lookup (ns_repo t) i =
            (if repo_lookup (ns_repo s) i = Some r then None else repo_lookup (ns_repo s) i)) \<and>
         ns_lib t = ns_lib s @ close_calls x \<and>
         ns_sig t = ns_sig s @ (if leave then [DeleteFromSession (UserID x)] else []) \<and>
         ns_calls t = ns_calls s @
           (case onPeerDisconnectedHandler (ns_handlers s) of
              Some f \<Rightarrow> if leave then [] else f (UserID x) | None \<Rightarrow> [])"
proof -
  have "t = disconnected r leave x s"
    using assms(3,4) disconnect_session_eq [OF assms(1,2)] by simp
  then show ?thesis
    using disconnected_lookup [OF assms(1,2)] disconnected_calls [of r leave x s]
    by (auto split: option.split)
qed

lemma disconnect_session_effects_witness:
  "\<exists>t. disconnect_session 0 False sample_net = Ok t \<and> repo_lookup (ns_repo t) 7 = None \<and>
       ns_lib t = [StreamClose 3, ConnClose 2 0 ''disconnected'', AgentGracefulClose 1] \<and>
       ns_calls t = [Left 7] \<and> ns_sig t = []"
proof -
  obtain t where t: "disconnect_session 0 False sample_net = Ok t"
    using disconnect_session_once [OF sample_net_ok sample_net_simps(1)] by blast
  from disconnect_session_effects [OF sample_net_ok sample_net_simps(1,4) t] t show ?thesis
    by (auto simp: repo_lookup_def close_calls_def sample_session_def)
      (simp_all add: sample_net_def new_networking_serv_def)
qed

section \<open>processData\<close>

lemma media_panics:
  assumes "net_ok s" "ns_heap s r = Some x"
  shows "process_data r data s = Panic \<longleftrightarrow>
    data = [] \<or> (Closing x \<and> hd data \<in> {msg_byte VOICE, msg_byte WEBCAM, msg_byte SCREEN})"
  using net_okD(3) [OF assms] assms(2)
  by (auto simp: process_data_def go_bind_Panic_iff session_ok_def split: list.splits if_splits)

lemma process_data_no_error:
  assumes "net_ok s" "ns_heap s r = Some x"
  shows "process_data r data s \<noteq> Err e"
  using assms(2) by (auto simp: process_data_def try_send_def split: list.splits if_splits)

text \<open>
  C38: \<open>processData\<close> panics in two cases only: on an empty message, which its callers rule out, and
  on a media message for a session that was disconnected meanwhile, because the send on the
  closed channel is not guarded. In every other case it succeeds and keeps the invariant.
\<close>

theorem process_data_panics:
  assumes "net_ok s" "ns_heap s r = Some x"
  shows "(process_data r data s = Panic \<longleftrightarrow>
            data = [] \<or> (Closing x \<and> hd data \<in> {msg_byte VOICE, msg_byte WEBCAM, msg_byte SCREEN})) \<and>
         (process_data r data s \<noteq> Panic \<longrightarrow> (\<exists>t. process_data r data s = Ok t \<and> net_ok t))"
proof -
  have "process_data r data s \<noteq> Panic \<Longrightarrow> \<exists>t. process_data r data s = Ok t"
    using process_data_no_error [OF assms] by (cases "process_data r data s") auto
  then show ?thesis using process_data_ok [OF assms(1)] media_panics [OF assms] by blast
qed

theorem process_data_panics_witness:
  "\<exists>t. disconnect_session 0 False sample_net = Ok t \<and> process_data 0 [1, 5] t = Panic"
proof -
  obtain t where t: "disconnect_session 0 False sample_net = Ok t" "net_ok t"
    using disconnect_session_once [OF sample_net_ok sample_net_simps(1)] by blast
  then have "t = disconnected 0 False sample_session sample_net"
    using disconnect_session_eq [OF sample_net_ok sample_net_simps(1)] by simp
  then have "ns_heap t 0 = Some (closed_session sample_session)" by (simp add: disconnected_heap)
  from process_data_panics [OF t(2) this, of "[1, 5]"] t(1) show ?thesis by simp
qed

section \<open>The media pipeline\<close>

text \<open>A burst of messages from one peer, processed before a processor gets to run.\<close>

fun process_burst :: "sref \<Rightarrow> bytes list \<Rightarrow> 'c net \<Rightarrow> 'c net res" where
  "process_burst r [] s = Ok s"
| "process_burst r (d # ds) s = go_bind (process_data r d s) (process_burst r ds)"

text \<open>The voice processor, run for as long as it finds a frame, at most \<open>n\<close> times.\<close>

fun voice_drain :: "nat \<Rightarrow> sref \<Rightarrow> 'c net \<Rightarrow> 'c net" where
  "voice_drain 0 r s = s"
| "voice_drain (Suc n) r s =
     (case voice_processor r s of Some (t, True) \<Rightarrow> voice_drain n r t | _ \<Rightarrow> s)"

lemma process_burst_voice:
  assumes "ns_heap s r = Some x" "chan_open (VoiceChan x)"
  shows "process_burst r (map (set_first_byte (msg_byte VOICE)) ps) s =
           Ok (s\<lparr>ns_heap := (ns_heap s)(r \<mapsto> x\<lparr>VoiceChan := fold chan_offer ps (VoiceChan x)\<rparr>)\<rparr>)"
  using assms
proof (induction ps arbitrary: s x)
  case Nil
  then show ?case by (simp add: fun_upd_idem)
next
  case (Cons p ps)
  let ?y = "x\<lparr>VoiceChan := chan_offer p (VoiceChan x)\<rparr>"
  have "process_data r (set_first_byte (msg_byte VOICE) p) s = Ok (set_session r ?y s)"
    using Cons.prems by (simp add: process_data_def try_send_open)
  moreover have "chan_open (VoiceChan ?y)"
    using Cons.prems(2) by (simp add: cq.invar_offer)
  ultimately show ?case
    using Cons.IH [of "set_session r ?y s" ?y] by (simp add: set_session_def cong: if_cong)
qed

lemma voice_drain_delivers:
  assumes "ns_heap s r = Some x" "ch_buf (VoiceChan x) = ps" "length ps \<le> n"
    "onVoiceHandler (ns_handlers s) = Some h"
  shows "ns_calls (voice_drain n r s) = ns_calls s @ concat (map (h (UserID x)) ps) \<and>
         (\<exists>y. ns_heap (voice_drain n r s) r = Some y \<and> ch_buf (VoiceChan y) = [])"
  using assms
proof (induction n arbitrary: s x ps)
  case 0
  then show ?case by simp
next
  case (Suc n)
  show ?case
  proof (cases ps)
    case Nil
    then show ?thesis
      using Suc.prems by (auto simp: voice_processor_def chan_recv_def split: option.split)
  next
    case (Cons p qs)
    let ?y = "x\<lparr>VoiceChan := (VoiceChan x)\<lparr>ch_buf := qs\<rparr>\<rparr>"
    let ?t = "call_data (Some h) (UserID x) p (set_session r ?y s)"
    have "voice_processor r s = Some (?t, True)"
      using Suc.prems Cons by (simp add: voice_processor_def chan_recv_def)
    moreover have "ns_calls ?t = ns_calls s @ h (UserID x) p" "ns_handlers ?t = ns_handlers s"
      by (simp_all add: call_data_def)
    ultimately show ?thesis
      using Suc.IH [of ?t ?y qs] Suc.prems Cons by simp
  qed
qed

text \<open>
  C29: of a burst of voice frames that arrives while the processor does not run, the channel keeps
  the oldest 100 together with what it already held; the processor then hands exactly these to
  the voice handler, once each and in order of arrival, and leaves the channel empty. The frames
  that do not fit are dropped without an error.
\<close>

theorem voice_burst_delivery:
  assumes "net_ok s" "ns_heap s r = Some x" "\<not> Closing x" "100 \<le> n"
    and "onVoiceHandler (ns_handlers s) = Some h"
    and "process_burst r (map (set_first_byte (msg_byte VOICE)) ps) s = Ok t"
  shows "ns_calls (voice_drain n r t) =
           ns_calls s @ concat (map (h (UserID x)) (take 100 (ch_buf (VoiceChan x) @ ps))) \<and>
         (\<exists>y. ns_heap (voice_drain n r t) r = Some y \<and> ch_buf (VoiceChan y) = [])"
proof -
  have x: "session_ok x" by (rule net_okD(3) [OF assms(1,2)])
  then have "open": "chan_open (VoiceChan x)" and cap: "ch_cap (VoiceChan x) = 100"
    using assms(3) by (simp_all add: session_ok_def chan_open_def)
  let ?c = "fold chan_offer ps (VoiceChan x)"
  have t: "t = s\<lparr>ns_heap := (ns_heap s)(r \<mapsto> x\<lparr>VoiceChan := ?c\<rparr>)\<rparr>"
    using assms(6) process_burst_voice [OF assms(2) "open", of ps] by simp
  have buf: "ch_buf ?c = take 100 (ch_buf (VoiceChan x) @ ps)"
    using cq.offers_contents [OF "open", of ps] cap by simp
  have len: "length (ch_buf ?c) \<le> n" using buf assms(4) by simp
  show ?thesis
    using voice_drain_delivers [of t r "x\<lparr>VoiceChan := ?c\<rparr>" "ch_buf ?c" n h] assms(5) len
    by (simp add: t buf)
qed

theorem voice_burst_delivery_witness:
  "\<exists>t. process_burst 0 (map (set_first_byte (msg_byte VOICE)) [[4], [5]]) sample_net = Ok t \<and>
       ns_calls (voice_drain 100 0 t) = ns_calls sample_net @
         concat (map (\<lambda>p. [GotVoice 7 p]) (take 100 (ch_buf (VoiceChan sample_session) @ [[4], [5]])))"
proof -
  have "chan_open (VoiceChan sample_session)" by (simp add: chan_open_def)
  from process_burst_voice [OF sample_net_simps(1) this, of "[[4], [5]]"]
  obtain t where t: "process_burst 0 (map (set_first_byte (msg_byte VOICE)) [[4], [5]]) sample_net = Ok t"
    by blast
  from voice_burst_delivery [OF sample_net_ok sample_net_simps(1,4) order_refl sample_net_simps(6) t] t
  show ?thesis by auto
qed

end
