(* ===== verification/Net_Connect_Props.thy ===== *)
theory Net_Connect_Props
  imports Net_Connect Net_Session_Props
begin

text \<open>
  Creating a session and establishing its connection keep the invariant of the service; a session
  enters the store only when everything before succeeded; \<open>ReadyChan\<close> is closed exactly once,
  however establishing ends; it does not end while the peer's credentials are missing.
\<close>

section \<open>createSession\<close>

text \<open>The part of the state the proofs about connecting follow.\<close>

lemma net_core_simps:
  "net_core s = (m, h, n, es) \<longleftrightarrow>
     ns_repo s = m \<and> ns_heap s = h \<and> ns_next s = n \<and> (ns_establishing s, ns_phase s) = es"
  by (auto simp: net_core_def)

text \<open>
  The three ways \<open>createSession\<close> ends: an error before the session object exists, an error after
  that (the session is in no store), and success.
\<close>

definition create_result :: "'c net \<Rightarrow> uuid \<Rightarrow> bool \<Rightarrow> sref res \<times> 'c net \<Rightarrow> bool" where
  "create_result s rid b p \<longleftrightarrow>
     (\<exists>e. fst p = Err e \<and> net_core (snd p) = net_core s) \<or>
     (\<exists>e agent. fst p = Err e \<and>
        net_core (snd p) = (ns_repo s, (ns_heap s)(ns_next s \<mapsto> new_session rid agent b),
                            Suc (ns_next s), ns_establishing s, ns_phase s)) \<or>
     (\<exists>agent. fst p = Ok (ns_next s) \<and> repo_lookup (ns_repo s) rid = None \<and>
        net_core (snd p) = ((rid, ns_next s) # ns_repo s,
                            (ns_heap s)(ns_next s \<mapsto> new_session rid agent b),
                            Suc (ns_next s), ns_establishing s, ns_phase s))"

lemma create_result_early: "net_core t = net_core s \<Longrightarrow> create_result s rid b (Err e, t)"
  by (simp add: create_result_def)

lemma create_result_late:
  "net_core t = (ns_repo s, (ns_heap s)(ns_next s \<mapsto> new_session rid agent b),
                 Suc (ns_next s), ns_establishing s, ns_phase s) \<Longrightarrow> create_result s rid b (Err e, t)"
  by (auto simp: create_result_def)

lemma net_core_repo [simp]:
  "net_core (s\<lparr>ns_repo := m\<rparr>) = (m, ns_heap s, ns_next s, ns_establishing s, ns_phase s)"
  by (simp add: net_core_def)

lemma net_core_alloc:
  "net_core (snd (alloc_session x s)) =
     (ns_repo s, (ns_heap s)(ns_next s \<mapsto> x), Suc (ns_next s), ns_establishing s, ns_phase s)"
  "fst (alloc_session x s) = ns_next s"
  by (simp_all add: alloc_session_def net_core_def)

lemma net_core_fields:
  "net_core t = net_core s \<Longrightarrow>
     ns_repo t = ns_repo s \<and> ns_heap t = ns_heap s \<and> ns_next t = ns_next s \<and>
     ns_establishing t = ns_establishing s \<and> ns_phase t = ns_phase s"
  by (simp add: net_core_def)

lemma create_session_result: "create_result s rid b (create_session env rid b s)"
proof (cases "entry_select ''networkingServ.createSession'' (ns_closing s) (ce_ctx_done env) (ce_pick_ctx env)")
  case (Err e)
  then show ?thesis by (simp add: create_session_def create_result_early)
next
  case Panic
  then show ?thesis by (simp add: entry_select_def split: if_splits)
next
  case (Ok u)
  note simps = create_session_def Let_def Ok split_beta go_frame create_result_early
  note late = create_result_late [where s = s and rid = rid and b = b]
  show ?thesis
  proof (cases "ce_add_in_session env")
    case (Inl e)
    then show ?thesis by (simp add: simps)
  next
    case add: (Inr a)
    show ?thesis
    proof (cases "ce_creds env")
      case (Inl e)
      then show ?thesis by (simp add: simps add)
    next
      case creds: (Inr c)
      show ?thesis
      proof (cases "ce_agent env")
        case (Inl e)
        then show ?thesis by (simp add: simps add creds)
      next
        case agent: (Inr g)
        let ?new = "lib_do [AgentNew g (stun_uris (ns_cfg (sig_request (AddInSession rid) s)) (fst c) (snd c))
                     (nw_DisconnectedTimeout (ns_cfg (sig_request (AddInSession rid) s)))]
                     (sig_request (AddInSession rid) s)"
        have s2: "net_core (snd (alloc_session (new_session rid g b) ?new)) =
            (ns_repo s, (ns_heap s)(ns_next s \<mapsto> new_session rid g b), Suc (ns_next s),
             ns_establishing s, ns_phase s)"
          and r: "fst (alloc_session (new_session rid g b) ?new) = ns_next s"
          by (simp_all add: net_core_alloc)
        note known = simps add creds agent
        show ?thesis
        proof (cases "ce_local env")
          case (Inl e)
          then show ?thesis using late s2 by (simp add: known)
        next
          case loc: (Inr l)
          show ?thesis
          proof (cases "ce_new_sdp env"; cases "ce_on_state env")
            fix x y assume sdp: "ce_new_sdp env = Inr x" "ce_on_state env = Inr y"
            show ?thesis
              using s2
              by (cases "map_of (ns_repo s) rid")
                (auto simp: known loc sdp create_result_def repo_add_def net_core_alloc(2)
                  repo_lookup_def net_core_simps)
          qed (use late s2 in \<open>simp_all add: known loc\<close>)
        qed
      qed
    qed
  qed
qed

lemma new_session_ok: "session_ok (new_session rid agent b)"
  by (simp add: session_ok_def new_session_def)

lemma new_session_simps [simp]:
  "UserID (new_session rid agent b) = rid" "Conn (new_session rid agent b) = None"
  "IsInitiator (new_session rid agent b) = b" "\<not> Closing (new_session rid agent b)"
  "ReadyChan (new_session rid agent b) = make_chan 1" "CredsChan (new_session rid agent b) = make_chan 1"
  by (simp_all add: new_session_def)

text \<open>The invariant on the core of the state.\<close>

definition core_ok :: "session_repo \<times> (sref \<rightharpoonup> session) \<times> sref \<times> sref list \<times> (sref \<Rightarrow> est_phase) \<Rightarrow> bool" where
  "core_ok c =
     (case c of (m, h, n, es, ph) \<Rightarrow>
        repo_valid m \<and>
        (\<forall>i r. repo_lookup m i = Some r \<longrightarrow> (\<exists>x. h r = Some x \<and> UserID x = i)) \<and>
        (\<forall>r x. h r = Some x \<longrightarrow> session_ok x \<and> r < n) \<and>
        distinct es \<and>
        (\<forall>r \<in> set es. \<exists>x. h r = Some x \<and> (ch_closed (ReadyChan x) \<longleftrightarrow> ph r = Resetting)) \<and>
        (\<forall>r. r \<notin> set es \<longrightarrow> ph r = AwaitCreds))"

lemma net_ok_core_ok: "net_ok s \<longleftrightarrow> core_ok (net_core s)"
  by (simp add: net_ok_def core_ok_def net_core_def)

lemma net_ok_heap_fresh: "net_ok s \<Longrightarrow> ns_heap s (ns_next s) = None"
  by (cases "ns_heap s (ns_next s)") (auto dest: net_okD(4))

lemma core_ok_alloc:
  assumes "net_ok s"
  shows "core_ok (ns_repo s, (ns_heap s)(ns_next s \<mapsto> new_session rid agent b), Suc (ns_next s),
                  ns_establishing s, ns_phase s)"
  using assms net_ok_heap_fresh [OF assms]
  by (fastforce simp: core_ok_def net_ok_def new_session_ok)

lemma core_ok_store:
  assumes "net_ok s" "repo_lookup (ns_repo s) rid = None"
  shows "core_ok ((rid, ns_next s) # ns_repo s,
                  (ns_heap s)(ns_next s \<mapsto> new_session rid agent b), Suc (ns_next s),
                  ns_establishing s, ns_phase s)"
proof -
  have "repo_valid ((rid, ns_next s) # ns_repo s)"
    using assms net_okD(1) [OF assms(1)] by (simp add: repo_valid_def repo_lookup_def map_of_eq_None_iff)
  moreover have "repo_lookup ((rid, ns_next s) # ns_repo s) i =
      (if i = rid then Some (ns_next s) else repo_lookup (ns_repo s) i)" for i
    by (simp add: repo_lookup_def)
  ultimately show ?thesis
    using core_ok_alloc [OF assms(1), of rid agent b] by (auto simp: core_ok_def)
qed

lemma create_session_ok [go_inv]:
  assumes "net_ok s" "create_session env rid b s = (res, t)"
  shows "net_ok t" "res \<noteq> Panic" "ns_establishing t = ns_establishing s \<and> ns_phase t = ns_phase s"
    "res = Ok r \<Longrightarrow> r = ns_next s \<and> repo_lookup (ns_repo s) rid = None \<and>
       repo_lookup (ns_repo t) = (repo_lookup (ns_repo s))(rid \<mapsto> r) \<and>
       (\<exists>agent. ns_heap t r = Some (new_session rid agent b))"
    "res = Err e \<Longrightarrow> repo_lookup (ns_repo t) = repo_lookup (ns_repo s)"
    "q < ns_next s \<Longrightarrow> ns_heap t q = ns_heap s q"
proof -
  have res: "create_result s rid b (res, t)"
    using create_session_result [of s rid b env] assms(2) by simp
  show "net_ok t" "res \<noteq> Panic"
    using res assms(1) core_ok_alloc [OF assms(1), of rid] core_ok_store [OF assms(1), of rid]
    by (auto simp: create_result_def net_ok_core_ok)
  show "ns_establishing t = ns_establishing s \<and> ns_phase t = ns_phase s"
    "res = Ok r \<Longrightarrow> r = ns_next s \<and> repo_lookup (ns_repo s) rid = None \<and>
       repo_lookup (ns_repo t) = (repo_lookup (ns_repo s))(rid \<mapsto> r) \<and>
       (\<exists>agent. ns_heap t r = Some (new_session rid agent b))"
    "res = Err e \<Longrightarrow> repo_lookup (ns_repo t) = repo_lookup (ns_repo s)"
    "q < ns_next s \<Longrightarrow> ns_heap t q = ns_heap s q"
    using res by (auto simp: create_result_def net_core_def repo_lookup_def)
qed

lemma entry_select_not_Panic [simp]: "entry_select op a b c \<noteq> Panic"
  by (simp add: entry_select_def)

lemma net_ok_establishing:
  assumes "net_ok s" "ns_heap s r = Some x" "\<not> ch_closed (ReadyChan x)" "r \<notin> set (ns_establishing s)"
  shows "net_ok (s\<lparr>ns_establishing := ns_establishing s @ [r]\<rparr>)"
  using assms net_okD(7) [OF assms(1,4)] by (auto simp: net_ok_def)

lemma create_and_establish_ok [go_inv]:
  assumes "net_ok s" "create_and_establish env rid b s = (res, t)"
  shows "net_ok t" "res \<noteq> Panic"
    "res = Ok r \<Longrightarrow> r = ns_next s \<and> repo_lookup (ns_repo s) rid = None \<and>
       repo_lookup (ns_repo t) = (repo_lookup (ns_repo s))(rid \<mapsto> r) \<and>
       (\<exists>agent. ns_heap t r = Some (new_session rid agent b)) \<and>
       ns_establishing t = ns_establishing s @ [r] \<and> ns_phase t = ns_phase s"
    "res = Err e \<Longrightarrow> repo_lookup (ns_repo t) = repo_lookup (ns_repo s) \<and>
       ns_establishing t = ns_establishing s \<and> ns_phase t = ns_phase s"
    "q < ns_next s \<Longrightarrow> ns_heap t q = ns_heap s q"
proof -
  obtain c u where cu: "create_session env rid b s = (c, u)" by (cases "create_session env rid b s")
  note c = create_session_ok [OF assms(1) cu]
  have fresh: "ns_next s \<notin> set (ns_establishing s)"
    using net_okD(6) [OF assms(1)] net_ok_heap_fresh [OF assms(1)] by force
  have ok: "net_ok (u\<lparr>ns_establishing := ns_establishing u @ [r]\<rparr>)" if created: "c = Ok r" for r
  proof -
    obtain agent where "ns_heap u r = Some (new_session rid agent b)" "r = ns_next s"
      using c(4) [OF created] by blast
    then show ?thesis using net_ok_establishing [OF c(1)] c(3) fresh by simp
  qed
  show "net_ok t" "res \<noteq> Panic"
    using assms(2) cu c ok by (auto simp: create_and_establish_def try_op_def split: outcome.splits)
  show "res = Ok r \<Longrightarrow> r = ns_next s \<and> repo_lookup (ns_repo s) rid = None \<and>
       repo_lookup (ns_repo t) = (repo_lookup (ns_repo s))(rid \<mapsto> r) \<and>
       (\<exists>agent. ns_heap t r = Some (new_session rid agent b)) \<and>
       ns_establishing t = ns_establishing s @ [r] \<and> ns_phase t = ns_phase s"
    using assms(2) cu c(3) c(4) [of r]
    by (auto simp: create_and_establish_def try_op_def split: outcome.splits)
  show "res = Err e \<Longrightarrow> repo_lookup (ns_repo t) = repo_lookup (ns_repo s) \<and>
       ns_establishing t = ns_establishing s \<and> ns_phase t = ns_phase s"
    using assms(2) cu c(3,5)
    by (auto simp: create_and_establish_def try_op_def split: outcome.splits)
  show "q < ns_next s \<Longrightarrow> ns_heap t q = ns_heap s q"
    using assms(2) cu c(6)
    by (auto simp: create_and_establish_def try_op_def split: outcome.splits)
qed

section \<open>establishConnection\<close>

lemma lib_do_Nil [simp]: "lib_do [] s = s"
  by (simp add: lib_do_def)

lemma setup_e2ee_not_Panic [simp]: "snd (setup_e2ee cr rnd env) \<noteq> Panic"
  by (auto simp: setup_e2ee_def new_keys_def io_read_full_def new_master_key_def go_bind_Panic_iff
      split: outcome.splits sum.splits option.splits if_splits prod.splits)

lemma new_master_key_length: "new_master_key cr priv p = Ok k \<Longrightarrow> length k = 32"
  by (auto simp: new_master_key_def io_read_full_def split: option.splits if_splits)

lemma setup_e2ee_length:
  assumes "snd (setup_e2ee cr rnd env) = Ok k"
  shows "length k = 32"
proof (cases "new_keys cr rnd")
  case (Ok p)
  then show ?thesis
    using assms new_master_key_length
    by (cases p; cases "ee_open env") (auto simp: setup_e2ee_def go_bind_Ok_iff)
qed (use assms in \<open>simp_all add: setup_e2ee_def\<close>)

text \<open>The session after its event stream was set up.\<close>

definition with_event_stream :: "stream_id \<Rightarrow> session \<Rightarrow> session" where
  "with_event_stream e x =
     x\<lparr>EventStream := Some e, EventDecoder := Some (e, Key x), EventEncoder := Some (e, Key x)\<rparr>"

lemma init_event_stream_cases:
  assumes "ns_heap s r = Some x"
  obtains (failed) e qs where "init_event_stream env r s = (Err e, lib_do qs s)"
  | (set) e qs where "aes_key (Key x)"
      "init_event_stream env r s = (Ok (), set_session r (with_event_stream e x) (lib_do qs s))"
proof (cases "ev_stream env")
  case (Inl e)
  then have "init_event_stream env r s = (Err (new_app_error ''networkingServ.initEventStream'' e), lib_do [] s)"
    using assms by (simp add: init_event_stream_def)
  then show thesis by (rule failed)
next
  case st: (Inr e)
  show thesis
  proof (cases "ev_handshake env")
    case (Inl err)
    then have "init_event_stream env r s =
        (Err (new_app_error ''networkingServ.initEventStream'' err), lib_do [] s)"
      using assms st by (simp add: init_event_stream_def)
    then show thesis by (rule failed)
  next
    case hs: (Inr u)
    define qs where "qs = (if IsInitiator x then [StreamHandshake e] else [])"
    have qs: "(if IsInitiator x then lib_do [StreamHandshake e] s else s) = lib_do qs s"
      by (simp add: qs_def)
    show thesis
    proof (cases "aes_key (Key x)")
      case True
      then have "init_event_stream env r s =
          (Ok (), set_session r (with_event_stream e x) (lib_do qs s))"
        using assms st hs qs
        by (simp add: init_event_stream_def new_aescm_key with_event_stream_def)
      with True show thesis by (rule set)
    next
      case False
      then have "\<exists>err. init_event_stream env r s = (Err err, lib_do qs s)"
        using assms st hs qs by (simp add: init_event_stream_def new_aescm_key)
      then show thesis using failed by blast
    qed
  qed
qed

text \<open>How a run of \<open>establishConnection\<close> on session \<open>x\<close> ends.\<close>

definition run_failed :: "sref \<Rightarrow> session \<Rightarrow> 'c net \<Rightarrow> 'c net \<Rightarrow> bool" where
  "run_failed r x s t \<longleftrightarrow>
     (\<exists>c k qs. (k = Key x \<or> c \<noteq> None \<and> length k = 32) \<and> t = lib_do qs (set_session r (x\<lparr>Conn := c, Key := k\<rparr>) s))"

definition run_done :: "sref \<Rightarrow> session \<Rightarrow> 'c net \<Rightarrow> 'c net \<Rightarrow> bool" where
  "run_done r x s t \<longleftrightarrow>
     (\<exists>c k e qs y u. length k = 32 \<and> y = with_event_stream e (x\<lparr>Conn := Some c, Key := k\<rparr>) \<and>
        u = call_connection (onPeerConnectedHandler (ns_handlers s)) (UserID x)
              (set_session r y (lib_do qs s)) \<and>
        t = set_session r (y\<lparr>ReadyChan := (ReadyChan x)\<lparr>ch_closed := True\<rparr>\<rparr>)
              (u\<lparr>ns_handling := ns_handling s @ session_loops r\<rparr>))"

lemma set_session_twice [simp]: "set_session r y (set_session r x s) = set_session r y s"
  by (simp add: set_session_def)

lemma set_session_same: "ns_heap s r = Some x \<Longrightarrow> set_session r x s = s"
  by (simp add: set_session_def fun_upd_idem)

lemma set_session_lib: "set_session r x (lib_do qs s) = lib_do qs (set_session r x s)"
  by (simp add: set_session_def lib_do_def)

lemma run_failed_now: "ns_heap s r = Some x \<Longrightarrow> run_failed r x s s"
  unfolding run_failed_def
  by (rule exI [of _ "Conn x"], rule exI [of _ "Key x"], rule exI [of _ "[]"])
    (simp add: set_session_same)

lemma run_failed_conn: "run_failed r x s (set_session r (x\<lparr>Conn := c\<rparr>) s)"
  unfolding run_failed_def
  by (rule exI [of _ c], rule exI [of _ "Key x"], rule exI [of _ "[]"]) simp

lemma with_event_stream_simps [simp]:
  "UserID (with_event_stream e x) = UserID x" "ReadyChan (with_event_stream e x) = ReadyChan x"
  "CredsChan (with_event_stream e x) = CredsChan x" "Closing (with_event_stream e x) = Closing x"
  "Conn (with_event_stream e x) = Conn x" "Key (with_event_stream e x) = Key x"
  "EventStream (with_event_stream e x) = Some e"
  "session_ok (with_event_stream e x) = session_ok x"
  by (simp_all add: with_event_stream_def session_ok_def)

text \<open>How each part ends.\<close>

lemma dial_peer_cases:
  assumes "ns_heap s r = Some x"
  obtains (failed) e where "dial_peer env r s = (Err e, s)"
  | (up) c where "ev_quic env = Inr c" "dial_peer env r s = (Ok (), set_session r (x\<lparr>Conn := Some c\<rparr>) s)"
proof -
  let ?listen = "if IsInitiator x then Ok () else of_call (ev_listen env)"
  have "?listen \<noteq> Panic" by simp
  then have "(\<exists>e. dial_peer env r s = (Err e, s)) \<or>
      (\<exists>c. ev_quic env = Inr c \<and> dial_peer env r s = (Ok (), set_session r (x\<lparr>Conn := Some c\<rparr>) s))"
    using assms
    by (cases "ev_remote env"; cases "ev_ice env"; cases ?listen; cases "ev_quic env") (auto simp: dial_peer_def)
  then show thesis using failed up by blast
qed

lemma exchange_keys_cases:
  assumes "ns_heap s r = Some x"
  obtains (failed) e where "snd (setup_e2ee cr (ev_rnd env) (ev_e2ee env)) = Err e"
    "exchange_keys cr env r s = (Err (new_app_error ''networkingServ.establishConnection'' e), s)"
  | (keyed) k where "snd (setup_e2ee cr (ev_rnd env) (ev_e2ee env)) = Ok k" "length k = 32"
      "exchange_keys cr env r s = (Ok (), set_session r (x\<lparr>Key := k\<rparr>) s)"
  using assms setup_e2ee_length [of cr "ev_rnd env" "ev_e2ee env"]
  by (cases "snd (setup_e2ee cr (ev_rnd env) (ev_e2ee env))") (auto simp: exchange_keys_def)

lemma open_event_stream_cases:
  assumes "ns_heap s r = Some x"
  obtains (failed) e qs where "open_event_stream env r s = (Err e, lib_do qs s)"
  | (set) e qs where "aes_key (Key x)"
      "open_event_stream env r s = (Ok (), set_session r (with_event_stream e x) (lib_do qs s))"
  using assms
proof (cases rule: init_event_stream_cases [where env = env])
  case (failed e qs)
  then show thesis using that(1) by (simp add: open_event_stream_def)
next
  case (set e qs)
  then show thesis using that(2) by (simp add: open_event_stream_def)
qed

lemma announce_peer_eq: "ns_heap s r = Some x \<Longrightarrow>
    announce_peer r s = (Ok (), call_connection (onPeerConnectedHandler (ns_handlers s)) (UserID x) s)"
  by (simp add: announce_peer_def)

lemma start_handling_eq:
  assumes "ns_heap s r = Some x" "\<not> ch_closed (ReadyChan x)"
  shows "start_handling r s = (Ok (), set_session r (x\<lparr>ReadyChan := (ReadyChan x)\<lparr>ch_closed := True\<rparr>\<rparr>)
    (handle_connection r s))"
  using assms by (simp add: start_handling_def handle_connection_def close_ready_def chan_close_def)

lemma establish_run_result:
  assumes "ns_heap s r = Some x" "\<not> ch_closed (ReadyChan x)"
  shows "(\<exists>e t. establish_run cr env r s = (Err e, t) \<and> run_failed r x s t) \<or>
         (\<exists>t. establish_run cr env r s = (Ok (), t) \<and> run_done r x s t)"
  using assms(1)
proof (cases rule: dial_peer_cases [where env = env])
  case (failed e)
  then show ?thesis using run_failed_now [OF assms(1)] by (simp add: establish_run_def)
next
  case (up c)
  let ?s1 = "set_session r (x\<lparr>Conn := Some c\<rparr>) s"
  have "ns_heap ?s1 r = Some (x\<lparr>Conn := Some c\<rparr>)" by simp
  then show ?thesis
  proof (cases rule: exchange_keys_cases [where env = env and cr = cr])
    case (failed e)
    then show ?thesis using up run_failed_conn by (auto simp: establish_run_def)
  next
    case (keyed k)
    let ?x2 = "x\<lparr>Conn := Some c, Key := k\<rparr>"
    let ?s2 = "set_session r ?x2 s"
    have "ns_heap ?s2 r = Some ?x2" by simp
    then show ?thesis
    proof (cases rule: open_event_stream_cases [where env = env])
      case (failed e qs)
      have "run_failed r x s (lib_do qs ?s2)" unfolding run_failed_def using keyed(2) by blast
      then show ?thesis using up keyed failed by (auto simp: establish_run_def)
    next
      case (set e qs)
      let ?y = "with_event_stream e ?x2"
      let ?s3 = "set_session r ?y (lib_do qs s)"
      let ?u = "call_connection (onPeerConnectedHandler (ns_handlers s)) (UserID x) ?s3"
      have "announce_peer r ?s3 = (Ok (), ?u)" using announce_peer_eq [of ?s3 r ?y] by simp
      moreover have "start_handling r ?u = (Ok (), set_session r (?y\<lparr>ReadyChan := (ReadyChan x)\<lparr>ch_closed := True\<rparr>\<rparr>)
          (?u\<lparr>ns_handling := ns_handling s @ session_loops r\<rparr>))"
        using start_handling_eq [of ?u r ?y] assms(2) by (simp add: handle_connection_def)
      ultimately have "establish_run cr env r s =
          (Ok (), set_session r (?y\<lparr>ReadyChan := (ReadyChan x)\<lparr>ch_closed := True\<rparr>\<rparr>)
            (?u\<lparr>ns_handling := ns_handling s @ session_loops r\<rparr>))"
        using up keyed set by (simp add: establish_run_def set_session_lib)
      moreover have "run_done r x s
          (set_session r (?y\<lparr>ReadyChan := (ReadyChan x)\<lparr>ch_closed := True\<rparr>\<rparr>)
            (?u\<lparr>ns_handling := ns_handling s @ session_loops r\<rparr>))"
        using keyed(2) unfolding run_done_def by (intro exI conjI; (rule refl | simp)+)
      ultimately show ?thesis by blast
    qed
  qed
qed

section \<open>The establishing goroutine\<close>

lemma established_fields [simp]:
  "ns_heap (established r s) = ns_heap s" "ns_repo (established r s) = ns_repo s"
  "ns_calls (established r s) = ns_calls s" "ns_handling (established r s) = ns_handling s"
  "ns_establishing (established r s) = filter (\<lambda>q. q \<noteq> r) (ns_establishing s)"
  "ns_next (established r s) = ns_next s" "ns_closing (established r s) = ns_closing s"
  "ns_phase (established r s) = (ns_phase s)(r := AwaitCreds)"
  by (simp_all add: established_def)

lemma established_set: "established r (set_session q y s) = set_session q y (established r s)"
  by (simp add: established_def set_session_def)

lemma net_ok_established: "net_ok s \<Longrightarrow> net_ok (established r s)"
  by (auto simp: net_ok_def)

lemma net_ok_started:
  assumes "net_ok s" "r \<in> set (ns_establishing s)" "ns_phase s r = AwaitCreds"
  shows "\<exists>x. ns_heap s r = Some x \<and> \<not> ch_closed (ReadyChan x)"
  using net_okD(6) [OF assms(1,2)] assms(3) by auto

lemma net_ok_handling [simp]: "net_ok (s\<lparr>ns_handling := hs\<rparr>) = net_ok s"
  by (rule net_ok_core) (simp add: net_core_def)

text \<open>Closing the ready channel of a session that is being established, and taking it off.\<close>

lemma net_ok_close_ready:
  assumes "net_ok s" "ns_heap s r = Some x"
  shows "net_ok (established r (set_session r (x\<lparr>ReadyChan := (ReadyChan x)\<lparr>ch_closed := True\<rparr>\<rparr>) s))"
proof -
  let ?y = "x\<lparr>ReadyChan := (ReadyChan x)\<lparr>ch_closed := True\<rparr>\<rparr>"
  have "session_ok ?y" using net_okD(3) [OF assms] by (simp add: session_ok_def)
  moreover have "ns_heap (established r s) r = Some x" using assms(2) by simp
  ultimately have "net_ok (set_session r ?y (established r s))"
    by (intro net_ok_set_session [OF net_ok_established [OF assms(1)]]) simp_all
  then show ?thesis by (simp add: established_set)
qed

lemma session_ok_conn [simp]: "session_ok (x\<lparr>Conn := c, Key := k\<rparr>) = session_ok x"
  by (simp add: session_ok_def)

lemma run_failed_D:
  assumes "run_failed r x s t" "net_ok s" "ns_heap s r = Some x"
  obtains y where "net_ok t" "ns_heap t = (ns_heap s)(r \<mapsto> y)" "ReadyChan y = ReadyChan x"
    "UserID y = UserID x" "Closing y = Closing x" "ns_repo t = ns_repo s" "ns_calls t = ns_calls s"
    "ns_establishing t = ns_establishing s"
proof -
  obtain c k qs where t: "t = lib_do qs (set_session r (x\<lparr>Conn := c, Key := k\<rparr>) s)"
    using assms(1) by (auto simp: run_failed_def)
  let ?y = "x\<lparr>Conn := c, Key := k\<rparr>"
  have "net_ok t"
    unfolding t using assms(2,3) net_okD(3) [OF assms(2,3)] by (simp add: net_ok_set_session)
  then show thesis by (rule that [of ?y]) (simp_all add: t, simp add: lib_do_def)
qed

lemma run_done_D:
  assumes "run_done r x s t" "net_ok s" "ns_heap s r = Some x"
  obtains y where "net_ok (established r t)" "ns_heap t r = Some y" "ch_closed (ReadyChan y)"
    "aes_key (Key y)" "Conn y \<noteq> None" "EventStream y \<noteq> None" "set (session_loops r) \<subseteq> set (ns_handling t)"
    "ns_repo t = ns_repo s"
    "ns_calls t = ns_calls s @ (case onPeerConnectedHandler (ns_handlers s) of
       None \<Rightarrow> [] | Some f \<Rightarrow> f (UserID x))"
proof -
  obtain c k e qs y u where k: "length k = 32" and y: "y = with_event_stream e (x\<lparr>Conn := Some c, Key := k\<rparr>)"
    and u: "u = call_connection (onPeerConnectedHandler (ns_handlers s)) (UserID x)
              (set_session r y (lib_do qs s))"
    and t: "t = set_session r (y\<lparr>ReadyChan := (ReadyChan x)\<lparr>ch_closed := True\<rparr>\<rparr>)
              (u\<lparr>ns_handling := ns_handling s @ session_loops r\<rparr>)"
    using assms(1) by (auto simp: run_done_def)
  have "session_ok y" using net_okD(3) [OF assms(2,3)] by (simp add: y)
  then have "net_ok (set_session r y (lib_do qs s))"
    using assms(2,3) by (intro net_ok_set_session [where x = x]) (simp_all add: y)
  then have "net_ok (u\<lparr>ns_handling := ns_handling s @ session_loops r\<rparr>)" by (simp add: u)
  moreover have "ns_heap (u\<lparr>ns_handling := ns_handling s @ session_loops r\<rparr>) r = Some y" by (simp add: u)
  ultimately have ok: "net_ok (established r t)"
    using net_ok_close_ready [of "u\<lparr>ns_handling := ns_handling s @ session_loops r\<rparr>" r y] by (simp add: t y)
  have "ns_calls u = ns_calls s @ (case onPeerConnectedHandler (ns_handlers s) of
       None \<Rightarrow> [] | Some f \<Rightarrow> f (UserID x))"
    by (auto simp: u call_connection_def lib_do_def split: option.split)
  with ok show thesis
    by (intro that [of "y\<lparr>ReadyChan := (ReadyChan x)\<lparr>ch_closed := True\<rparr>\<rparr>"])
      (simp_all add: t k y u aes_key_def)
qed

text \<open>The error path of the goroutine: close \<open>ReadyChan\<close>, reset the session.\<close>

definition gave_up :: "sref \<Rightarrow> session \<Rightarrow> 'c net \<Rightarrow> 'c net" where
  "gave_up r y t =
     (let y' = y\<lparr>ReadyChan := (ReadyChan y)\<lparr>ch_closed := True\<rparr>\<rparr>
      in established r (drop_from_repo r y' (lib_do (close_calls y') (set_session r y' t))))"

lemma goroutine_gives_up:
  assumes "ns_heap t r = Some y" "\<not> ch_closed (ReadyChan y)"
  shows "go_bind (close_ready r t) (\<lambda>u. go_bind (reset_session r u) (\<lambda>v. Ok (established r v))) =
           Ok (gave_up r y t)"
  using assms by (simp add: close_ready_def chan_close_def reset_session_def gave_up_def Let_def)

lemma gave_up_ok:
  assumes "net_ok t" "ns_heap t r = Some y"
  shows "net_ok (gave_up r y t)" "ns_heap (gave_up r y t) r =
      Some (y\<lparr>ReadyChan := (ReadyChan y)\<lparr>ch_closed := True\<rparr>\<rparr>)"
    "ns_calls (gave_up r y t) = ns_calls t"
    "ns_establishing (gave_up r y t) = filter (\<lambda>q. q \<noteq> r) (ns_establishing t)"
    "repo_lookup (ns_repo (gave_up r y t)) i =
      (if repo_lookup (ns_repo t) i = Some r then None else repo_lookup (ns_repo t) i)"
proof -
  let ?y = "y\<lparr>ReadyChan := (ReadyChan y)\<lparr>ch_closed := True\<rparr>\<rparr>"
  have ok: "net_ok (established r (set_session r ?y t))" by (rule net_ok_close_ready [OF assms])
  have eq: "gave_up r y t =
      drop_from_repo r ?y (lib_do (close_calls ?y) (established r (set_session r ?y t)))"
    by (simp add: gave_up_def Let_def established_def drop_from_repo_def lib_do_def)
  show "net_ok (gave_up r y t)" using ok by (simp add: eq net_ok_drop)
  show "ns_heap (gave_up r y t) r = Some ?y" by (simp add: eq)
  show "ns_calls (gave_up r y t) = ns_calls t" by (simp add: eq lib_do_def)
  show "ns_establishing (gave_up r y t) = filter (\<lambda>q. q \<noteq> r) (ns_establishing t)" by (simp add: eq)
  have "repo_lookup (ns_repo t) i = Some r \<Longrightarrow> i = UserID y"
    using net_okD(2) [OF assms(1), of i r] assms(2) by auto
  then show "repo_lookup (ns_repo (gave_up r y t)) i =
      (if repo_lookup (ns_repo t) i = Some r then None else repo_lookup (ns_repo t) i)"
    using net_okD(1) [OF assms(1)] by (auto simp: eq drop_lookup)
qed

end
