(* ===== verification/Net_Establish.thy ===== *)
theory Net_Establish
  imports Net_Connect_Props
begin

text \<open>
  The properties of connecting: \<open>createSession\<close> stores all or nothing, the establishing goroutine
  settles its session in exactly one of two ways, and what happens when the peer's credentials
  never come, when the last steps of establishing fail, and when a peer reconnects.
\<close>

section \<open>createSession stores all or nothing\<close>

text \<open>
  \<open>createSession\<close> never panics and keeps the invariant; when it fails the store answers as
  before, when it succeeds the id was free and now maps to a new, unconnected session; no existing
  session is touched either way.
\<close>

lemma create_session_atomic:
  assumes "net_ok s"
  shows "net_ok (snd (create_session env rid b s)) \<and>
    (\<forall>q. ns_heap s q \<noteq> None \<longrightarrow> ns_heap (snd (create_session env rid b s)) q = ns_heap s q) \<and>
    (case fst (create_session env rid b s) of
       Err e \<Rightarrow> repo_lookup (ns_repo (snd (create_session env rid b s))) = repo_lookup (ns_repo s)
     | Ok r \<Rightarrow> repo_lookup (ns_repo s) rid = None \<and> ns_heap s r = None \<and>
         repo_lookup (ns_repo (snd (create_session env rid b s))) =
           (repo_lookup (ns_repo s))(rid \<mapsto> r) \<and>
         (\<exists>agent. ns_heap (snd (create_session env rid b s)) r = Some (new_session rid agent b))
     | Panic \<Rightarrow> False)"
proof -
  obtain res t where rt: "create_session env rid b s = (res, t)" by (cases "create_session env rid b s")
  note c = create_session_ok [OF assms rt]
  have "ns_heap t q = ns_heap s q" if heap: "ns_heap s q \<noteq> None" for q
    using heap c(6) net_okD(4) [OF assms] by blast
  moreover have "ns_heap s r = None" if created: "res = Ok r" for r
    using c(4) [OF created] net_ok_heap_fresh [OF assms] by simp
  ultimately show ?thesis
    using c(1,2,4,5) by (simp add: rt split: outcome.split)
qed

text \<open>An environment in which every call of \<open>createSession\<close> succeeds.\<close>

definition sample_create :: create_env where
  "sample_create =
     \<lparr>ce_ctx_done = False, ce_pick_ctx = False, ce_add_in_session = Inr (),
      ce_creds = Inr (''u'', ''p''), ce_agent = Inr 4, ce_local = Inr ([97], [98]),
      ce_new_sdp = Inr (), ce_on_state = Inr (), ce_ctx_done_add = False\<rparr>"

lemma sample_create_fst: "fst (create_session sample_create 8 True sample_net) = Ok 1"
  by (simp add: create_session_def sample_create_def entry_select_def sample_net_def
      new_networking_serv_def alloc_session_def sig_request_def lib_do_def repo_add_def Let_def)

lemma create_session_atomic_witness:
  "repo_lookup (ns_repo (snd (create_session sample_create 8 True sample_net))) = [7 \<mapsto> 0, 8 \<mapsto> 1]"
  using create_session_atomic [OF sample_net_ok, of sample_create 8 True] sample_create_fst
  by (auto simp: repo_lookup_def)

section \<open>The goroutine of createAndEstablish\<close>

text \<open>
  How establishing session \<open>r\<close> of \<open>s\<close> may end: joined, or given up.
\<close>

definition joined :: "sref \<Rightarrow> session \<Rightarrow> 'c net \<Rightarrow> 'c net \<Rightarrow> bool" where
  "joined r x s t \<longleftrightarrow>
     (\<exists>y. ns_heap t r = Some y \<and> ch_closed (ReadyChan y) \<and> aes_key (Key y) \<and> Conn y \<noteq> None \<and>
          EventStream y \<noteq> None) \<and>
     set (session_loops r) \<subseteq> set (ns_handling t) \<and> repo_lookup (ns_repo t) = repo_lookup (ns_repo s) \<and>
     ns_calls t = ns_calls s @
       (case onPeerConnectedHandler (ns_handlers s) of None \<Rightarrow> [] | Some f \<Rightarrow> f (UserID x))"

definition abandoned :: "sref \<Rightarrow> 'c net \<Rightarrow> 'c net \<Rightarrow> bool" where
  "abandoned r s t \<longleftrightarrow>
     (\<exists>y. ns_heap t r = Some y \<and> ch_closed (ReadyChan y)) \<and> ns_calls t = ns_calls s \<and>
     (\<forall>i. repo_lookup (ns_repo t) i =
        (if repo_lookup (ns_repo s) i = Some r then None else repo_lookup (ns_repo s) i))"

lemma gave_up_abandoned:
  assumes "net_ok t" "ns_heap t r = Some y" "\<not> ch_closed (ReadyChan y)"
    "ns_repo t = ns_repo s" "ns_calls t = ns_calls s"
  shows "abandoned r s (gave_up r y t)" "net_ok (gave_up r y t)"
    "r \<notin> set (ns_establishing (gave_up r y t))"
  using assms gave_up_ok [OF assms(1,2)] by (simp_all add: abandoned_def)

lemma goroutine_failed:
  assumes "establish_connection cr env r s = Some (Err e, t)" "net_ok t" "ns_heap t r = Some y"
    "\<not> ch_closed (ReadyChan y)" "ns_repo t = ns_repo s" "ns_calls t = ns_calls s"
  shows "establish_goroutine cr env r s = Some (Ok (gave_up r y t)) \<and>
    net_ok (gave_up r y t) \<and> r \<notin> set (ns_establishing (gave_up r y t)) \<and>
    abandoned r s (gave_up r y t)"
  using assms goroutine_gives_up [OF assms(3,4)] gave_up_abandoned [OF assms(2-6)]
  by (simp add: establish_goroutine_def)


text \<open>The goroutine after it received the credentials signal.\<close>

lemma goroutine_credited:
  assumes "net_ok s" "ns_heap s r = Some x" "\<not> ch_closed (ReadyChan x)"
    "chan_recv (CredsChan x) = Some (v, c)" "\<not> ns_closing s \<or> ev_pick_creds env"
  shows "\<exists>t. establish_goroutine cr env r s = Some (Ok t) \<and> net_ok t \<and>
             r \<notin> set (ns_establishing t) \<and> (joined r x s t \<or> abandoned r s t)"
proof -
  define x1 where "x1 = x\<lparr>CredsChan := c\<rparr>"
  define s1 where "s1 = set_session r x1 s"
  have run: "establish_connection cr env r s = Some (establish_run cr env r s1)"
    using assms(2,4,5) by (auto simp: establish_connection_def await_creds_def x1_def s1_def)
  have x1: "session_ok x1" "UserID x1 = UserID x" "ReadyChan x1 = ReadyChan x"
    using net_okD(3) [OF assms(1,2)] chan_recv_SomeD [OF assms(4)]
    by (simp_all add: x1_def session_ok_def)
  have ok1: "net_ok s1"
    unfolding s1_def using x1 by (intro net_ok_set_session [OF assms(1,2)]) simp_all
  have heap1: "ns_heap s1 r = Some x1" by (simp add: s1_def)
  have same: "ns_repo s1 = ns_repo s" "ns_calls s1 = ns_calls s" "ns_handlers s1 = ns_handlers s"
    by (simp_all add: s1_def)
  have ready1: "\<not> ch_closed (ReadyChan x1)" using assms(3) x1 by simp
  from establish_run_result [OF heap1 ready1, of cr env] show ?thesis
  proof (elim disjE exE conjE)
    fix e t1 assume t1: "establish_run cr env r s1 = (Err e, t1)" and failed: "run_failed r x1 s1 t1"
    from run_failed_D [OF failed ok1 heap1] obtain y where
      y1: "net_ok t1" "ns_heap t1 = (ns_heap s1)(r \<mapsto> y)" "ReadyChan y = ReadyChan x1"
        "ns_repo t1 = ns_repo s1" "ns_calls t1 = ns_calls s1" by blast
    then have y: "net_ok t1" "ns_heap t1 r = Some y" "\<not> ch_closed (ReadyChan y)"
        "ns_repo t1 = ns_repo s" "ns_calls t1 = ns_calls s" using ready1 same by simp_all
    have "establish_connection cr env r s = Some (Err e, t1)" using run t1 by simp
    from goroutine_failed [OF this y] show ?thesis by auto
  next
    fix t1 assume t1: "establish_run cr env r s1 = (Ok (), t1)" and finished: "run_done r x1 s1 t1"
    from run_done_D [OF finished ok1 heap1] obtain y where
      y: "net_ok (established r t1)" "ns_heap t1 r = Some y" "ch_closed (ReadyChan y)"
        "aes_key (Key y)" "Conn y \<noteq> None" "EventStream y \<noteq> None" "set (session_loops r) \<subseteq> set (ns_handling t1)"
        "ns_repo t1 = ns_repo s1"
        "ns_calls t1 = ns_calls s1 @ (case onPeerConnectedHandler (ns_handlers s1) of
           None \<Rightarrow> [] | Some f \<Rightarrow> f (UserID x1))" by blast
    then have "joined r x s (established r t1) \<and> net_ok (established r t1)"
      by (simp add: joined_def x1(2) same split: option.split)
    then show ?thesis using run t1 by (simp add: establish_goroutine_def)
  qed
qed

lemma establish_goroutine_settles:
  assumes "net_ok s" "r \<in> set (ns_establishing s)" "ns_heap s r = Some x" "ns_phase s r = AwaitCreds"
    and "establish_goroutine cr env r s = Some res"
  shows "\<exists>t. res = Ok t \<and> net_ok t \<and> r \<notin> set (ns_establishing t) \<and>
             (joined r x s t \<or> abandoned r s t)"
proof -
  have ready: "\<not> ch_closed (ReadyChan x)" using net_ok_started [OF assms(1,2,4)] assms(3) by auto
  show ?thesis
  proof (cases "ns_closing s \<and> \<not> (chan_recv (CredsChan x) \<noteq> None \<and> ev_pick_creds env)")
    case True
    then have "establish_connection cr env r s =
        Some (Err (app_closing ''networkingServ.establishConnection''), s)"
      using assms(3) by (auto simp: establish_connection_def await_creds_def split: option.splits if_splits)
    from goroutine_failed [OF this assms(1,3) ready refl refl] assms(5) show ?thesis by auto
  next
    case False
    then obtain v c where "chan_recv (CredsChan x) = Some (v, c)" "\<not> ns_closing s \<or> ev_pick_creds env"
      using assms(3,5)
      by (auto simp: establish_goroutine_def establish_connection_def await_creds_def split: option.splits)
    from goroutine_credited [OF assms(1,3) ready this, of cr] assms(5) show ?thesis by auto
  qed
qed

lemma establish_goroutine_ok:
  assumes "net_ok s" "r \<in> set (ns_establishing s)" "ns_heap s r = Some x" "ns_phase s r = AwaitCreds"
    and "establish_goroutine cr env r s = Some (Ok t)"
  shows "net_ok t"
  using establish_goroutine_settles [OF assms] by auto


text \<open>A service whose only session waits for credentials, and one where they have arrived.\<close>

definition waiting_net :: "sample_call net" where
  "waiting_net = sample_net\<lparr>ns_heap := [0 \<mapsto> sample_session\<lparr>Conn := None, EventStream := None\<rparr>],
                            ns_establishing := [0]\<rparr>"

definition credited_net :: "sample_call net" where
  "credited_net = sample_net\<lparr>ns_heap := [0 \<mapsto> sample_session
     \<lparr>Conn := None, EventStream := None, CredsChan := (make_chan 1)\<lparr>ch_buf := [()]\<rparr>\<rparr>],
     ns_establishing := [0]\<rparr>"

lemma sample_net_phase: "ns_phase sample_net r = AwaitCreds"
  by (simp add: sample_net_def new_networking_serv_def)

lemma sample_net_with_ok:
  assumes "session_ok x" "UserID x = 7" "\<not> ch_closed (ReadyChan x)"
  shows "net_ok (sample_net\<lparr>ns_heap := [0 \<mapsto> x], ns_establishing := [0]\<rparr>)"
proof -
  have "ns_next sample_net = 1" by (simp add: sample_net_def)
  moreover have "repo_valid [(7 :: uuid, 0 :: sref)]" by (simp add: repo_valid_def)
  moreover have "repo_lookup [(7, 0)] i = Some r \<Longrightarrow> i = 7 \<and> r = 0" for i r
    by (simp add: repo_lookup_def split: if_splits)
  ultimately show ?thesis using assms by (auto simp: net_ok_def sample_net_phase split: if_splits)
qed

lemma sample_waiting_ok: "session_ok (sample_session\<lparr>Conn := None, EventStream := None\<rparr>)"
  using sample_session_ok by (simp add: session_ok_def)

lemma waiting_net_ok: "net_ok waiting_net"
  unfolding waiting_net_def by (rule sample_net_with_ok [OF sample_waiting_ok]) (simp_all add: sample_session_def)

lemma sample_credited_ok:
  "session_ok (sample_session\<lparr>Conn := None, EventStream := None, CredsChan := (make_chan 1)\<lparr>ch_buf := [()]\<rparr>\<rparr>)"
  using sample_session_ok by (simp add: session_ok_def chan_ok_def)

lemma credited_net_ok: "net_ok credited_net"
  unfolding credited_net_def by (rule sample_net_with_ok [OF sample_credited_ok]) (simp_all add: sample_session_def)

definition sample_est :: "bytes \<Rightarrow> est_env" where
  "sample_est pk =
     \<lparr>ev_pick_creds = True, ev_remote = Inr ([97], [98]), ev_ice = Inr (), ev_listen = Inr (),
      ev_quic = Inr 5, ev_rnd = replicate 32 1, ev_e2ee = e2ee_env_of pk, ev_stream = Inr 6,
      ev_handshake = Inr ()\<rparr>"


text \<open>
  C37: while the peer's credentials are missing and the service is not closing, establishing does
  not end and neither does a wait on \<open>ReadyChan\<close>, whatever the environment answers: the \<open>select\<close>
  ignores the context that carries \<open>EstablishConnTimeout\<close>.
\<close>

theorem establish_waits:
  assumes "net_ok s" "r \<in> set (ns_establishing s)" "ns_heap s r = Some x" "ns_phase s r = AwaitCreds"
    and "ch_buf (CredsChan x) = []" "\<not> ns_closing s"
  shows "establish_turn cr env r s = None \<and> establish_goroutine cr env r s = None \<and> reconnect_ready r s = None"
proof -
  have x: "session_ok x" "\<not> ch_closed (ReadyChan x)"
    using net_okD(3) [OF assms(1,3)] net_ok_started [OF assms(1,2,4)] assms(3) by auto
  then have "chan_recv (CredsChan x) = None" "chan_recv (ReadyChan x) = None"
    using assms(5) by (simp_all add: chan_recv_blocks_iff session_ok_def)
  then show ?thesis
    using assms(3,4,6)
    by (simp add: establish_goroutine_def establish_turn_def establish_connection_def await_creds_def reconnect_ready_def)
qed

theorem establish_waits_witness:
  "establish_turn sample_crypto (sample_est []) 0 waiting_net = None \<and>
   establish_goroutine sample_crypto (sample_est []) 0 waiting_net = None \<and> reconnect_ready 0 waiting_net = None"
  by (rule establish_waits [OF waiting_net_ok, where x = "sample_session\<lparr>Conn := None, EventStream := None\<rparr>"])
    (simp_all add: waiting_net_def sample_net_phase, simp_all add: sample_net_def new_networking_serv_def sample_session_def)

section \<open>Reconnecting\<close>

text \<open>
  C36: when establishing fails after the QUIC connection was made (here in \<open>setupE2EE\<close>), the
  session is abandoned but keeps its closed connection, and the reconnect loop that waits for it
  takes that for success and stops, with the peer in no session of the store.
\<close>

theorem reconnect_accepts_failed:
  assumes "net_ok s" "r \<in> set (ns_establishing s)" "ns_heap s r = Some x" "\<not> ns_closing s"
    and "ns_phase s r = AwaitCreds" "ch_buf (CredsChan x) = [()]" "ev_remote env = Inr v" "ev_ice env = Inr ()"
    and "ev_listen env = Inr ()" "ev_quic env = Inr c"
    and "snd (setup_e2ee cr (ev_rnd env) (ev_e2ee env)) = Err e"
  shows "\<exists>t. establish_goroutine cr env r s = Some (Ok t) \<and> reconnect_ready r t = Some RcDone \<and>
             repo_lookup (ns_repo t) (UserID x) \<noteq> Some r"
proof -
  define x1 where "x1 = x\<lparr>CredsChan := (CredsChan x)\<lparr>ch_buf := []\<rparr>\<rparr>"
  define y where "y = x1\<lparr>Conn := Some c\<rparr>"
  define t1 where "t1 = set_session r y s"
  have ready: "\<not> ch_closed (ReadyChan y)"
    using net_ok_started [OF assms(1,2,5)] assms(3) by (auto simp: y_def x1_def)
  have "chan_recv (CredsChan x) = Some (Some (), (CredsChan x)\<lparr>ch_buf := []\<rparr>)"
    using assms(6) by (simp add: chan_recv_def)
  then have est: "establish_connection cr env r s =
      Some (Err (new_app_error ''networkingServ.establishConnection'' e), t1)"
    using assms(3,4,7-11)
    by (simp add: establish_connection_def await_creds_def establish_run_def dial_peer_def exchange_keys_def
        y_def x1_def t1_def)
  have "session_ok y"
    using net_okD(3) [OF assms(1,3)] by (simp add: session_ok_def y_def x1_def chan_ok_def)
  then have ok: "net_ok t1"
    unfolding t1_def by (intro net_ok_set_session [OF assms(1,3)]) (simp_all add: y_def x1_def)
  have heap: "ns_heap t1 r = Some y" by (simp add: t1_def)
  from est have "establish_goroutine cr env r s = Some (Ok (gave_up r y t1))"
    using goroutine_gives_up [OF heap ready] by (simp add: establish_goroutine_def)
  moreover have "reconnect_ready r (gave_up r y t1) = Some RcDone"
    using gave_up_ok(2) [OF ok heap] net_okD(3) [OF ok heap]
    by (simp add: reconnect_ready_def chan_recv_def session_ok_def y_def)
  ultimately show ?thesis using gave_up_ok(5) [OF ok heap] by auto
qed

theorem reconnect_accepts_failed_witness:
  "\<exists>t. establish_goroutine sample_crypto (sample_est []) 0 credited_net = Some (Ok t) \<and>
       reconnect_ready 0 t = Some RcDone \<and> repo_lookup (ns_repo t) 7 \<noteq> Some 0"
proof -
  let ?x = "sample_session\<lparr>Conn := None, EventStream := None, CredsChan := (make_chan 1)\<lparr>ch_buf := [()]\<rparr>\<rparr>"
  have "ns_heap credited_net 0 = Some ?x" "0 \<in> set (ns_establishing credited_net)" "\<not> ns_closing credited_net"
    "ns_phase credited_net 0 = AwaitCreds"
    by (simp_all add: credited_net_def sample_net_phase) (simp_all add: sample_net_def new_networking_serv_def)
  moreover have "snd (setup_e2ee sample_crypto (ev_rnd (sample_est [])) (ev_e2ee (sample_est []))) =
      Err (LibError ''crypto/ecdh: invalid public key'' [])"
    by (simp add: setup_e2ee_def sample_est_def e2ee_env_of_def new_keys_def io_read_full_def
        new_master_key_def)
  ultimately show ?thesis
    using reconnect_accepts_failed [OF credited_net_ok, of 0 ?x "sample_est []" "([97], [98])" 5 sample_crypto]
    by (simp add: sample_est_def)
qed

text \<open>
  How the peer's new credentials reach an established session: the old session leaves the store
  and keeps its connection, a session created anew takes its place.
\<close>

lemma set_remote_credentials_ok:
  assumes "net_ok s" "ns_heap s r = Some x"
  shows "\<exists>t. set_remote_credentials env u p r s = Ok t \<and> net_ok t \<and> ns_repo t = ns_repo s \<and>
           (\<forall>q. q \<noteq> r \<longrightarrow> ns_heap t q = ns_heap s q) \<and>
           (\<exists>c. ns_heap t r = Some (x\<lparr>CredsChan := c\<rparr>)) \<and> ns_establishing t = ns_establishing s"
proof -
  have x: "session_ok x" by (rule net_okD(3) [OF assms])
  then obtain a where a: "Agent x = Some a" by (auto simp: session_ok_def)
  show ?thesis
  proof (cases "se_set_remote env")
    case (Inl e)
    then have "set_remote_credentials env u p r s = Ok s"
      using assms(2) a by (simp add: set_remote_credentials_def)
    moreover have "ns_heap s r = Some (x\<lparr>CredsChan := CredsChan x\<rparr>)" using assms(2) by simp
    ultimately show ?thesis using assms(1) by blast
  next
    case (Inr v)
    have "\<not> ch_closed (CredsChan x)" using x by (simp add: session_ok_def)
    then obtain c where c: "try_send () (CredsChan x) = Ok c"
      by (cases "try_send () (CredsChan x)") (auto simp: try_send_def split: if_splits)
    have y: "session_ok (x\<lparr>CredsChan := c\<rparr>)"
      using x try_send_OkD [OF c] by (simp add: session_ok_def)
    let ?t = "set_session r (x\<lparr>CredsChan := c\<rparr>) (lib_do [AgentSetRemote a u p] s)"
    have "set_remote_credentials env u p r s = Ok ?t"
      using assms(2) a Inr c by (simp add: set_remote_credentials_def)
    moreover have "net_ok ?t"
      using assms y by (intro net_ok_set_session [where x = x]) simp_all
    ultimately show ?thesis by auto
  qed
qed

text \<open>No context of \<open>createSession\<close> is done and every call it makes succeeds.\<close>

definition create_goes_well :: "create_env \<Rightarrow> bool" where
  "create_goes_well env \<longleftrightarrow>
     \<not> ce_ctx_done env \<and> \<not> ce_ctx_done_add env \<and> \<not> isl (ce_add_in_session env) \<and>
     \<not> isl (ce_creds env) \<and> \<not> isl (ce_agent env) \<and> \<not> isl (ce_local env) \<and>
     \<not> isl (ce_new_sdp env) \<and> \<not> isl (ce_on_state env)"

lemma create_session_succeeds:
  assumes "create_goes_well env" "\<not> ns_closing s" "repo_lookup (ns_repo s) rid = None"
  shows "is_ok (fst (create_session env rid b s))"
proof -
  obtain c where c: "ce_creds env = Inr c" using assms(1) by (cases "ce_creds env") (auto simp: create_goes_well_def)
  obtain l where l: "ce_local env = Inr l" using assms(1) by (cases "ce_local env") (auto simp: create_goes_well_def)
  show ?thesis
    using assms c l
    by (cases c; cases l; cases "ce_add_in_session env"; cases "ce_agent env"; cases "ce_new_sdp env";
        cases "ce_on_state env")
      (auto simp: create_goes_well_def create_session_def entry_select_def alloc_session_def
        repo_add_def repo_lookup_def Let_def)
qed

lemma get_session_found:
  assumes "\<not> ns_closing s" "\<not> ge_ctx_done env" "\<not> ge_ctx_done_get env" "repo_lookup (ns_repo s) i = Some r"
  shows "get_session env i s = (Ok r, s)"
  using assms by (simp add: get_session_def entry_select_def repo_get_def repo_lookup_def)

text \<open>
  C17: when credentials arrive for a session that has a connection already, the peer reconnects:
  the old session is replaced in the store by a new one that does not initiate, and is not lost
  again when the receiving loops of the old connection end and disconnect the old session.
\<close>

theorem reconnect_survives_late_disconnect:
  assumes "net_ok s" "\<not> ns_closing s" "repo_lookup (ns_repo s) i = Some r" "ns_heap s r = Some x"
    and "Conn x \<noteq> None" "space_byte \<notin> set u" "space_byte \<notin> set p"
    and "\<not> ge_ctx_done (se_get env)" "\<not> ge_ctx_done_get (se_get env)"
    and "create_goes_well (se_recreate env)"
  shows "\<exists>t v r'. handle_sdp env i (creds_sdp u p) s = Ok t \<and> disconnect_session r False t = Ok v \<and>
           net_ok v \<and> r' \<noteq> r \<and> r' \<in> set (ns_establishing v) \<and>
           repo_lookup (ns_repo v) = (repo_lookup (ns_repo s))(i \<mapsto> r') \<and>
           (\<exists>y. ns_heap v r' = Some y \<and> UserID y = i \<and> \<not> IsInitiator y)"
proof -
  let ?s2 = "drop_from_repo r x (lib_do (close_calls x) s)"
  have id: "UserID x = i" using net_okD(2) [OF assms(1,3)] assms(4) by auto
  have reset: "reset_session r s = Ok ?s2" using assms(4) by (simp add: reset_session_def)
  have ok2: "net_ok ?s2" using assms(1) by (simp add: net_ok_drop)
  have own: "repo_lookup (ns_repo s) j = Some r \<Longrightarrow> j = i" for j
    using net_okD(2) [OF assms(1), of j r] assms(4) id by auto
  have look2: "repo_lookup (ns_repo ?s2) = (repo_lookup (ns_repo s))(i := None)"
    using net_okD(1) [OF assms(1)] assms(3) id by (auto simp: drop_lookup fun_eq_iff)
  obtain res s3 where ce: "create_and_establish (se_recreate env) i False ?s2 = (res, s3)"
    by (cases "create_and_establish (se_recreate env) i False ?s2")
  have "is_ok (fst (create_session (se_recreate env) i False ?s2))"
    using assms(2,10) look2 by (intro create_session_succeeds) (simp_all add: drop_from_repo_def)
  then obtain r' where r': "res = Ok r'"
    using ce by (cases "create_session (se_recreate env) i False ?s2")
      (auto simp: create_and_establish_def is_ok_iff)
  note c = create_and_establish_ok [OF ok2 ce]
  obtain agent where new: "r' = ns_next s" "ns_heap s3 r' = Some (new_session i agent False)"
      "repo_lookup (ns_repo s3) = (repo_lookup (ns_repo ?s2))(i \<mapsto> r')"
      "r' \<in> set (ns_establishing s3)"
    using c(3) [OF r'] by auto
  have ne: "r' \<noteq> r" using new(1) net_okD(4) [OF assms(1,4)] by simp
  obtain t ch where t: "set_remote_credentials env u p r' s3 = Ok t" "net_ok t" "ns_repo t = ns_repo s3"
      "\<forall>q. q \<noteq> r' \<longrightarrow> ns_heap t q = ns_heap s3 q"
      "ns_heap t r' = Some ((new_session i agent False)\<lparr>CredsChan := ch\<rparr>)"
      "ns_establishing t = ns_establishing s3"
    using set_remote_credentials_ok [OF c(1) new(2), of env u p] by blast
  have "handle_sdp env i (creds_sdp u p) s = Ok t"
    using parse_creds_sdp [OF assms(6,7)] assms(4,5) reset ce r' t(1)
      get_session_found [OF assms(2,8,9,3)]
    by (simp add: handle_sdp_def sdp_dispatch_def) (simp add: creds_sdp_def)
  moreover have old: "ns_heap t r = Some x"
    using t(4) ne c(5) [of r] net_okD(4) [OF assms(1,4)] assms(4) by simp
  note d = disconnect_session_eq [OF t(2) old, of False] disconnected_ok [OF t(2) old, of False]
    disconnected_lookup [OF t(2) old, of False]
  have look: "repo_lookup (ns_repo t) = (repo_lookup (ns_repo s))(i \<mapsto> r')"
    using t(3) new(3) look2 by simp
  have "repo_lookup (ns_repo t) j \<noteq> Some r" for j using look ne own by auto
  then have "repo_lookup (ns_repo (disconnected r False x t)) = repo_lookup (ns_repo t)"
    and rest: "repo_lookup (ns_repo (disconnect_rest r t)) = repo_lookup (ns_repo t)" "net_ok (disconnect_rest r t)"
    using d(3) disconnect_rest_lookup [OF t(2) old] disconnect_rest_ok [OF t(2)] by (simp_all add: fun_eq_iff)
  ultimately show ?thesis
    using d(1,2) t(2,5,6) look ne new(4) disconnected_heap [of r False x t] rest
    by (cases "Closing x") auto
qed

definition sample_sdp :: sdp_env where
  "sample_sdp =
     \<lparr>se_get = \<lparr>ge_ctx_done = False, ge_pick_ctx = False, ge_ctx_done_get = False,
                ge_create = sample_create\<rparr>,
      se_recreate = sample_create, se_set_remote = Inr (), se_unmarshal = Inr [],
      se_add_candidate = Inr ()\<rparr>"

theorem reconnect_survives_late_disconnect_witness:
  "\<exists>t v r'. handle_sdp sample_sdp 7 (creds_sdp [97] [98]) sample_net = Ok t \<and>
     disconnect_session 0 False t = Ok v \<and> r' \<noteq> 0 \<and> repo_lookup (ns_repo v) 7 = Some r'"
proof -
  have "\<not> ns_closing sample_net" "repo_lookup (ns_repo sample_net) 7 = Some 0" "Conn sample_session \<noteq> None"
    by (simp_all add: sample_net_def new_networking_serv_def repo_lookup_def sample_session_def)
  from reconnect_survives_late_disconnect [OF sample_net_ok this(1,2) sample_net_simps(1) this(3),
      of "[97]" "[98]" sample_sdp]
  show ?thesis by (fastforce simp: sample_sdp_def sample_create_def create_goes_well_def space_byte_def)
qed

end
