(* ===== verification/Net_Turns.thy ===== *)
theory Net_Turns
  imports Net_Establish
begin

text \<open>
  The turns of the goroutine that establishes a session: run on its own it goes through them one after
  the other to the state \<open>establish_goroutine\<close> gives; no turn panics, and none but the first can wait.
\<close>

abbreviation turns :: "crypto \<Rightarrow> est_env \<Rightarrow> sref \<Rightarrow> 'c net \<Rightarrow> 'c net \<Rightarrow> bool" where
  "turns cr env r \<equiv> (\<lambda>s t. r \<in> set (ns_establishing s) \<and> establish_turn cr env r s = Some (Ok t))\<^sup>*\<^sup>*"

lemma turns_step: "establish_turn cr env r s = Some (Ok u) \<Longrightarrow> r \<in> set (ns_establishing s) \<Longrightarrow>
    turns cr env r u t \<Longrightarrow> turns cr env r s t"
  by (rule converse_rtranclp_into_rtranclp) simp_all

lemma in_phase_fields [simp]:
  "ns_heap (in_phase r p s) = ns_heap s" "ns_repo (in_phase r p s) = ns_repo s" "ns_next (in_phase r p s) = ns_next s"
  "ns_establishing (in_phase r p s) = ns_establishing s" "ns_phase (in_phase r p s) = (ns_phase s)(r := p)"
  "ns_closing (in_phase r p s) = ns_closing s" "ns_handlers (in_phase r p s) = ns_handlers s"
  "ns_calls (in_phase r p s) = ns_calls s" "ns_handling (in_phase r p s) = ns_handling s"
  "ns_reconnecting (in_phase r p s) = ns_reconnecting s" "ns_spawned (in_phase r p s) = ns_spawned s"
  by (simp_all add: in_phase_def)

lemma in_phase_moves:
  "set_session q y (in_phase r p s) = in_phase r p (set_session q y s)"
  "lib_do qs (in_phase r p s) = in_phase r p (lib_do qs s)"
  "call_connection h i (in_phase r p s) = in_phase r p (call_connection h i s)"
  "handle_connection r (in_phase r p s) = in_phase r p (handle_connection r s)"
  "drop_from_repo q x (in_phase r p s) = in_phase r p (drop_from_repo q x s)"
  by (simp_all add: in_phase_def set_session_def lib_do_def call_connection_def handle_connection_def
      drop_from_repo_def split: option.split)

lemma in_phase_twice [simp]:
  "in_phase r p (in_phase r q s) = in_phase r p s" "established r (in_phase r p s) = established r s"
  by (simp_all add: in_phase_def established_def)

lemma in_phase_same: "ns_phase s r = p \<Longrightarrow> in_phase r p s = s"
  by (auto simp: in_phase_def)

text \<open>The goroutine is at work and has not closed \<open>ReadyChan\<close>.\<close>

definition live :: "sref \<Rightarrow> 'c net \<Rightarrow> bool" where
  "live r s \<longleftrightarrow> r \<in> set (ns_establishing s) \<and> (\<exists>x. ns_heap s r = Some x \<and> \<not> ch_closed (ReadyChan x))"

lemma live_simps [simp]:
  "live r (in_phase r p s) = live r s" "live r (lib_do qs s) = live r s" "live r (call_connection h i s) = live r s"
  "live r (set_session r y s) \<longleftrightarrow> r \<in> set (ns_establishing s) \<and> \<not> ch_closed (ReadyChan y)"
  by (simp_all add: live_def)

lemma liveI: "ns_heap s r = Some x \<Longrightarrow> \<not> ch_closed (ReadyChan x) \<Longrightarrow> r \<in> set (ns_establishing s) \<Longrightarrow> live r s"
  by (simp add: live_def)

lemma liveE:
  assumes "live r s"
  obtains x where "ns_heap s r = Some x" "\<not> ch_closed (ReadyChan x)" "r \<in> set (ns_establishing s)"
  using assms by (auto simp: live_def)

text \<open>A part of the goroutine: it cannot panic, keeps \<open>ReadyChan\<close> open, and does not look at the phase.\<close>

definition part_of :: "sref \<Rightarrow> ('c net \<Rightarrow> unit res \<times> 'c net) \<Rightarrow> bool" where
  "part_of r f \<longleftrightarrow> (\<forall>s. live r s \<longrightarrow> fst (f s) \<noteq> Panic \<and> live r (snd (f s)) \<and>
     (\<forall>p. f (in_phase r p s) = (fst (f s), in_phase r p (snd (f s)))))"

lemma part_ofI:
  assumes "\<And>s x. ns_heap s r = Some x \<Longrightarrow> \<not> ch_closed (ReadyChan x) \<Longrightarrow> r \<in> set (ns_establishing s) \<Longrightarrow>
    fst (f s) \<noteq> Panic \<and> live r (snd (f s)) \<and> (\<forall>p. f (in_phase r p s) = (fst (f s), in_phase r p (snd (f s))))"
  shows "part_of r f"
  using assms unfolding part_of_def by (auto simp: live_def)

lemma part_dial: "part_of r (dial_peer env r)"
proof (rule part_ofI)
  fix s :: "'a net" and x assume x: "ns_heap s r = Some x" "\<not> ch_closed (ReadyChan x)" "r \<in> set (ns_establishing s)"
  then have "live r s" by (rule liveI)
  then show "fst (dial_peer env r s) \<noteq> Panic \<and> live r (snd (dial_peer env r s)) \<and>
      (\<forall>p. dial_peer env r (in_phase r p s) = (fst (dial_peer env r s), in_phase r p (snd (dial_peer env r s))))"
    using x by (cases "ev_remote env"; cases "ev_ice env"; cases "ev_listen env"; cases "ev_quic env"; cases "IsInitiator x")
      (simp_all add: dial_peer_def in_phase_moves)
qed

lemma part_keys: "part_of r (exchange_keys cr env r)"
proof (rule part_ofI)
  fix s :: "'a net" and x assume x: "ns_heap s r = Some x" "\<not> ch_closed (ReadyChan x)" "r \<in> set (ns_establishing s)"
  then have "live r s" by (rule liveI)
  then show "fst (exchange_keys cr env r s) \<noteq> Panic \<and> live r (snd (exchange_keys cr env r s)) \<and>
      (\<forall>p. exchange_keys cr env r (in_phase r p s) = (fst (exchange_keys cr env r s), in_phase r p (snd (exchange_keys cr env r s))))"
    using x by (cases "snd (setup_e2ee cr (ev_rnd env) (ev_e2ee env))") (simp_all add: exchange_keys_def in_phase_moves)
qed

lemma part_stream: "part_of r (open_event_stream env r)"
proof (rule part_ofI)
  fix s :: "'a net" and x assume x: "ns_heap s r = Some x" "\<not> ch_closed (ReadyChan x)" "r \<in> set (ns_establishing s)"
  then have "live r s" by (rule liveI)
  then show "fst (open_event_stream env r s) \<noteq> Panic \<and> live r (snd (open_event_stream env r s)) \<and>
      (\<forall>p. open_event_stream env r (in_phase r p s) =
         (fst (open_event_stream env r s), in_phase r p (snd (open_event_stream env r s))))"
    using x by (cases "ev_stream env"; cases "ev_handshake env"; cases "IsInitiator x"; cases "aes_key (Key x)")
      (simp_all add: open_event_stream_def init_event_stream_def new_aescm_key in_phase_moves)
qed

lemma part_announce: "part_of r (announce_peer r)"
  by (rule part_ofI) (simp add: announce_peer_def in_phase_moves, simp add: live_def)

text \<open>How the goroutine goes on after \<open>establishConnection\<close> returned.\<close>

definition settle :: "sref \<Rightarrow> unit res \<times> 'c net \<Rightarrow> 'c net" where
  "settle r p = (case fst p of Err e \<Rightarrow> gave_up r (the (ns_heap (snd p) r)) (snd p) | _ \<Rightarrow> established r (snd p))"

lemma goroutine_settles:
  assumes "establish_connection cr env r s = Some p" "fst p \<noteq> Panic" "fst p = Ok () \<or> live r (snd p)"
  shows "establish_goroutine cr env r s = Some (Ok (settle r p))"
proof (cases "fst p")
  case (Err e)
  then obtain y where y: "ns_heap (snd p) r = Some y" "\<not> ch_closed (ReadyChan y)" using assms(3) by (auto simp: live_def)
  from goroutine_gives_up [OF this] show ?thesis
    using assms(1) Err y(1) by (cases p) (simp add: establish_goroutine_def settle_def)
qed (use assms(1,2) in \<open>cases p; simp add: establish_goroutine_def settle_def\<close>)+

lemma in_phase_gave_up: "gave_up r y (in_phase r p s) = gave_up r y s"
  by (simp add: gave_up_def Let_def in_phase_moves)

text \<open>After an error: the turn that closes \<open>ReadyChan\<close>, and the one that resets.\<close>

lemma failed_turns:
  assumes "establish_turn cr env r s = Some (end_turn r nx (Err e, t))" "live r t" "r \<in> set (ns_establishing s)"
  shows "turns cr env r s (settle r (Err e, t))"
proof -
  obtain y where y: "ns_heap t r = Some y" "\<not> ch_closed (ReadyChan y)" "r \<in> set (ns_establishing t)"
    using assms(2) by (rule liveE)
  let ?y = "y\<lparr>ReadyChan := (ReadyChan y)\<lparr>ch_closed := True\<rparr>\<rparr>"
  let ?u = "in_phase r Resetting (set_session r ?y t)"
  have "establish_turn cr env r s = Some (Ok ?u)"
    using assms(1) y by (simp add: end_turn_def close_ready_def chan_close_def)
  moreover have "establish_turn cr env r ?u = Some (Ok (gave_up r y t))"
    by (simp add: establish_turn_def reset_session_def gave_up_def Let_def in_phase_moves)
  moreover have "r \<in> set (ns_establishing ?u)" using y(3) by simp
  ultimately have "turns cr env r s (gave_up r y t)"
    by (intro turns_step [OF _ assms(3) turns_step [OF _ _ rtranclp.rtrancl_refl]])
  then show ?thesis using y(1) by (simp add: settle_def)
qed

text \<open>A part, its turn, and the rest.\<close>

lemma turn_then:
  assumes "part_of r f" "live r s" "\<And>t. ns_phase t r = p \<Longrightarrow> establish_turn cr env r t = Some (end_turn r (in_phase r q) (f t))"
    and "\<And>t. f s = (Ok (), t) \<Longrightarrow> live r t \<Longrightarrow> turns cr env r (in_phase r q t) (settle r (k t))"
  shows "turns cr env r (in_phase r p s) (settle r (go_then (f s) k))"
proof -
  obtain res t where f: "f s = (res, t)" by (cases "f s")
  have fp: "f (in_phase r p s) = (res, in_phase r p t)" "res \<noteq> Panic" "live r t"
    using assms(1,2) f unfolding part_of_def by force+
  have turn: "establish_turn cr env r (in_phase r p s) = Some (end_turn r (in_phase r q) (res, in_phase r p t))"
    using assms(3) [of "in_phase r p s"] fp(1) by simp
  show ?thesis
  proof (cases res)
    case (Ok u)
    have "turns cr env r (in_phase r q t) (settle r (k t))" using assms(4) f fp(3) Ok by simp
    moreover have "establish_turn cr env r (in_phase r p s) = Some (Ok (in_phase r q t))"
      using turn Ok by (simp add: end_turn_def)
    moreover have "r \<in> set (ns_establishing (in_phase r p s))" using assms(2) by (simp add: live_def)
    ultimately show ?thesis using f Ok turns_step [of cr env r "in_phase r p s"] by simp
  next
    case (Err e)
    have "turns cr env r (in_phase r p s) (settle r (Err e, in_phase r p t))"
      using turn Err fp(3) assms(2) by (intro failed_turns) (simp_all, simp add: live_def)
    then show ?thesis using f Err by (simp add: settle_def in_phase_gave_up)
  qed (use fp(2) in simp)
qed

lemma finishing_turn:
  assumes "live r s"
  shows "turns cr env r (in_phase r Finishing s) (settle r (start_handling r s))"
proof -
  obtain x where x: "ns_heap s r = Some x" "\<not> ch_closed (ReadyChan x)" "r \<in> set (ns_establishing s)"
    using assms by (rule liveE)
  have "establish_turn cr env r (in_phase r Finishing s) = Some (Ok (settle r (start_handling r s)))"
    using start_handling_eq [OF x(1,2)] start_handling_eq [of "in_phase r Finishing s" r x] x
    by (simp add: establish_turn_def end_turn_def settle_def in_phase_moves)
  then show ?thesis using x(3) by (intro turns_step [OF _ _ rtranclp.rtrancl_refl]) simp_all
qed

lemma run_turns:
  assumes "live r s"
  shows "turns cr env r (in_phase r Dialing s) (settle r (establish_run cr env r s))"
  unfolding establish_run_def
  by (rule turn_then [OF part_dial assms], simp add: establish_turn_def,
      rule turn_then [OF part_keys], assumption, simp add: establish_turn_def,
      rule turn_then [OF part_stream], assumption, simp add: establish_turn_def,
      rule turn_then [OF part_announce], assumption, simp add: establish_turn_def,
      rule finishing_turn)

lemma goroutine_turns:
  assumes "live r s" "ns_phase s r = AwaitCreds" "establish_goroutine cr env r s = Some (Ok t)"
  shows "turns cr env r s t"
proof -
  obtain x where x: "ns_heap s r = Some x" "\<not> ch_closed (ReadyChan x)" "r \<in> set (ns_establishing s)"
    using assms(1) by (rule liveE)
  obtain p where p: "await_creds env r s = Some p" "fst p \<noteq> Panic" "live r (snd p)"
    using assms(1,3) x
    by (auto simp: await_creds_def establish_goroutine_def establish_connection_def split: option.splits if_splits)
  have turn: "establish_turn cr env r s = Some (end_turn r (in_phase r Dialing) p)"
    using assms(2) p(1) by (simp add: establish_turn_def)
  show ?thesis
  proof (cases "fst p")
    case (Err e)
    then have est: "establish_connection cr env r s = Some p" using p(1) by (cases p) (simp add: establish_connection_def)
    have "t = settle r p" using goroutine_settles [OF est] p(2,3) assms(3) by simp
    then show ?thesis using failed_turns [of cr env r s "in_phase r Dialing" e "snd p"] turn Err p(3) x(3) by (cases p) simp
  next
    case (Ok u)
    let ?q = "establish_run cr env r (snd p)"
    have est: "establish_connection cr env r s = Some ?q" using p(1) Ok by (cases p) (simp add: establish_connection_def)
    obtain y where y: "ns_heap (snd p) r = Some y" "\<not> ch_closed (ReadyChan y)" "r \<in> set (ns_establishing (snd p))"
      using p(3) by (rule liveE)
    have "fst ?q \<noteq> Panic" "fst ?q = Ok () \<or> live r (snd ?q)"
      using establish_run_result [OF y(1,2), of cr env] y by (auto simp: run_failed_def)
    from goroutine_settles [OF est this] have "t = settle r ?q" using assms(3) by simp
    moreover have "establish_turn cr env r s = Some (Ok (in_phase r Dialing (snd p)))"
      using turn Ok by (cases p) (simp add: end_turn_def)
    ultimately show ?thesis using turns_step [OF _ x(3) run_turns [OF p(3), of cr env]] by simp
  qed (use p(2) in simp)
qed

text \<open>No turn of an establishing goroutine panics.\<close>

lemma end_turn_returns:
  "fst p \<noteq> Panic \<Longrightarrow> live r (snd p) \<Longrightarrow> \<exists>t. end_turn r nx p = Ok t"
  by (cases p; cases "fst p") (auto simp: end_turn_def live_def close_ready_def chan_close_def)

lemma part_returns: "part_of r f \<Longrightarrow> live r s \<Longrightarrow> \<exists>t. end_turn r nx (f s) = Ok t"
  using end_turn_returns [of "f s" r nx] unfolding part_of_def by blast

lemma await_returns:
  assumes "live r s" "await_creds env r s = Some p"
  shows "\<exists>t. end_turn r nx p = Ok t"
  using assms
  by (intro end_turn_returns) (auto simp: live_def await_creds_def split: option.splits if_splits)

lemma establish_turn_returns:
  assumes "net_ok s" "r \<in> set (ns_establishing s)"
  shows "establish_turn cr env r s = None \<and> ns_phase s r = AwaitCreds \<and> \<not> ns_closing s \<or>
    (\<exists>t. establish_turn cr env r s = Some (Ok t))"
proof -
  obtain x where x: "ns_heap s r = Some x" "ch_closed (ReadyChan x) \<longleftrightarrow> ns_phase s r = Resetting"
    using net_okD(6) [OF assms] by blast
  have live: "live r s" if "ns_phase s r \<noteq> Resetting" using x that assms(2) by (simp add: live_def)
  show ?thesis
  proof (cases "ns_phase s r")
    case AwaitCreds
    show ?thesis
    proof (cases "await_creds env r s")
      case None
      then show ?thesis using AwaitCreds x(1) by (auto simp: establish_turn_def await_creds_def split: option.splits if_splits)
    next
      case (Some p)
      then show ?thesis using await_returns [OF live Some, of "in_phase r Dialing"] AwaitCreds by (simp add: establish_turn_def)
    qed
  next
    case Dialing
    then show ?thesis using part_returns [OF part_dial live, of "in_phase r Exchanging" env]
      by (simp add: establish_turn_def)
  next
    case Exchanging
    then show ?thesis using part_returns [OF part_keys live, of "in_phase r Streaming" cr env]
      by (simp add: establish_turn_def)
  next
    case Streaming
    then show ?thesis using part_returns [OF part_stream live, of "in_phase r Announcing" env]
      by (simp add: establish_turn_def)
  next
    case Announcing
    then show ?thesis using part_returns [OF part_announce live, of "in_phase r Finishing"]
      by (simp add: establish_turn_def)
  next
    case Finishing
    then show ?thesis using start_handling_eq [of s r x] x
      by (simp add: establish_turn_def end_turn_def)
  next
    case Resetting
    then show ?thesis using x by (simp add: establish_turn_def reset_session_def)
  qed
qed

end
