(* ===== verification/Json.thy ===== *)
theory Json
  imports Go_Errors
begin

text \<open>
  What the program uses of \<open>encoding/json\<close>: the scanner, which takes the input byte by byte as
  \<open>json.Decoder\<close> does, however the bytes arrive; numbers and strings; \<open>[]byte\<close> as base64; the fields of
  a struct. The encoder of a struct is defined beside the struct.
\<close>

section \<open>Values and the scanner\<close>

text \<open>A number and a string keep the text of their literal.\<close>

datatype json =
    JNull | JBool bool | JNum bytes | JStr bytes | JArr "json list" | JObj "(bytes \<times> json) list"

definition ascii :: "string \<Rightarrow> bytes" where
  "ascii cs = map (\<lambda>c. of_nat (of_char c)) cs"

definition json_space :: "byte \<Rightarrow> bool" where
  "json_space b \<longleftrightarrow> b = 32 \<or> b = 9 \<or> b = 10 \<or> b = 13"

definition is_digit :: "byte \<Rightarrow> bool" where "is_digit b \<longleftrightarrow> 48 \<le> b \<and> b \<le> 57"

definition is_hex :: "byte \<Rightarrow> bool" where
  "is_hex b \<longleftrightarrow> is_digit b \<or> 65 \<le> b \<and> b \<le> 70 \<or> 97 \<le> b \<and> b \<le> 102"

text \<open>Where in a number's literal the scanner is.\<close>

datatype num_state = NNeg | NZero | NInt | NDot | NFrac | NExp | NExpSign | NExpInt

fun num_step :: "num_state \<Rightarrow> byte \<Rightarrow> num_state option" where
  "num_step NNeg c = (if c = 48 then Some NZero else if is_digit c then Some NInt else None)"
| "num_step NZero c = (if c = 46 then Some NDot else if c = 101 \<or> c = 69 then Some NExp else None)"
| "num_step NInt c = (if is_digit c then Some NInt else if c = 46 then Some NDot
     else if c = 101 \<or> c = 69 then Some NExp else None)"
| "num_step NDot c = (if is_digit c then Some NFrac else None)"
| "num_step NFrac c = (if is_digit c then Some NFrac else if c = 101 \<or> c = 69 then Some NExp else None)"
| "num_step NExp c = (if c = 43 \<or> c = 45 then Some NExpSign else if is_digit c then Some NExpInt else None)"
| "num_step NExpSign c = (if is_digit c then Some NExpInt else None)"
| "num_step NExpInt c = (if is_digit c then Some NExpInt else None)"

definition num_final :: "num_state \<Rightarrow> bool" where
  "num_final n \<longleftrightarrow> n \<in> {NZero, NInt, NFrac, NExpInt}"

text \<open>
  The state of the scanner: what it expects, the open arrays and objects (their elements in reverse,
  an object with its current key), and the values that are complete.
\<close>

datatype json_mode =
    JWant | JWantOrEnd | JKeyOrEnd | JKey | JColon | JNext
  | JInStr bool bytes | JInEsc bool bytes | JInHex bool bytes nat
  | JInNum num_state bytes | JInLit bytes json | JBad

datatype json_frame = ArrF "json list" | ObjF "(bytes \<times> json) list" bytes

type_synonym json_state = "json_mode \<times> json_frame list \<times> json list"

definition json_start :: json_state where "json_start = (JWant, [], [])"

fun json_complete :: "json \<Rightarrow> json_frame list \<Rightarrow> json list \<Rightarrow> json_state" where
  "json_complete v [] vs = (JWant, [], vs @ [v])"
| "json_complete v (ArrF es # st) vs = (JNext, ArrF (v # es) # st, vs)"
| "json_complete v (ObjF kvs k # st) vs = (JNext, ObjF ((k, v) # kvs) k # st, vs)"

text \<open>\<open>encoding/json\<close> refuses values nested deeper than this.\<close>

definition max_depth :: nat where "max_depth = 10000"

definition json_begin :: "byte \<Rightarrow> json_frame list \<Rightarrow> json list \<Rightarrow> json_state" where
  "json_begin c st vs =
     (if c = 123 \<and> length st < max_depth then (JKeyOrEnd, ObjF [] [] # st, vs)
      else if c = 91 \<and> length st < max_depth then (JWantOrEnd, ArrF [] # st, vs)
      else if c = 34 then (JInStr False [], st, vs)
      else if c = 45 then (JInNum NNeg [c], st, vs)
      else if c = 48 then (JInNum NZero [c], st, vs)
      else if is_digit c then (JInNum NInt [c], st, vs)
      else if c = 116 then (JInLit (ascii ''rue'') (JBool True), st, vs)
      else if c = 102 then (JInLit (ascii ''alse'') (JBool False), st, vs)
      else if c = 110 then (JInLit (ascii ''ull'') JNull, st, vs)
      else (JBad, st, vs))"

definition json_string_end :: "bool \<Rightarrow> bytes \<Rightarrow> json_frame list \<Rightarrow> json list \<Rightarrow> json_state" where
  "json_string_end is_key s st vs =
     (if is_key then (case st of ObjF kvs k # st' \<Rightarrow> (JColon, ObjF kvs s # st', vs) | _ \<Rightarrow> (JBad, st, vs))
      else json_complete (JStr s) st vs)"

text \<open>A byte after an element of an array or object.\<close>

fun json_next :: "byte \<Rightarrow> json_frame list \<Rightarrow> json list \<Rightarrow> json_state" where
  "json_next c (ArrF es # st) vs =
     (if c = 44 then (JWant, ArrF es # st, vs)
      else if c = 93 then json_complete (JArr (rev es)) st vs else (JBad, st, vs))"
| "json_next c (ObjF kvs k # st) vs =
     (if c = 44 then (JKey, ObjF kvs k # st, vs)
      else if c = 125 then json_complete (JObj (rev kvs)) st vs else (JBad, st, vs))"
| "json_next c [] vs = (JBad, [], vs)"

fun json_byte :: "json_state \<Rightarrow> byte \<Rightarrow> json_state" where
  "json_byte (JWant, st, vs) c = (if json_space c then (JWant, st, vs) else json_begin c st vs)"
| "json_byte (JWantOrEnd, st, vs) c =
     (if json_space c then (JWantOrEnd, st, vs) else if c = 93 then json_next c st vs else json_begin c st vs)"
| "json_byte (JKeyOrEnd, st, vs) c =
     (if json_space c then (JKeyOrEnd, st, vs) else if c = 125 then json_next c st vs
      else if c = 34 then (JInStr True [], st, vs) else (JBad, st, vs))"
| "json_byte (JKey, st, vs) c =
     (if json_space c then (JKey, st, vs) else if c = 34 then (JInStr True [], st, vs) else (JBad, st, vs))"
| "json_byte (JColon, st, vs) c =
     (if json_space c then (JColon, st, vs) else if c = 58 then (JWant, st, vs) else (JBad, st, vs))"
| "json_byte (JNext, st, vs) c = (if json_space c then (JNext, st, vs) else json_next c st vs)"
| "json_byte (JInStr k acc, st, vs) c =
     (if c = 34 then json_string_end k (rev acc) st vs
      else if c = 92 then (JInEsc k (c # acc), st, vs)
      else if c < 32 then (JBad, st, vs) else (JInStr k (c # acc), st, vs))"
| "json_byte (JInEsc k acc, st, vs) c =
     (if c \<in> {34, 47, 92, 98, 102, 110, 114, 116} then (JInStr k (c # acc), st, vs)
      else if c = 117 then (JInHex k (c # acc) 4, st, vs) else (JBad, st, vs))"
| "json_byte (JInHex k acc n, st, vs) c =
     (if is_hex c then (if n \<le> 1 then (JInStr k (c # acc), st, vs) else (JInHex k (c # acc) (n - 1), st, vs))
      else (JBad, st, vs))"
| "json_byte (JInLit rest v, st, vs) c =
     (case rest of [] \<Rightarrow> (JBad, st, vs)
      | b # bs \<Rightarrow> if c \<noteq> b then (JBad, st, vs) else if bs = [] then json_complete v st vs else (JInLit bs v, st, vs))"
| "json_byte (JInNum n acc, st, vs) c = (JBad, st, vs)"
| "json_byte (JBad, st, vs) c = (JBad, st, vs)"

text \<open>A number ends at the first byte that is not part of it; that byte is then looked at again.\<close>

definition json_step :: "json_state \<Rightarrow> byte \<Rightarrow> json_state" where
  "json_step s c =
     (case s of
        (JInNum n acc, st, vs) \<Rightarrow>
          (case num_step n c of
             Some n' \<Rightarrow> (JInNum n' (c # acc), st, vs)
           | None \<Rightarrow> if num_final n then json_byte (json_complete (JNum (rev acc)) st vs) c else (JBad, st, vs))
      | _ \<Rightarrow> json_byte s c)"

definition json_feed :: "json_state \<Rightarrow> bytes \<Rightarrow> json_state" where
  "json_feed = foldl json_step"

lemma json_feed_simps [simp]:
  "json_feed s [] = s" "json_feed s (c # cs) = json_feed (json_step s c) cs"
  "json_feed s (as @ bs) = json_feed (json_feed s as) bs"
  by (simp_all add: json_feed_def)

text \<open>\<open>json.Unmarshal\<close>: the whole input is one value, with white space around it.\<close>

definition json_parse :: "bytes \<Rightarrow> json option" where
  "json_parse bs =
     (case json_feed json_start bs of
        (JWant, [], [v]) \<Rightarrow> Some v
      | (JInNum n acc, [], []) \<Rightarrow> if num_final n then Some (JNum (rev acc)) else None
      | _ \<Rightarrow> None)"

section \<open>Strings\<close>

definition hex_val :: "byte \<Rightarrow> nat" where
  "hex_val b = (if is_digit b then unat b - 48 else if 97 \<le> b then unat b - 87 else unat b - 55)"

definition utf8_encode :: "nat \<Rightarrow> bytes" where
  "utf8_encode r =
     (if r < 128 then [of_nat r]
      else if r < 2048 then [of_nat (192 + r div 64), of_nat (128 + r mod 64)]
      else if r < 65536 then [of_nat (224 + r div 4096), of_nat (128 + r div 64 mod 64), of_nat (128 + r mod 64)]
      else [of_nat (240 + r div 262144), of_nat (128 + r div 4096 mod 64), of_nat (128 + r div 64 mod 64),
            of_nat (128 + r mod 64)])"

definition replacement :: bytes where "replacement = utf8_encode 65533"

definition is_cont :: "byte \<Rightarrow> bool" where "is_cont b \<longleftrightarrow> 128 \<le> b \<and> b \<le> 191"

text \<open>The length of the well-formed UTF-8 sequence the bytes begin with; 0 when there is none.\<close>

fun utf8_len :: "bytes \<Rightarrow> nat" where
  "utf8_len (a # bs) =
     (if a < 128 then 1
      else if 194 \<le> a \<and> a \<le> 223 then (case bs of b # _ \<Rightarrow> if is_cont b then 2 else 0 | _ \<Rightarrow> 0)
      else if 224 \<le> a \<and> a \<le> 239
      then (case bs of b # c # _ \<Rightarrow>
              if is_cont b \<and> is_cont c \<and> (a = 224 \<longrightarrow> 160 \<le> b) \<and> (a = 237 \<longrightarrow> b \<le> 159) then 3 else 0 | _ \<Rightarrow> 0)
      else if 240 \<le> a \<and> a \<le> 244
      then (case bs of b # c # d # _ \<Rightarrow>
              if is_cont b \<and> is_cont c \<and> is_cont d \<and> (a = 240 \<longrightarrow> 144 \<le> b) \<and> (a = 244 \<longrightarrow> b \<le> 143) then 4 else 0
            | _ \<Rightarrow> 0)
      else 0)"
| "utf8_len [] = 0"

definition hex4 :: "byte \<Rightarrow> byte \<Rightarrow> byte \<Rightarrow> byte \<Rightarrow> nat" where
  "hex4 a b c d = ((hex_val a * 16 + hex_val b) * 16 + hex_val c) * 16 + hex_val d"

definition escape_byte :: "byte \<Rightarrow> byte" where
  "escape_byte c = (if c = 98 then 8 else if c = 102 then 12 else if c = 110 then 10
     else if c = 114 then 13 else if c = 116 then 9 else c)"

text \<open>The low half of a surrogate pair that follows a high one.\<close>

definition low_surrogate :: "bytes \<Rightarrow> nat option" where
  "low_surrogate bs =
     (case bs of b # u # w # x # y # z # _ \<Rightarrow>
        if b = 92 \<and> u = 117 \<and> 56320 \<le> hex4 w x y z \<and> hex4 w x y z \<le> 57343 then Some (hex4 w x y z) else None
      | _ \<Rightarrow> None)"

text \<open>The string a literal stands for: escapes are resolved, malformed UTF-8 and lone surrogates replaced.\<close>

function unquote :: "bytes \<Rightarrow> bytes" where
  "unquote bs =
     (case bs of
        [] \<Rightarrow> []
      | c # cs \<Rightarrow>
          if c = 92
          then (case cs of
                  [] \<Rightarrow> []
                | e # es \<Rightarrow>
                    if e \<noteq> 117 then escape_byte e # unquote es
                    else (case es of
                            w # x # y # z # rest \<Rightarrow>
                              let r = hex4 w x y z in
                              if r < 55296 \<or> 57343 < r then utf8_encode r @ unquote rest
                              else if r \<le> 56319
                              then (case low_surrogate rest of
                                      Some r2 \<Rightarrow> utf8_encode (65536 + (r - 55296) * 1024 + (r2 - 56320)) @ unquote (drop 6 rest)
                                    | None \<Rightarrow> replacement @ unquote rest)
                              else replacement @ unquote rest
                          | _ \<Rightarrow> []))
          else if utf8_len bs = 0 then replacement @ unquote cs
          else take (utf8_len bs) bs @ unquote (drop (utf8_len bs) bs))"
  by pat_completeness auto
termination
  by (relation "measure length") auto

declare unquote.simps [simp del]

definition plain_byte :: "byte \<Rightarrow> bool" where
  "plain_byte b \<longleftrightarrow> 32 \<le> b \<and> b < 128 \<and> b \<noteq> 34 \<and> b \<noteq> 92"

lemma unquote_plain: "list_all plain_byte bs \<Longrightarrow> unquote bs = bs"
  by (induction bs) (simp_all add: unquote.simps plain_byte_def)

lemma feed_plain:
  "list_all plain_byte bs \<Longrightarrow> json_feed (JInStr k acc, st, vs) bs = (JInStr k (rev bs @ acc), st, vs)"
  by (induction bs arbitrary: acc) (auto simp: json_step_def plain_byte_def not_less)

end
