(* ===== verification/Json_Codec.thy ===== *)
theory Json_Codec
  imports Json
begin

text \<open>
  The codecs of \<open>encoding/json\<close> for the field types of the program's structs: unsigned and signed
  integers, Booleans, byte slices as base64; and the decoder of a struct from its fields.
\<close>

section \<open>Integers\<close>

fun show_nat :: "nat \<Rightarrow> bytes" where
  "show_nat n = (if n < 10 then [48 + of_nat n] else show_nat (n div 10) @ [48 + of_nat (n mod 10)])"

declare show_nat.simps [simp del]

definition show_int :: "int \<Rightarrow> bytes" where
  "show_int i = (if i < 0 then 45 # show_nat (nat (- i)) else show_nat (nat i))"

definition digits_val :: "bytes \<Rightarrow> nat" where
  "digits_val ds = foldl (\<lambda>a d. a * 10 + (unat d - 48)) 0 ds"

text \<open>\<open>strconv.ParseUint\<close> and \<open>strconv.ParseInt\<close>, base 10.\<close>

definition parse_uint :: "nat \<Rightarrow> bytes \<Rightarrow> nat option" where
  "parse_uint bits ds =
     (if ds \<noteq> [] \<and> list_all is_digit ds \<and> digits_val ds < 2 ^ bits then Some (digits_val ds) else None)"

definition parse_int :: "nat \<Rightarrow> bytes \<Rightarrow> int option" where
  "parse_int bits s =
     (let (neg, ds) = (case s of c # cs \<Rightarrow> if c = 45 then (True, cs) else (False, s) | [] \<Rightarrow> (False, s));
          v = (if neg then - int (digits_val ds) else int (digits_val ds)) in
      if ds \<noteq> [] \<and> list_all is_digit ds \<and> - (2 ^ (bits - 1)) \<le> v \<and> v < 2 ^ (bits - 1) then Some v else None)"

lemma digit_byte:
  assumes "d < 10"
  shows "is_digit (48 + of_nat d)" "unat (48 + of_nat d :: byte) = 48 + d"
proof -
  have u: "unat (of_nat d :: byte) = d" using assms by (simp add: unat_of_nat)
  then show *: "unat (48 + of_nat d :: byte) = 48 + d" using assms by (simp add: unat_word_ariths)
  show "is_digit (48 + of_nat d)" using assms * by (simp add: is_digit_def word_le_nat_alt)
qed

lemma show_nat_digits: "list_all is_digit (show_nat n)" "show_nat n \<noteq> []"
proof (induction n rule: show_nat.induct)
  case (1 n)
  show "list_all is_digit (show_nat n)" using 1 digit_byte(1) by (subst show_nat.simps) auto
  show "show_nat n \<noteq> []" by (subst show_nat.simps) auto
qed

lemma digits_val_show [simp]: "digits_val (show_nat n) = n"
proof (induction n rule: show_nat.induct)
  case (1 n)
  show ?case
    using 1 digit_byte(2) [of n] digit_byte(2) [of "n mod 10"] by (subst show_nat.simps) (auto simp: digits_val_def)
qed

lemma parse_uint_show: "n < 2 ^ bits \<Longrightarrow> parse_uint bits (show_nat n) = Some n"
  by (simp add: parse_uint_def show_nat_digits)

lemma digit_not_minus: "is_digit d \<Longrightarrow> d \<noteq> 45"
  by (auto simp: is_digit_def)

lemma parse_int_show:
  assumes "- (2 ^ (bits - 1)) \<le> i" "i < 2 ^ (bits - 1)"
  shows "parse_int bits (show_int i) = Some i"
proof (cases "i < 0")
  case True
  then show ?thesis using assms by (simp add: parse_int_def show_int_def show_nat_digits)
next
  case False
  obtain d ds where d: "show_nat (nat i) = d # ds" using show_nat_digits(2) [of "nat i"] by (cases "show_nat (nat i)") auto
  then have "d \<noteq> 45" using show_nat_digits(1) [of "nat i"] digit_not_minus by auto
  then show ?thesis
    using False assms d show_nat_digits(1) [of "nat i"] digits_val_show [of "nat i"]
    by (simp add: parse_int_def show_int_def)
qed

text \<open>The scanner on an integer, up to the byte that ends it.\<close>

definition ends_number :: "byte \<Rightarrow> bool" where
  "ends_number c \<longleftrightarrow> \<not> is_digit c \<and> c \<noteq> 46 \<and> c \<noteq> 101 \<and> c \<noteq> 69"

lemma show_nat_shape:
  "(n = 0 \<and> show_nat n = [48]) \<or> (\<exists>d ds. show_nat n = d # ds \<and> is_digit d \<and> d \<noteq> 48 \<and> list_all is_digit ds)"
proof (induction n rule: show_nat.induct)
  case (1 n)
  show ?case
  proof (cases "n < 10")
    case True
    have "(48 + of_nat n :: byte) \<noteq> 48" if "n \<noteq> 0"
    proof
      assume "(48 + of_nat n :: byte) = 48"
      then show False using digit_byte(2) [OF True] that by simp
    qed
    moreover have "show_nat n = [48 + of_nat n]" using True by (simp add: show_nat.simps)
    ultimately show ?thesis using digit_byte(1) [OF True] by (cases "n = 0") auto
  next
    case False
    then obtain d ds where "show_nat (n div 10) = d # ds" "is_digit d" "d \<noteq> 48" "list_all is_digit ds"
      using 1 by auto
    moreover have "show_nat n = show_nat (n div 10) @ [48 + of_nat (n mod 10)]"
      using False by (subst show_nat.simps) simp
    ultimately show ?thesis using digit_byte(1) [of "n mod 10"] by simp
  qed
qed

lemma feed_digits:
  "list_all is_digit ds \<Longrightarrow> json_feed (JInNum NInt acc, st, vs) ds = (JInNum NInt (rev ds @ acc), st, vs)"
  by (induction ds arbitrary: acc) (auto simp: json_step_def)

lemma digit_begin: "is_digit d \<Longrightarrow> \<not> json_space d \<and> d \<noteq> 123 \<and> d \<noteq> 91 \<and> d \<noteq> 34 \<and> d \<noteq> 45"
  by (auto simp: is_digit_def json_space_def)

lemma number_ends:
  "ends_number c \<Longrightarrow> n \<in> {NInt, NZero} \<Longrightarrow>
   json_step (JInNum n acc, st, vs) c = json_byte (json_complete (JNum (rev acc)) st vs) c"
  by (auto simp: json_step_def ends_number_def num_final_def)

lemma feed_show_nat:
  assumes "ends_number c"
  shows "json_step (json_feed (JWant, st, vs) (show_nat n)) c = json_byte (json_complete (JNum (show_nat n)) st vs) c"
  using show_nat_shape [of n]
proof (elim disjE conjE exE)
  assume "show_nat n = [48]"
  then show ?thesis
    using number_ends [OF assms, of NZero "[48]"] by (simp add: json_step_def [of "(JWant, _)"] json_begin_def json_space_def)
next
  fix d ds assume d: "show_nat n = d # ds" "is_digit d" "d \<noteq> 48" "list_all is_digit ds"
  then have "json_feed (JWant, st, vs) (show_nat n) = (JInNum NInt (rev (show_nat n)), st, vs)"
    using digit_begin [OF d(2)] feed_digits [OF d(4), of "[d]"] by (simp add: json_step_def json_begin_def)
  then show ?thesis using number_ends [OF assms, of NInt "rev (show_nat n)"] by simp
qed

lemma feed_show_int:
  assumes "ends_number c"
  shows "json_step (json_feed (JWant, st, vs) (show_int i)) c = json_byte (json_complete (JNum (show_int i)) st vs) c"
proof (cases "i < 0")
  case False
  then show ?thesis using feed_show_nat [OF assms] by (simp add: show_int_def)
next
  case True
  let ?n = "nat (- i)"
  have first: "json_step (JWant, st, vs) 45 = (JInNum NNeg [45], st, vs)"
    by (simp add: json_step_def json_begin_def json_space_def)
  from show_nat_shape [of ?n] obtain d ds where
    d: "show_nat ?n = d # ds" "is_digit d" "d \<noteq> 48" "list_all is_digit ds" using True by auto
  then have "json_feed (JWant, st, vs) (45 # show_nat ?n) = (JInNum NInt (rev (45 # show_nat ?n)), st, vs)"
    using feed_digits [OF d(4), of "[d, 45]"] first by (simp add: json_step_def)
  then show ?thesis
    using number_ends [OF assms, of NInt "rev (45 # show_nat ?n)"] True by (simp add: show_int_def)
qed

section \<open>Base64\<close>

definition b64_char :: "nat \<Rightarrow> byte" where
  "b64_char n = (if n < 26 then of_nat (65 + n) else if n < 52 then of_nat (71 + n)
     else if n < 62 then of_nat (n - 4) else if n = 62 then 43 else 47)"

definition b64_val :: "byte \<Rightarrow> nat option" where
  "b64_val b = (let n = unat b in
     if 65 \<le> n \<and> n \<le> 90 then Some (n - 65) else if 97 \<le> n \<and> n \<le> 122 then Some (n - 71)
     else if 48 \<le> n \<and> n \<le> 57 then Some (n + 4) else if n = 43 then Some 62 else if n = 47 then Some 63
     else None)"

fun b64_encode :: "bytes \<Rightarrow> bytes" where
  "b64_encode [] = []"
| "b64_encode [a] = [b64_char (unat a div 4), b64_char (unat a mod 4 * 16), 61, 61]"
| "b64_encode [a, b] =
     [b64_char (unat a div 4), b64_char (unat a mod 4 * 16 + unat b div 16), b64_char (unat b mod 16 * 4), 61]"
| "b64_encode (a # b # c # bs) =
     [b64_char (unat a div 4), b64_char (unat a mod 4 * 16 + unat b div 16),
      b64_char (unat b mod 16 * 4 + unat c div 64), b64_char (unat c mod 64)] @ b64_encode bs"

text \<open>The decoder passes over line breaks; padding ends the input; spare bits are not looked at.\<close>

fun b64_groups :: "bytes \<Rightarrow> bytes option" where
  "b64_groups [] = Some []"
| "b64_groups (w # x # y # z # rest) =
     (case b64_val w of None \<Rightarrow> None | Some a \<Rightarrow>
      case b64_val x of None \<Rightarrow> None | Some b \<Rightarrow>
      if y = 61 then (if z = 61 \<and> rest = [] then Some [of_nat (a * 4 + b div 16)] else None)
      else case b64_val y of None \<Rightarrow> None | Some c \<Rightarrow>
      if z = 61 then (if rest = [] then Some [of_nat (a * 4 + b div 16), of_nat (b mod 16 * 16 + c div 4)] else None)
      else case b64_val z of None \<Rightarrow> None | Some d \<Rightarrow>
        map_option (append [of_nat (a * 4 + b div 16), of_nat (b mod 16 * 16 + c div 4), of_nat (c mod 4 * 64 + d)])
          (b64_groups rest))"
| "b64_groups _ = None"

definition b64_decode :: "bytes \<Rightarrow> bytes option" where
  "b64_decode bs = b64_groups (filter (\<lambda>b. b \<noteq> 10 \<and> b \<noteq> 13) bs)"

lemma b64_char_byte:
  assumes "n < 64"
  shows "b64_val (b64_char n) = Some n \<and> plain_byte (b64_char n) \<and> b64_char n \<noteq> 61"
proof -
  have "\<forall>n \<in> set [0..<64]. b64_val (b64_char n) = Some n \<and> plain_byte (b64_char n) \<and> b64_char n \<noteq> 61"
    by code_simp
  then show ?thesis using assms by simp
qed

lemma byte_bound: "unat (a :: byte) < 256"
  using unsigned_less [where w = a] by simp

lemma b64_roundtrip: "b64_groups (b64_encode bs) = Some bs"
proof (induction bs rule: b64_encode.induct)
  case (2 a)
  then show ?case using byte_bound [of a] b64_char_byte [of "unat a div 4"] b64_char_byte [of "unat a mod 4 * 16"]
    by simp
next
  case (3 a b)
  show ?case
    using byte_bound [of a] byte_bound [of b] b64_char_byte [of "unat a div 4"]
      b64_char_byte [of "unat a mod 4 * 16 + unat b div 16"] b64_char_byte [of "unat b mod 16 * 4"]
    by simp
next
  case (4 a b c bs)
  then show ?case
    using byte_bound [of a] byte_bound [of b] byte_bound [of c] b64_char_byte [of "unat a div 4"]
      b64_char_byte [of "unat a mod 4 * 16 + unat b div 16"]
      b64_char_byte [of "unat b mod 16 * 4 + unat c div 64"] b64_char_byte [of "unat c mod 64"]
    by simp
qed simp

lemma b64_plain: "list_all (\<lambda>b. plain_byte b \<and> b \<noteq> 10 \<and> b \<noteq> 13) (b64_encode bs)"
proof -
  have ne: "plain_byte b \<Longrightarrow> b \<noteq> 10 \<and> b \<noteq> 13" for b by (auto simp: plain_byte_def)
  have pad: "plain_byte 61" by (simp add: plain_byte_def)
  have c: "plain_byte (b64_char n)" if "n < 64" for n using b64_char_byte [OF that] by simp
  have sextets: "unat (a :: byte) div 4 < 64" "unat a mod 4 * 16 + unat (b :: byte) div 16 < 64"
    "unat b mod 16 * 4 + unat (d :: byte) div 64 < 64" "unat a mod 4 * 16 < 64" "unat b mod 16 * 4 < 64" for a b d
    using byte_bound [of a] byte_bound [of b] byte_bound [of d] by simp_all
  have "list_all plain_byte (b64_encode bs)"
    by (induction bs rule: b64_encode.induct) (simp_all add: c pad sextets)
  then show ?thesis by (auto simp: list_all_iff ne)
qed

lemma b64_decode_encode [simp]: "b64_decode (b64_encode bs) = Some bs"
proof -
  have "filter (\<lambda>b. b \<noteq> 10 \<and> b \<noteq> 13) (b64_encode bs) = b64_encode bs"
    using b64_plain [of bs] by (auto simp: filter_id_conv list_all_iff)
  then show ?thesis by (simp add: b64_decode_def b64_roundtrip)
qed

section \<open>Structs\<close>

text \<open>
  A key names the field it equals, or else the one it equals when case is ignored; the letters \<open>K\<close> and \<open>S\<close>
  have one more form each outside of ASCII.
\<close>

fun fold_name :: "bytes \<Rightarrow> bytes" where
  "fold_name (a # b # c # bs) =
     (if a = 226 \<and> b = 132 \<and> c = 170 then 75 # fold_name bs
      else if a = 197 \<and> b = 191 then 83 # fold_name (c # bs)
      else (if 97 \<le> a \<and> a \<le> 122 then a - 32 else a) # fold_name (b # c # bs))"
| "fold_name [a, b] =
     (if a = 197 \<and> b = 191 then [83] else (if 97 \<le> a \<and> a \<le> 122 then a - 32 else a) # fold_name [b])"
| "fold_name [a] = [if 97 \<le> a \<and> a \<le> 122 then a - 32 else a]"
| "fold_name [] = []"

text \<open>A field: its name and how a value is stored, with whether the value's type is wrong.\<close>

type_synonym 's json_field = "bytes \<times> (json \<Rightarrow> 's \<Rightarrow> 's \<times> bool)"

definition find_field :: "'s json_field list \<Rightarrow> bytes \<Rightarrow> 's json_field option" where
  "find_field fs key =
     (case find (\<lambda>f. fst f = key) fs of
        Some f \<Rightarrow> Some f
      | None \<Rightarrow> find (\<lambda>f. fold_name (fst f) = fold_name key) fs)"

fun decode_fields :: "'s json_field list \<Rightarrow> (bytes \<times> json) list \<Rightarrow> 's \<times> bool \<Rightarrow> 's \<times> bool" where
  "decode_fields fs [] r = r"
| "decode_fields fs ((k, v) # kvs) (s, bad) =
     (case find_field fs (unquote k) of
        None \<Rightarrow> decode_fields fs kvs (s, bad)
      | Some f \<Rightarrow> let (s', b) = snd f v s in decode_fields fs kvs (s', bad \<or> b))"

definition json_error :: go_error where "json_error = LibError ''json'' []"

text \<open>A field of a wrong type does not end the decoding; it is the error that is returned in the end.\<close>

definition decode_struct :: "'s json_field list \<Rightarrow> 's \<Rightarrow> json \<Rightarrow> 's call" where
  "decode_struct fs zero v =
     (case v of
        JObj kvs \<Rightarrow> (let (s, bad) = decode_fields fs kvs (zero, False) in if bad then Inl json_error else Inr s)
      | JNull \<Rightarrow> Inr zero
      | _ \<Rightarrow> Inl json_error)"

definition bool_field :: "(bool \<Rightarrow> 's \<Rightarrow> 's) \<Rightarrow> json \<Rightarrow> 's \<Rightarrow> 's \<times> bool" where
  "bool_field upd v s = (case v of JBool b \<Rightarrow> (upd b s, False) | JNull \<Rightarrow> (s, False) | _ \<Rightarrow> (s, True))"

definition uint_field :: "(nat \<Rightarrow> 's \<Rightarrow> 's) \<Rightarrow> json \<Rightarrow> 's \<Rightarrow> 's \<times> bool" where
  "uint_field upd v s =
     (case v of
        JNum t \<Rightarrow> (case parse_uint 64 t of Some n \<Rightarrow> (upd n s, False) | None \<Rightarrow> (s, True))
      | JNull \<Rightarrow> (s, False) | _ \<Rightarrow> (s, True))"

definition int_field :: "(int \<Rightarrow> 's \<Rightarrow> 's) \<Rightarrow> json \<Rightarrow> 's \<Rightarrow> 's \<times> bool" where
  "int_field upd v s =
     (case v of
        JNum t \<Rightarrow> (case parse_int 64 t of Some n \<Rightarrow> (upd n s, False) | None \<Rightarrow> (s, True))
      | JNull \<Rightarrow> (s, False) | _ \<Rightarrow> (s, True))"

text \<open>A \<open>[]byte\<close> is a base64 string; an array of numbers is accepted as well.\<close>

definition byte_element :: "json \<Rightarrow> byte \<times> bool" where
  "byte_element v =
     (case v of
        JNum t \<Rightarrow> (case parse_uint 8 t of Some n \<Rightarrow> (of_nat n, False) | None \<Rightarrow> (0, True))
      | JNull \<Rightarrow> (0, False) | _ \<Rightarrow> (0, True))"

definition bytes_field :: "(bytes \<Rightarrow> 's \<Rightarrow> 's) \<Rightarrow> json \<Rightarrow> 's \<Rightarrow> 's \<times> bool" where
  "bytes_field upd v s =
     (case v of
        JStr t \<Rightarrow> (case b64_decode (unquote t) of Some bs \<Rightarrow> (upd bs s, False) | None \<Rightarrow> (s, True))
      | JNull \<Rightarrow> (upd [] s, False)
      | JArr vs \<Rightarrow> (upd (map (fst \<circ> byte_element) vs) s, list_ex (snd \<circ> byte_element) vs)
      | _ \<Rightarrow> (s, True))"

text \<open>How the encoder writes a \<open>[]byte\<close>; \<open>[]\<close> stands for the nil slice.\<close>

definition json_of_bytes :: "bytes \<Rightarrow> bytes" where
  "json_of_bytes bs = (if bs = [] then ascii ''null'' else 34 # b64_encode bs @ [34])"

definition json_of_bool :: "bool \<Rightarrow> bytes" where
  "json_of_bool b = (if b then ascii ''true'' else ascii ''false'')"

text \<open>The scanner on what the encoder writes, for the next byte whatever it is.\<close>

definition json_bytes :: "bytes \<Rightarrow> json" where
  "json_bytes bs = (if bs = [] then JNull else JStr (b64_encode bs))"

lemma feed_bytes: "json_feed (JWant, st, vs) (json_of_bytes bs) = json_complete (json_bytes bs) st vs"
proof (cases "bs = []")
  case True
  then show ?thesis
    by (simp add: json_of_bytes_def json_bytes_def ascii_def json_step_def json_begin_def json_space_def is_digit_def)
next
  case False
  have "list_all plain_byte (b64_encode bs)" using b64_plain [of bs] by (auto simp: list_all_iff)
  then show ?thesis
    using False feed_plain
    by (simp add: json_of_bytes_def json_bytes_def json_step_def json_begin_def json_space_def is_digit_def json_string_end_def)
qed

lemma feed_bool: "json_feed (JWant, st, vs) (json_of_bool b) = json_complete (JBool b) st vs"
  by (simp add: json_of_bool_def ascii_def json_step_def json_begin_def json_space_def is_digit_def)

lemma bytes_field_roundtrip: "bytes_field upd (json_bytes bs) s = (upd bs s, False)"
proof -
  have "list_all plain_byte (b64_encode bs)" using b64_plain [of bs] by (auto simp: list_all_iff)
  then show ?thesis by (simp add: bytes_field_def json_bytes_def unquote_plain)
qed

text \<open>A key of the encoder, with what precedes it.\<close>

lemma feed_first_key:
  assumes "list_all plain_byte k" "length st < max_depth"
  shows "json_feed (JWant, st, vs) (123 # 34 # k @ [34, 58]) = (JWant, ObjF [] k # st, vs)"
  using assms feed_plain
  by (simp add: json_step_def json_begin_def json_space_def is_digit_def json_string_end_def)

lemma feed_next_key:
  assumes "list_all plain_byte k"
  shows "json_feed (JNext, ObjF kvs k0 # st, vs) (44 # 34 # k @ [34, 58]) = (JWant, ObjF kvs k # st, vs)"
  using assms feed_plain by (simp add: json_step_def json_space_def json_string_end_def)

lemma feed_object_end: "json_step (JNext, ObjF kvs k # st, vs) 125 = json_complete (JObj (rev kvs)) st vs"
  by (simp add: json_step_def json_space_def)

end
