(* ===== verification/Json_Ids.thy ===== *)
theory Json_Ids
  imports Json_Codec
begin

text \<open>
  The JSON of user ids, as the answers of the signaling server carry them: a list of ids, and an object
  from ids to lists of strings. How an id is written is the business of \<open>google/uuid\<close>, whose \<open>MarshalText\<close>
  and \<open>UnmarshalText\<close> are the record \<open>uuid_lib\<close>; \<open>uuid_ok\<close> states what its documentation promises.
\<close>

record uuid_lib =
  ul_MarshalText :: "uuid \<Rightarrow> bytes"
  ul_UnmarshalText :: "bytes \<Rightarrow> uuid option"

definition uuid_ok :: "uuid_lib \<Rightarrow> bool" where
  "uuid_ok ul \<longleftrightarrow>
     (\<forall>u. ul_UnmarshalText ul (ul_MarshalText ul u) = Some u \<and> list_all plain_byte (ul_MarshalText ul u))"

section \<open>Decoding\<close>

text \<open>
  An element of \<open>[]uuid.UUID\<close>: a string the library reads; \<open>null\<close> leaves the zero id; anything else is an
  error.
\<close>

definition decode_uuid :: "uuid_lib \<Rightarrow> json \<Rightarrow> uuid option" where
  "decode_uuid ul v =
     (case v of JStr t \<Rightarrow> ul_UnmarshalText ul (unquote t) | JNull \<Rightarrow> Some 0 | _ \<Rightarrow> None)"

definition decode_uuids :: "uuid_lib \<Rightarrow> bytes \<Rightarrow> uuid list call" where
  "decode_uuids ul data =
     (case json_parse data of
        Some (JArr vs) \<Rightarrow> (case those (map (decode_uuid ul) vs) of Some us \<Rightarrow> Inr us | None \<Rightarrow> Inl json_error)
      | Some JNull \<Rightarrow> Inr []
      | _ \<Rightarrow> Inl json_error)"

definition string_of_bytes :: "bytes \<Rightarrow> string" where
  "string_of_bytes bs = map (\<lambda>b. char_of (unat b)) bs"

definition decode_string :: "json \<Rightarrow> string option" where
  "decode_string v = (case v of JStr t \<Rightarrow> Some (string_of_bytes (unquote t)) | JNull \<Rightarrow> Some [] | _ \<Rightarrow> None)"

definition decode_strings :: "json \<Rightarrow> string list option" where
  "decode_strings v = (case v of JArr vs \<Rightarrow> those (map decode_string vs) | JNull \<Rightarrow> Some [] | _ \<Rightarrow> None)"

text \<open>A \<open>map[uuid.UUID][]string\<close>: of two entries with the same key the later one counts.\<close>

fun decode_entries :: "uuid_lib \<Rightarrow> (bytes \<times> json) list \<Rightarrow> (uuid \<rightharpoonup> string list) \<Rightarrow> (uuid \<rightharpoonup> string list) option" where
  "decode_entries ul [] m = Some m"
| "decode_entries ul ((k, v) # kvs) m =
     (case (ul_UnmarshalText ul (unquote k), decode_strings v) of
        (Some u, Some ss) \<Rightarrow> decode_entries ul kvs (m(u \<mapsto> ss))
      | _ \<Rightarrow> None)"

definition decode_friends :: "uuid_lib \<Rightarrow> bytes \<Rightarrow> (uuid \<rightharpoonup> string list) call" where
  "decode_friends ul data =
     (case json_parse data of
        Some (JObj kvs) \<Rightarrow> (case decode_entries ul kvs Map.empty of Some m \<Rightarrow> Inr m | None \<Rightarrow> Inl json_error)
      | Some JNull \<Rightarrow> Inr Map.empty
      | _ \<Rightarrow> Inl json_error)"

section \<open>Encoding\<close>

definition json_of_uuid :: "uuid_lib \<Rightarrow> uuid \<Rightarrow> bytes" where
  "json_of_uuid ul u = 34 # ul_MarshalText ul u @ [34]"

fun json_of_more :: "uuid_lib \<Rightarrow> uuid list \<Rightarrow> bytes" where
  "json_of_more ul [] = [93]"
| "json_of_more ul (u # us) = 44 # json_of_uuid ul u @ json_of_more ul us"

definition json_of_uuids :: "uuid_lib \<Rightarrow> uuid list \<Rightarrow> bytes" where
  "json_of_uuids ul us =
     91 # (case us of [] \<Rightarrow> [93] | v # vs \<Rightarrow> json_of_uuid ul v @ json_of_more ul vs)"

text \<open>The scanner takes a written id as one element.\<close>

lemma feed_uuid:
  assumes "uuid_ok ul" "m = JWant \<or> m = JWantOrEnd"
  shows "json_feed (m, ArrF es # st, vs) (json_of_uuid ul u) = (JNext, ArrF (JStr (ul_MarshalText ul u) # es) # st, vs)"
proof -
  have "list_all plain_byte (ul_MarshalText ul u)" using assms(1) by (simp add: uuid_ok_def)
  then show ?thesis
    using assms(2) feed_plain
    by (auto simp: json_of_uuid_def json_step_def json_begin_def json_space_def is_digit_def json_string_end_def)
qed

lemma feed_more:
  assumes "uuid_ok ul"
  shows "json_feed (JNext, ArrF es # st, vs) (json_of_more ul us) =
    json_complete (JArr (rev es @ map (JStr \<circ> ul_MarshalText ul) us)) st vs"
proof (induction us arbitrary: es)
  case Nil
  then show ?case by (simp add: json_step_def json_space_def)
next
  case (Cons u us)
  have "json_step (JNext, ArrF es # st, vs) 44 = (JWant, ArrF es # st, vs)"
    by (simp add: json_step_def json_space_def)
  then show ?case using Cons feed_uuid [OF assms] by simp
qed

lemma parse_uuids:
  assumes "uuid_ok ul"
  shows "json_parse (json_of_uuids ul us) = Some (JArr (map (JStr \<circ> ul_MarshalText ul) us))"
proof -
  have start: "json_step (JWant, [], []) 91 = (JWantOrEnd, [ArrF []], [])"
    by (simp add: json_step_def json_begin_def json_space_def max_depth_def)
  show ?thesis
  proof (cases us)
    case Nil
    have "json_step (JWantOrEnd, [ArrF []], []) 93 = (JWant, [], [JArr []])"
      by (simp add: json_step_def json_space_def)
    then show ?thesis by (simp add: json_parse_def json_start_def json_of_uuids_def Nil start)
  next
    case (Cons v ws)
    then show ?thesis
      by (simp add: json_parse_def json_start_def json_of_uuids_def start feed_uuid [OF assms] feed_more [OF assms])
  qed
qed

lemma decode_encoded:
  assumes "uuid_ok ul"
  shows "decode_uuids ul (json_of_uuids ul us) = Inr us"
proof -
  have "decode_uuid ul (JStr (ul_MarshalText ul u)) = Some u" for u
    using assms by (simp add: decode_uuid_def uuid_ok_def unquote_plain)
  then have "those (map (decode_uuid ul \<circ> (JStr \<circ> ul_MarshalText ul)) us) = Some us"
    by (induction us) simp_all
  then show ?thesis by (simp add: decode_uuids_def parse_uuids [OF assms])
qed

section \<open>The canonical form\<close>

text \<open>
  The text of an id as RFC 9562 has it: 32 hexadecimal digits in five groups. It meets the laws above, so they
  can hold.
\<close>

definition hex_digit :: "nat \<Rightarrow> byte" where
  "hex_digit n = (if n < 10 then of_nat (48 + n) else of_nat (87 + n))"

fun hex_digits :: "nat \<Rightarrow> nat \<Rightarrow> bytes" where
  "hex_digits 0 n = []"
| "hex_digits (Suc k) n = hex_digits k (n div 16) @ [hex_digit (n mod 16)]"

definition hex_number :: "bytes \<Rightarrow> nat" where
  "hex_number bs = foldl (\<lambda>n b. 16 * n + hex_val b) 0 bs"

lemma hex_val_digit: "n < 16 \<Longrightarrow> hex_val (hex_digit n) = n \<and> plain_byte (hex_digit n) \<and> is_hex (hex_digit n)"
proof -
  assume "n < 16"
  then have "n \<in> set [0..<16]" by simp
  moreover have "\<forall>n \<in> set [0..<16]. hex_val (hex_digit n) = n \<and> plain_byte (hex_digit n) \<and> is_hex (hex_digit n)"
    by (simp add: hex_digit_def hex_val_def plain_byte_def is_hex_def is_digit_def upt_rec)
  ultimately show ?thesis by blast
qed

lemma hex_digits_number:
  "hex_number (hex_digits k n) = n mod 16 ^ k" "length (hex_digits k n) = k" "list_all plain_byte (hex_digits k n)"
proof (induction k arbitrary: n)
  case (Suc k)
  {
    case 1
    have "16 * (n div 16 mod 16 ^ k) + n mod 16 = n mod 16 ^ Suc k" by (simp add: mod_mult2_eq)
    then show ?case using Suc(1) [of "n div 16"] by (simp add: hex_number_def hex_val_digit)
  next
    case 2
    then show ?case using Suc(2) by simp
  next
    case 3
    then show ?case using Suc(3) by (simp add: hex_val_digit)
  }
qed (simp_all add: hex_number_def)

definition canonical_text :: "uuid \<Rightarrow> bytes" where
  "canonical_text u =
     (let ds = hex_digits 32 (unat u) in
      take 8 ds @ [45] @ take 4 (drop 8 ds) @ [45] @ take 4 (drop 12 ds) @ [45] @ take 4 (drop 16 ds) @ [45] @ drop 20 ds)"

definition parse_canonical :: "bytes \<Rightarrow> uuid option" where
  "parse_canonical bs =
     (let ds = take 8 bs @ take 4 (drop 9 bs) @ take 4 (drop 14 bs) @ take 4 (drop 19 bs) @ drop 24 bs in
      if length bs = 36 \<and> bs ! 8 = 45 \<and> bs ! 13 = 45 \<and> bs ! 18 = 45 \<and> bs ! 23 = 45 \<and> list_all is_hex ds
      then Some (of_nat (hex_number ds)) else None)"

definition canonical_uuid :: uuid_lib where
  "canonical_uuid = \<lparr>ul_MarshalText = canonical_text, ul_UnmarshalText = parse_canonical\<rparr>"

lemma hex_digits_hex: "list_all is_hex (hex_digits k n)"
  by (induction k arbitrary: n) (simp_all add: hex_val_digit)

lemma five_groups:
  "take 8 xs @ take 4 (drop 8 xs) @ take 4 (drop 12 xs) @ take 4 (drop 16 xs) @ drop 20 xs = xs"
proof -
  have "take 20 xs = take 8 xs @ take 4 (drop 8 xs) @ take 4 (drop 12 xs) @ take 4 (drop 16 xs)"
    using take_add [of 8 4 xs] take_add [of 12 4 xs] take_add [of 16 4 xs] by simp
  then have "take 8 xs @ take 4 (drop 8 xs) @ take 4 (drop 12 xs) @ take 4 (drop 16 xs) @ drop 20 xs =
      take 20 xs @ drop 20 xs" by simp
  then show ?thesis by simp
qed

lemma canonical_uuid_ok: "uuid_ok canonical_uuid"
proof -
  have "parse_canonical (canonical_text u) = Some u \<and> list_all plain_byte (canonical_text u)" for u
  proof -
    let ?ds = "hex_digits 32 (unat u)"
    have len: "length ?ds = 32" by (rule hex_digits_number(2))
    obtain a b c d e where ds: "?ds = a @ b @ c @ d @ e"
      and l: "length a = 8" "length b = 4" "length c = 4" "length d = 4" "length e = 12"
    proof
      show "?ds = take 8 ?ds @ take 4 (drop 8 ?ds) @ take 4 (drop 12 ?ds) @ take 4 (drop 16 ?ds) @ drop 20 ?ds"
        by (rule five_groups [symmetric])
    qed (simp_all add: len)
    have wr: "canonical_text u = a @ [45] @ b @ [45] @ c @ [45] @ d @ [45] @ e"
      by (simp add: canonical_text_def ds l)
    have "unat u < 16 ^ 32" using unsigned_less [of u] by simp
    then have "hex_number (a @ b @ c @ d @ e) = unat u" using hex_digits_number(1) [of 32 "unat u"] ds by simp
    then have "parse_canonical (canonical_text u) = Some u"
      using hex_digits_hex [of 32 "unat u"] by (simp add: parse_canonical_def wr l nth_append ds)
    moreover have "list_all plain_byte (canonical_text u)"
      using hex_digits_number(3) [of 32 "unat u"] by (simp add: wr ds plain_byte_def)
    ultimately show ?thesis by blast
  qed
  then show ?thesis by (simp add: uuid_ok_def canonical_uuid_def)
qed

end
