(* ===== verification/Net_Service.thy ===== *)
theory Net_Service
  imports Net_Connect Json_Ids
begin

text \<open>
  The operations of the interface \<open>NetworkingServ\<close> (\<open>services/networking/network-serv.go\<close>):
  connecting, disconnecting, the three ways to send and the three ways to fetch.

  Where an operation starts goroutines and waits for them, the model runs them one after the other
  in an order that is an argument. A wait on \<open>ReadyChan\<close> splits the operation in two: a first part
  that returns the sessions it waits for, and \<open>wait_ready\<close>.
\<close>

section \<open>Connect and ConnectById\<close>

datatype connect_phase = Returned "unit res" | Waiting "sref list" "go_error option"

text \<open>
  The goroutines of the \<open>errgroup\<close>: every one creates a session; the group keeps the first error.
  A session that was created is waited for, also after an error of another goroutine.
\<close>

fun create_group ::
    "(uuid \<times> create_env) list \<Rightarrow> 'c net \<Rightarrow> (sref list \<times> go_error option) res \<times> 'c net" where
  "create_group [] s = (Ok ([], None), s)"
| "create_group ((i, env) # gs) s =
     (case create_and_establish env i True s of
        (Panic, t) \<Rightarrow> (Panic, t)
      | (Ok r, t) \<Rightarrow>
          (case create_group gs t of
             (Ok (rs, e), u) \<Rightarrow> (Ok (r # rs, e), u)
           | (Err e, u) \<Rightarrow> (Err e, u)
           | (Panic, u) \<Rightarrow> (Panic, u))
      | (Err e, t) \<Rightarrow>
          (case create_group gs t of
             (Ok (rs, e'), u) \<Rightarrow> (Ok (rs, Some (new_app_error ''networkingServ.Connect'' e)), u)
           | (Err e', u) \<Rightarrow> (Err e', u)
           | (Panic, u) \<Rightarrow> (Panic, u)))"

text \<open>\<open>Disconnect\<close>: \<open>order\<close> is the order in which the goroutines of the wait group run.\<close>

fun disconnect_all :: "sref list \<Rightarrow> 'c net \<Rightarrow> 'c net res" where
  "disconnect_all [] s = Ok s"
| "disconnect_all (r # rs) s = go_bind (disconnect_session r True s) (disconnect_all rs)"

definition disconnect :: "(sref list \<Rightarrow> sref list) \<Rightarrow> 'c net \<Rightarrow> unit res \<times> 'c net" where
  "disconnect order s =
     try_op ''networkingServ.Disconnect'' (repo_fetch False (ns_repo s)) s (\<lambda>sessions.
       if sessions = [] then (Ok (), s)
       else (case disconnect_all (order sessions) s of
               Ok t \<Rightarrow> (Ok (), t)
             | Err e \<Rightarrow> (Err e, s)
             | Panic \<Rightarrow> (Panic, s)))"

definition disconnect_from_id :: "bool \<Rightarrow> uuid \<Rightarrow> 'c net \<Rightarrow> unit res \<times> 'c net" where
  "disconnect_from_id ctx_done sessionId s =
     try_op ''networkingServ.DisconnectFrom'' (repo_get ctx_done sessionId (ns_repo s)) s (\<lambda>r.
       (case disconnect_session r True s of
          Ok t \<Rightarrow> (Ok (), t)
        | Err e \<Rightarrow> (Err e, s)
        | Panic \<Rightarrow> (Panic, s)))"

text \<open>
  \<open>co_sessions\<close> is the answer of \<open>GetSessionsById\<close>, \<open>co_uuids\<close> the library that reads its ids;
  \<open>co_main\<close> and \<open>co_peer\<close> are the environments of the goroutines, by position; \<open>co_order\<close> the
  order in which they run.
\<close>

record connect_env =
  co_ctx_done :: bool
  co_disconnect :: "sref list \<Rightarrow> sref list"
  co_sessions :: "bytes call"
  co_uuids :: uuid_lib
  co_main :: create_env
  co_peer :: "nat \<Rightarrow> create_env"
  co_order :: "(uuid \<times> create_env) list \<Rightarrow> (uuid \<times> create_env) list"

definition session_of :: "'c net \<Rightarrow> uuid \<Rightarrow> sref \<Rightarrow> bool" where
  "session_of s i r = (case ns_heap s r of Some x \<Rightarrow> UserID x = i | None \<Rightarrow> False)"

text \<open>
  When \<open>GetSessionsById\<close> or the decoding fails, the goroutine of the first peer is already
  running and nobody waits for it: here its part up to the wait runs before the return.
\<close>

definition connect_peers :: "connect_env \<Rightarrow> uuid \<Rightarrow> 'c net \<Rightarrow> connect_phase \<times> 'c net" where
  "connect_peers env rid s =
     (let op = ''networkingServ.Connect'';
          s1 = sig_request (GetSessionsById rid) s;
          answer = (case co_sessions env of Inl e \<Rightarrow> Inl e | Inr b \<Rightarrow> decode_uuids (co_uuids env) b)
      in case answer of
           Inl e \<Rightarrow>
             (case create_group [(rid, co_main env)] s1 of
                (Panic, t) \<Rightarrow> (Returned Panic, t)
              | (_, t) \<Rightarrow> (Returned (Err (new_app_error op e)), t))
         | Inr peers \<Rightarrow>
             let others = filter (\<lambda>p. fst p \<noteq> ns_id s1)
                            (zip peers (map (co_peer env) [0..<length peers]))
             in (case create_group (co_order env ((rid, co_main env) # others)) s1 of
                   (Ok (rs, e), t) \<Rightarrow> (Waiting rs (map_option (new_app_error op) e), t)
                 | (Err e, t) \<Rightarrow> (Returned (Err e), t)
                 | (Panic, t) \<Rightarrow> (Returned Panic, t)))"

definition connect :: "connect_env \<Rightarrow> uuid \<Rightarrow> 'c net \<Rightarrow> connect_phase \<times> 'c net" where
  "connect env rid s =
     (let op = ''networkingServ.Connect'' in
      if rid = ns_id s then (Returned (Err (PlainError ''cannot connect to himself'')), s)
      else
        (case repo_fetch (co_ctx_done env) (ns_repo s) of
           Err e \<Rightarrow> (Returned (Err (new_app_error op e)), s)
         | Panic \<Rightarrow> (Returned Panic, s)
         | Ok curSessions \<Rightarrow>
             if list_ex (session_of s rid) curSessions then (Returned (Ok ()), s)
             else if length curSessions > 0
             then (case disconnect (co_disconnect env) s of
                     (Err e, t) \<Rightarrow> (Returned (Err (new_app_error op e)), t)
                   | (Panic, t) \<Rightarrow> (Returned Panic, t)
                   | (Ok _, t) \<Rightarrow> connect_peers env rid t)
             else connect_peers env rid s))"

definition connect_by_id :: "create_env \<Rightarrow> uuid \<Rightarrow> 'c net \<Rightarrow> connect_phase \<times> 'c net" where
  "connect_by_id env rid s =
     (let op = ''networkingServ.ConnectById'' in
      if rid = ns_id s then (Returned (Err (err_conn_to_himself op)), s)
      else (case create_and_establish env rid True s of
              (Ok r, t) \<Rightarrow> (Waiting [r] None, t)
            | (Err e, t) \<Rightarrow> (Returned (Err (new_app_error op e)), t)
            | (Panic, t) \<Rightarrow> (Returned Panic, t)))"

text \<open>\<open><-session.ReadyChan\<close> for all sessions of the group; \<open>None\<close> while one of them blocks.\<close>

definition session_ready :: "'c net \<Rightarrow> sref \<Rightarrow> bool" where
  "session_ready s r =
     (case ns_heap s r of Some x \<Rightarrow> chan_recv (ReadyChan x) \<noteq> None | None \<Rightarrow> False)"

definition wait_ready :: "connect_phase \<Rightarrow> 'c net \<Rightarrow> unit res option" where
  "wait_ready p s =
     (case p of
        Returned res \<Rightarrow> Some res
      | Waiting rs e \<Rightarrow>
          if list_all (session_ready s) rs
          then Some (case e of None \<Rightarrow> Ok () | Some err \<Rightarrow> Err err) else None)"

section \<open>Sending\<close>

definition stored_sessions :: "bool \<Rightarrow> string \<Rightarrow> 'c net \<Rightarrow> sref list res" where
  "stored_sessions ctx_done op s =
     go_bind (wrap_op op (repo_fetch ctx_done (ns_repo s))) (\<lambda>sessions.
       if length sessions = 0 then Err (err_not_found op) else Ok sessions)"

definition has_conn :: "'c net \<Rightarrow> sref \<Rightarrow> bool" where
  "has_conn s r = (case ns_heap s r of Some x \<Rightarrow> Conn x \<noteq> None | None \<Rightarrow> False)"

definition has_event_stream :: "'c net \<Rightarrow> sref \<Rightarrow> bool" where
  "has_event_stream s r = (case ns_heap s r of Some x \<Rightarrow> EventStream x \<noteq> None | None \<Rightarrow> False)"

text \<open>
  The result of the three send operations: the sessions a goroutine is started for. Data goes to
  those that have a connection and whose \<open>ReadyChan\<close> does not block.
\<close>

definition send_in_event_stream :: "bool \<Rightarrow> 'c net \<Rightarrow> sref list res" where
  "send_in_event_stream ctx_done s =
     go_bind (stored_sessions ctx_done ''networkingServ.SendInEventStream'' s) (\<lambda>sessions.
       Ok (filter (\<lambda>r. has_conn s r \<and> has_event_stream s r) sessions))"

definition send_in_stream :: "bool \<Rightarrow> bytes \<Rightarrow> 'c net \<Rightarrow> sref list res \<times> 'c net" where
  "send_in_stream ctx_done data s =
     (let op = ''networkingServ.SendMessage'';
          s1 = s\<lparr>ns_sendStreamLogCount := ns_sendStreamLogCount s + 1\<rparr>
      in (if data = [] then Panic
          else go_bind (sparse_guard (nw_DatagramLogTargetCount (ns_cfg s1)) (ns_sendStreamLogCount s1)) (\<lambda>_.
               go_bind (stored_sessions ctx_done op s1) (\<lambda>sessions.
                 Ok (filter (\<lambda>r. has_conn s1 r \<and> session_ready s1 r) sessions))), s1))"

definition send_datagram :: "bool \<Rightarrow> bytes \<Rightarrow> 'c net \<Rightarrow> sref list res \<times> 'c net" where
  "send_datagram ctx_done data s =
     (let op = ''networkingServ.SendDatagram'';
          s1 = s\<lparr>ns_sendDatagramLogCount := ns_sendDatagramLogCount s + 1\<rparr>
      in (if data = [] then Panic
          else go_bind (sparse_guard (nw_DatagramLogTargetCount (ns_cfg s1)) (ns_sendDatagramLogCount s1)) (\<lambda>_.
               go_bind (stored_sessions ctx_done op s1) (\<lambda>sessions.
                 Ok (filter (\<lambda>r. has_conn s1 r \<and> session_ready s1 r) sessions))), s1))"

text \<open>The goroutine of one session: what it puts on the connection, if anything.\<close>

definition datagram_to :: "crypto \<Rightarrow> bytes \<Rightarrow> bytes \<Rightarrow> sref \<Rightarrow> 'c net \<Rightarrow> bytes option res" where
  "datagram_to cr rnd data r s =
     with_session r s (\<lambda>x.
       case cipher_datagram cr rnd data (Key x) of
         Ok ct \<Rightarrow> Ok (Some ct)
       | Err e \<Rightarrow> Ok None
       | Panic \<Rightarrow> Panic)"

text \<open>
  The same for a stream: \<open>opened\<close> is the answer of \<open>OpenUniStreamSync\<close>; the stream comes back as
  the goroutine leaves it. A stream that cannot be opened ends the session.
\<close>

definition stream_to ::
    "crypto \<Rightarrow> bytes \<Rightarrow> bytes \<Rightarrow> quic_stream call \<Rightarrow> sref \<Rightarrow> 'c net \<Rightarrow> (quic_stream option \<times> 'c net) res" where
  "stream_to cr rnd data opened r s =
     with_session r s (\<lambda>x.
       case opened of
         Inl e \<Rightarrow> go_bind (disconnect_session r False s) (\<lambda>t. Ok (None, t))
       | Inr stream \<Rightarrow>
           (case new_secure_stream stream (Key x) of
              Panic \<Rightarrow> Panic
            | Err e \<Rightarrow> Ok (Some stream, s)
            | Ok secureStream \<Rightarrow>
                (case ss_send cr rnd data secureStream of
                   (Panic, _) \<Rightarrow> Panic
                 | (Err e, ss) \<Rightarrow> Ok (Some (ss_stream ss), s)
                 | (Ok _, ss) \<Rightarrow> Ok (Some (ss_stream (snd (ss_close ss))), s))))"

section \<open>Fetching\<close>

text \<open>
  The three fetch operations have the same shape: count, log sparsely, ask the signaling client,
  decode the answer, log again. The counter is loaded anew for the second record, \<open>logCount\<close>.
\<close>

definition fetch_with ::
    "string \<Rightarrow> sig_call \<Rightarrow> bytes call \<Rightarrow> (bytes \<Rightarrow> 'a call) \<Rightarrow> 32 word \<Rightarrow> 'c net \<Rightarrow> 'a res \<times> 'c net" where
  "fetch_with op q answer decoded logCount s =
     (let s1 = s\<lparr>ns_fetchLogCount := ns_fetchLogCount s + 1\<rparr>;
          target = nw_FetchLogTargetCount (ns_cfg s1)
      in case sparse_guard target (ns_fetchLogCount s1) of
           Panic \<Rightarrow> (Panic, s1)
         | Err e \<Rightarrow> (Err e, s1)
         | Ok _ \<Rightarrow>
             let s2 = sig_request q s1 in
             try_op op (of_call answer) s2 (\<lambda>b.
             try_op op (of_call (decoded b)) s2 (\<lambda>a.
               (go_bind (sparse_guard target logCount) (\<lambda>_. Ok a), s2))))"

definition fetch_online ::
    "uuid_lib \<Rightarrow> bytes call \<Rightarrow> 32 word \<Rightarrow> 'c net \<Rightarrow> uuid list res \<times> 'c net" where
  "fetch_online ul answer logCount s =
     fetch_with ''networkingServ.FetchOnline'' GetOnline answer (decode_uuids ul) logCount s"

definition fetch_online_friends ::
    "uuid_lib \<Rightarrow> uuid list \<Rightarrow> bytes call \<Rightarrow> 32 word \<Rightarrow> 'c net \<Rightarrow> (uuid \<rightharpoonup> string list) res \<times> 'c net" where
  "fetch_online_friends ul friends answer logCount s =
     fetch_with ''networkingServ.FetchOnlineFriends'' (GetFriendsOnline friends) answer (decode_friends ul) logCount s"

definition fetch_sessions_by_id ::
    "uuid_lib \<Rightarrow> uuid \<Rightarrow> bytes call \<Rightarrow> 32 word \<Rightarrow> 'c net \<Rightarrow> uuid list res \<times> 'c net" where
  "fetch_sessions_by_id ul i answer logCount s =
     fetch_with ''networkingServ.FetchSessions'' (GetSessionsById i) answer (decode_uuids ul) logCount s"

lemmas service_defs [go_defs] =
  disconnect_def disconnect_from_id_def connect_peers_def connect_def connect_by_id_def
  session_ready_def wait_ready_def stored_sessions_def has_conn_def has_event_stream_def
  send_in_event_stream_def send_in_stream_def send_datagram_def datagram_to_def stream_to_def
  fetch_with_def fetch_online_def fetch_online_friends_def fetch_sessions_by_id_def

end
