(* ===== verification/Net_Effects.thy ===== *)
theory Net_Effects
  imports Net_Turns Net_Service
begin

text \<open>
  What an operation of the service does to sessions and store, as a sequence of ten elementary
  effects on its core: the map of the store, the heap, the next reference and the establishing
  goroutines with their phases. An invariant of the service is proved once per effect.
\<close>

section \<open>Effects\<close>

type_synonym core = "(uuid \<rightharpoonup> sref) \<times> (sref \<rightharpoonup> session) \<times> sref \<times> sref list \<times> (sref \<Rightarrow> est_phase)"

definition core :: "'c net \<Rightarrow> core" where
  "core s = (repo_lookup (ns_repo s), ns_heap s, ns_next s, ns_establishing s, ns_phase s)"

lemma core_net_core: "net_core t = net_core s \<Longrightarrow> core t = core s"
  by (simp add: core_def net_core_def)

text \<open>Two sessions that differ in their buffered data only.\<close>

definition same_control :: "session \<Rightarrow> session \<Rightarrow> bool" where
  "same_control x y \<longleftrightarrow>
     y\<lparr>CredsChan := CredsChan x, VoiceChan := VoiceChan x, WebcamChan := WebcamChan x,
       ScreenChan := ScreenChan x\<rparr> = x"

lemma same_controlD:
  assumes "same_control x y"
  shows "UserID y = UserID x" "IsInitiator y = IsInitiator x" "Agent y = Agent x" "Conn y = Conn x"
    "EventStream y = EventStream x" "EventDecoder y = EventDecoder x" "EventEncoder y = EventEncoder x"
    "Closing y = Closing x" "ReadyChan y = ReadyChan x" "Key y = Key x" "Leaving y = Leaving x"
  using assms unfolding same_control_def by (cases x; cases y; simp)+

lemma same_control_chans [simp]:
  "same_control x x" "same_control x (x\<lparr>CredsChan := c\<rparr>)" "same_control x (x\<lparr>VoiceChan := v\<rparr>)"
  "same_control x (x\<lparr>WebcamChan := v\<rparr>)" "same_control x (x\<lparr>ScreenChan := v\<rparr>)"
  by (simp_all add: same_control_def)

definition unmap :: "sref \<Rightarrow> (uuid \<rightharpoonup> sref) \<Rightarrow> (uuid \<rightharpoonup> sref)" where
  "unmap r m = (\<lambda>i. if m i = Some r then None else m i)"

definition ready_session :: "session \<Rightarrow> session" where
  "ready_session x = x\<lparr>ReadyChan := (ReadyChan x)\<lparr>ch_closed := True\<rparr>\<rparr>"

lemma ready_session_simps [simp]:
  "UserID (ready_session x) = UserID x" "IsInitiator (ready_session x) = IsInitiator x"
  "Agent (ready_session x) = Agent x" "Conn (ready_session x) = Conn x"
  "EventStream (ready_session x) = EventStream x" "EventDecoder (ready_session x) = EventDecoder x"
  "EventEncoder (ready_session x) = EventEncoder x" "Closing (ready_session x) = Closing x"
  "Key (ready_session x) = Key x" "ch_closed (ReadyChan (ready_session x))"
  "CredsChan (ready_session x) = CredsChan x" "Leaving (ready_session x) = Leaving x"
  by (simp_all add: ready_session_def)

text \<open>A turn of the goroutine that establishes a session: from phase to phase, or to the reset.\<close>

inductive advance :: "est_phase \<Rightarrow> est_phase \<Rightarrow> session \<Rightarrow> session \<Rightarrow> bool" where
  Credited: "chan_recv (CredsChan x) = Some (v, ch) \<Longrightarrow> advance AwaitCreds Dialing x (x\<lparr>CredsChan := ch\<rparr>)"
| Dialled: "advance Dialing Exchanging x (x\<lparr>Conn := Some c\<rparr>)"
| Keyed: "length k = 32 \<Longrightarrow> advance Exchanging Streaming x (x\<lparr>Key := k\<rparr>)"
| Streamed: "advance Streaming Announcing x (with_event_stream e x)"
| Announced: "advance Announcing Finishing x x"
| Failed: "p \<in> {AwaitCreds, Dialing, Exchanging, Streaming} \<Longrightarrow> advance p Resetting x (ready_session x)"

inductive effect :: "core \<Rightarrow> core \<Rightarrow> bool" where
  Touch: "h r = Some x \<Longrightarrow> same_control x y \<Longrightarrow> effect (m, h, n, es) (m, h(r \<mapsto> y), n, es)"
| Drop: "h r = Some x \<Longrightarrow> effect (m, h, n, es) (unmap r m, h, n, es)"
| Alloc: "effect (m, h, n, es) (m, h(n \<mapsto> new_session rid agent b), Suc n, es)"
| Store: "m rid = None \<Longrightarrow>
    effect (m, h, n, es, ph) (m(rid \<mapsto> n), h(n \<mapsto> new_session rid agent b), Suc n, es @ [n], ph)"
| Advance: "r \<in> set es \<Longrightarrow> h r = Some x \<Longrightarrow> advance (ph r) p x y \<Longrightarrow>
    effect (m, h, n, es, ph) (m, h(r \<mapsto> y), n, es, ph(r := p))"
| Join: "r \<in> set es \<Longrightarrow> h r = Some x \<Longrightarrow> ph r = Finishing \<Longrightarrow>
    effect (m, h, n, es, ph) (m, h(r \<mapsto> ready_session x), n, filter (\<lambda>q. q \<noteq> r) es, ph(r := AwaitCreds))"
| GiveUp: "r \<in> set es \<Longrightarrow> h r = Some x \<Longrightarrow> ph r = Resetting \<Longrightarrow>
    effect (m, h, n, es, ph) (unmap r m, h, n, filter (\<lambda>q. q \<noteq> r) es, ph(r := AwaitCreds))"
| Shut: "h r = Some x \<Longrightarrow> \<not> Closing x \<Longrightarrow>
    effect (m, h, n, es) (m, h(r \<mapsto> leaving_session (Deleting l) x), n, es)"
| Gone: "h r = Some x \<Longrightarrow> Leaving x = Some (Deleting l) \<Longrightarrow>
    effect (m, h, n, es) (unmap r m, h(r \<mapsto> x\<lparr>Leaving := Some (Telling l)\<rparr>), n, es)"
| Told: "h r = Some x \<Longrightarrow> Leaving x = Some (Telling l) \<Longrightarrow>
    effect (m, h, n, es) (m, h(r \<mapsto> x\<lparr>Leaving := None\<rparr>), n, es)"

inductive_cases effectE: "effect c d"

abbreviation effects :: "core \<Rightarrow> core \<Rightarrow> bool" where
  "effects \<equiv> effect\<^sup>*\<^sup>*"

text \<open>
  An operation other than establishing is quiet: no session leaves the establishing ones, no phase changes,
  and the goroutines of \<open>handleConnection\<close> and of the reconnect loops stay as they are.
\<close>

definition calm :: "core \<Rightarrow> core \<Rightarrow> bool" where
  "calm c d \<longleftrightarrow> effect c d \<and> set (fst (snd (snd (snd c)))) \<subseteq> set (fst (snd (snd (snd d)))) \<and>
     snd (snd (snd (snd d))) = snd (snd (snd (snd c)))"

definition loops :: "'c net \<Rightarrow> (sref \<times> session_loop) list \<times> (uuid \<times> sref option) list" where
  "loops s = (ns_handling s, ns_reconnecting s)"

definition quiet :: "'c net \<Rightarrow> 'c net \<Rightarrow> bool" where
  "quiet s t \<longleftrightarrow> calm\<^sup>*\<^sup>* (core s) (core t) \<and> loops t = loops s"

lemma calm_effects: "calm\<^sup>*\<^sup>* c d \<Longrightarrow> effects c d"
  by (rule rtranclp_mono [THEN predicate2D]) (auto simp: calm_def)

lemma quiet_effects: "quiet s t \<Longrightarrow> effects (core s) (core t)"
  by (auto simp: quiet_def calm_effects)

section \<open>The effects of every operation\<close>

lemma quiet_refl [simp]: "quiet s s" by (simp add: quiet_def)

lemma quiet_same: "core t = core s \<Longrightarrow> loops t = loops s \<Longrightarrow> quiet s t" by (simp add: quiet_def)

lemma quiet_trans: "quiet s t \<Longrightarrow> quiet t u \<Longrightarrow> quiet s u"
  unfolding quiet_def by (auto intro: rtranclp_trans)

lemma core_calls [simp]:
  "core (call_data h i p s) = core s" "core (call_connection c i s) = core s"
  "core (spawn_event ev i e s) = core s" "core (run_spawned k s) = core s" "core (sig_request q s) = core s" "core (lib_do qs s) = core s"
  by (simp_all add: core_def)

lemma loops_calls [simp]:
  "loops (call_data h i p s) = loops s" "loops (call_connection c i s) = loops s"
  "loops (spawn_event ev i e s) = loops s" "loops (run_spawned k s) = loops s" "loops (sig_request q s) = loops s" "loops (lib_do qs s) = loops s"
  "loops (set_session r y s) = loops s" "loops (drop_from_repo r y s) = loops s"
  by (simp_all add: loops_def set_session_def drop_from_repo_def go_frame)

lemma core_set_session: "core (set_session r y s) =
    (repo_lookup (ns_repo s), (ns_heap s)(r \<mapsto> y), ns_next s, ns_establishing s, ns_phase s)"
  by (simp add: core_def set_session_def)

text \<open>The elementary effects on states.\<close>

lemma one_effect: "effect (core s) d \<Longrightarrow> core t = d \<Longrightarrow> effects (core s) (core t)"
  by auto

lemma one_calm: "effect (core s) d \<Longrightarrow> core t = d \<Longrightarrow> set (ns_establishing s) \<subseteq> set (fst (snd (snd (snd d)))) \<Longrightarrow>
    snd (snd (snd (snd d))) = ns_phase s \<Longrightarrow> loops t = loops s \<Longrightarrow> quiet s t"
  unfolding quiet_def by (simp add: r_into_rtranclp calm_def core_def)

lemma quiet_calls [simp]:
  "quiet s (call_data h i p t) = quiet s t" "quiet s (call_connection c i t) = quiet s t"
  "quiet s (spawn_event ev i e t) = quiet s t" "quiet s (run_spawned k t) = quiet s t" "quiet s (sig_request q t) = quiet s t"
  "quiet s (lib_do qs t) = quiet s t"
  by (simp_all add: quiet_def)

lemma effect_touch:
  "ns_heap s r = Some x \<Longrightarrow> same_control x y \<Longrightarrow> quiet s (set_session r y s)"
  by (rule one_calm [OF _ core_set_session]) (simp_all add: core_def Touch)

lemma process_data_effects: "process_data r data s = Ok t \<Longrightarrow> quiet s t"
  by (cases "ns_heap s r")
    (auto simp: process_data_def go_bind_Ok_iff intro!: effect_touch split: list.splits if_splits)

lemma processor_effects:
  "voice_processor r s = Some (t, b) \<Longrightarrow> quiet s t"
  "webcam_processor r s = Some (t, b) \<Longrightarrow> quiet s t"
  "screen_processor r s = Some (t, b) \<Longrightarrow> quiet s t"
  by (cases "ns_heap s r";
      auto simp: voice_processor_def webcam_processor_def screen_processor_def
        intro: effect_touch split: option.splits prod.splits)+

lemma handle_datagram_effects: "handle_datagram cr n r d s = Ok t \<Longrightarrow> quiet s t"
  using process_data_effects
  by (cases "ns_heap s r"; auto simp: handle_datagram_def go_bind_Ok_iff split: outcome.splits if_splits)

lemma handle_uni_stream_effects: "handle_uni_stream cr n r st s = Ok t \<Longrightarrow> quiet s t"
  using process_data_effects
  by (cases "ns_heap s r"; auto simp: handle_uni_stream_def go_bind_Ok_iff split: outcome.splits if_splits)

lemma effect_Drop:
  assumes "ns_heap s r = Some x"
    "core t = (unmap r (repo_lookup (ns_repo s)), ns_heap s, ns_next s, ns_establishing s, ns_phase s)" "loops t = loops s"
  shows "quiet s t"
  using assms by (intro one_calm [OF _ assms(2)]) (simp_all add: core_def Drop)

lemma effect_Shut:
  assumes "ns_heap s r = Some x" "\<not> Closing x"
    "core t = (repo_lookup (ns_repo s), (ns_heap s)(r \<mapsto> leaving_session (Deleting l) x), ns_next s,
               ns_establishing s, ns_phase s)" "loops t = loops s"
  shows "quiet s t"
  using assms by (intro one_calm [OF _ assms(3)]) (simp_all add: core_def Shut)

lemma effect_Gone:
  assumes "ns_heap s r = Some x" "Leaving x = Some (Deleting l)"
    "core t = (unmap r (repo_lookup (ns_repo s)), (ns_heap s)(r \<mapsto> x\<lparr>Leaving := Some (Telling l)\<rparr>), ns_next s,
               ns_establishing s, ns_phase s)" "loops t = loops s"
  shows "quiet s t"
  using assms by (intro one_calm [OF _ assms(3)]) (simp_all add: core_def Gone)

lemma effect_Told:
  assumes "ns_heap s r = Some x" "Leaving x = Some (Telling l)"
    "core t = (repo_lookup (ns_repo s), (ns_heap s)(r \<mapsto> x\<lparr>Leaving := None\<rparr>), ns_next s,
               ns_establishing s, ns_phase s)" "loops t = loops s"
  shows "quiet s t"
  using assms by (intro one_calm [OF _ assms(3)]) (simp_all add: core_def Told)

text \<open>Taking a session off the store by its own id unmaps every id it is stored under.\<close>

lemma drop_unmap:
  assumes "net_ok s" "ns_heap s r = Some x" "UserID y = UserID x"
  shows "repo_lookup (ns_repo (drop_from_repo r y s)) = unmap r (repo_lookup (ns_repo s))"
  using drop_own_lookup [OF assms] by (simp add: unmap_def fun_eq_iff)

lemma begin_effects:
  assumes "net_ok s" "disconnect_begin r leave s = Ok t"
  shows "quiet s t"
proof (cases "ns_heap s r")
  case None
  then show ?thesis using assms(2) by (simp add: disconnect_begin_def)
next
  case (Some x)
  show ?thesis
  proof (cases "Closing x")
    case False
    then have "t = set_session r (leaving_session (Deleting leave) x) (lib_do (close_calls x) s)"
      using assms(2) disconnect_begin_eq [OF assms(1) Some] by simp
    then show ?thesis by (intro effect_Shut [OF Some False]) (simp_all add: core_set_session)
  qed (use assms(2) disconnect_begin_eq [OF assms(1) Some] in simp)
qed

lemma disconnect_turn_effects:
  assumes "net_ok s" "disconnect_turn r s = Some t"
  shows "quiet s t"
proof -
  obtain x st where x: "ns_heap s r = Some x" "Leaving x = Some st"
    using assms(2) by (auto simp: disconnect_turn_def split: option.splits)
  show ?thesis
  proof (cases st)
    case (Deleting l)
    then have "t = set_session r (x\<lparr>Leaving := Some (Telling l)\<rparr>) (drop_from_repo r x s)"
      using assms(2) x by (simp add: disconnect_turn_def)
    then show ?thesis
      using x(2) Deleting drop_unmap [OF assms(1) x(1)] by (intro effect_Gone [OF x(1)]) (simp_all add: core_set_session)
  next
    case (Telling l)
    then have "core t = core (set_session r (x\<lparr>Leaving := None\<rparr>) s)" "loops t = loops s"
      using assms(2) x by (auto simp: disconnect_turn_def Let_def)
    then show ?thesis using x(2) Telling by (intro effect_Told [OF x(1)]) (simp_all add: core_set_session)
  qed
qed

lemma disconnect_rest_effects:
  assumes "net_ok s"
  shows "quiet s (disconnect_rest r s)"
  using disconnect_turn_effects [OF assms] disconnect_turn_effects disconnect_turn_ok [OF assms]
  by (fastforce simp: disconnect_rest_def split: option.split intro: quiet_trans)

lemma disconnect_effects:
  assumes "net_ok s" "disconnect_session r leave s = Ok t"
  shows "quiet s t"
proof -
  obtain u where u: "disconnect_begin r leave s = Ok u" "t = disconnect_rest r u"
    using assms(2) by (auto simp: disconnect_session_def go_bind_Ok_iff)
  show ?thesis
    using quiet_trans [OF begin_effects [OF assms(1) u(1)]
        disconnect_rest_effects [OF disconnect_begin_ok [OF assms(1) u(1)], of r]] u(2) by simp
qed

lemma reset_effects:
  assumes "net_ok s" "reset_session r s = Ok t"
  shows "quiet s t"
proof (cases "ns_heap s r")
  case None
  then show ?thesis using assms(2) by (simp add: reset_session_def)
next
  case (Some x)
  have "core (drop_from_repo r x (lib_do (close_calls x) s)) =
      (unmap r (repo_lookup (ns_repo s)), ns_heap s, ns_next s, ns_establishing s, ns_phase s)"
    using drop_unmap [of "lib_do (close_calls x) s" r x x] assms(1) Some by (simp add: core_def)
  then have "quiet s (drop_from_repo r x (lib_do (close_calls x) s))"
    by (rule effect_Drop [OF Some]) simp
  then show ?thesis using assms(2) Some by (simp add: reset_session_def)
qed

lemma create_session_loops: "create_session env rid b s = (c, u) \<Longrightarrow> loops u = loops s"
  by (auto simp: create_session_def alloc_session_def try_op_def Let_def loops_def sig_request_def lib_do_def
      split: outcome.splits prod.splits if_splits)

lemma create_effects:
  assumes "create_and_establish env rid b s = (res, t)"
  shows "quiet s t"
proof -
  obtain c u where cu: "create_session env rid b s = (c, u)" by (cases "create_session env rid b s")
  have loops: "loops t = loops s"
    using create_session_loops [OF cu] assms cu
    by (cases c) (auto simp: create_and_establish_def try_op_def loops_def)
  have "create_result s rid b (c, u)" using create_session_result [of s rid b env] cu by simp
  then consider e where "c = Err e" "net_core u = net_core s"
    | e agent where "c = Err e" "net_core u = (ns_repo s,
        (ns_heap s)(ns_next s \<mapsto> new_session rid agent b), Suc (ns_next s), ns_establishing s, ns_phase s)"
    | agent where "c = Ok (ns_next s)" "repo_lookup (ns_repo s) rid = None"
        "net_core u = ((rid, ns_next s) # ns_repo s,
          (ns_heap s)(ns_next s \<mapsto> new_session rid agent b), Suc (ns_next s), ns_establishing s, ns_phase s)"
    by (auto simp: create_result_def)
  then show ?thesis
  proof cases
    case 1
    then have "core t = core s"
      using assms cu core_net_core [of u s] by (simp add: create_and_establish_def try_op_def)
    then show ?thesis using loops by (rule quiet_same)
  next
    case (2 e agent)
    then have "core t = (repo_lookup (ns_repo s), (ns_heap s)(ns_next s \<mapsto> new_session rid agent b),
        Suc (ns_next s), ns_establishing s, ns_phase s)"
      using assms cu by (auto simp: create_and_establish_def try_op_def core_def net_core_def)
    then show ?thesis using loops by (intro one_calm) (auto simp: core_def intro: Alloc)
  next
    case (3 agent)
    then have "core t = ((repo_lookup (ns_repo s))(rid \<mapsto> ns_next s),
        (ns_heap s)(ns_next s \<mapsto> new_session rid agent b), Suc (ns_next s), ns_establishing s @ [ns_next s], ns_phase s)"
      using assms cu by (auto simp: create_and_establish_def try_op_def core_def net_core_def repo_lookup_def)
    then show ?thesis using loops 3(2) by (intro one_calm) (auto simp: core_def intro: Store)
  qed
qed

text \<open>The core and the loops after a turn of the goroutine: one phase on, joined, or given up.\<close>

definition shutting :: "'c net \<Rightarrow> bool \<times> 'c list list" where
  "shutting s = (ns_closing s, ns_spawned s)"

lemma shutting_frame [simp]:
  "shutting (in_phase r p s) = shutting s" "shutting (established r s) = shutting s"
  "shutting (set_session r y s) = shutting s" "shutting (lib_do qs s) = shutting s"
  "shutting (drop_from_repo r x s) = shutting s" "shutting (handle_connection r s) = shutting s"
  "shutting (call_connection h i s) = shutting s"
  by (simp_all add: shutting_def established_def set_session_def lib_do_def drop_from_repo_def handle_connection_def
      call_connection_def split: option.split)

definition advanced_core :: "sref \<Rightarrow> session \<Rightarrow> 'c net \<Rightarrow> 'c net \<Rightarrow> bool" where
  "advanced_core r x s t \<longleftrightarrow> (\<exists>p y. advance (ns_phase s r) p x y \<and>
     core t = (repo_lookup (ns_repo s), (ns_heap s)(r \<mapsto> y), ns_next s, ns_establishing s, (ns_phase s)(r := p)) \<and>
     loops t = loops s \<and> ns_repo t = ns_repo s \<and> shutting t = shutting s)"

definition joined_core :: "sref \<Rightarrow> session \<Rightarrow> 'c net \<Rightarrow> 'c net \<Rightarrow> bool" where
  "joined_core r x s t \<longleftrightarrow> ns_phase s r = Finishing \<and>
     core t = (repo_lookup (ns_repo s), (ns_heap s)(r \<mapsto> ready_session x), ns_next s,
       filter (\<lambda>q. q \<noteq> r) (ns_establishing s), (ns_phase s)(r := AwaitCreds)) \<and>
     loops t = (ns_handling s @ session_loops r, ns_reconnecting s) \<and> ns_repo t = ns_repo s \<and> shutting t = shutting s"

definition gave_up_core :: "sref \<Rightarrow> 'c net \<Rightarrow> 'c net \<Rightarrow> bool" where
  "gave_up_core r s t \<longleftrightarrow> ns_phase s r = Resetting \<and>
     core t = (unmap r (repo_lookup (ns_repo s)), ns_heap s, ns_next s,
       filter (\<lambda>q. q \<noteq> r) (ns_establishing s), (ns_phase s)(r := AwaitCreds)) \<and> loops t = loops s \<and>
     shutting t = shutting s \<and> (\<exists>x. ns_repo t = ns_repo (drop_from_repo r x s))"

lemma core_in_phase [simp]:
  "core (in_phase r p s) = (repo_lookup (ns_repo s), ns_heap s, ns_next s, ns_establishing s, (ns_phase s)(r := p))"
  "loops (in_phase r p s) = loops s" "loops (established r s) = loops s"
  by (simp_all add: core_def loops_def established_def)

lemma advanced:
  assumes "advance (ns_phase s r) p x y" "ns_heap s r = Some x"
  shows "advanced_core r x s (in_phase r p (set_session r y (lib_do qs s)))"
  using assms by (auto simp: advanced_core_def)

text \<open>A turn that fails closes \<open>ReadyChan\<close> and leaves the rest of the session as it is.\<close>

lemma failed_shape:
  assumes "end_turn r next (Err e, lib_do qs s) = Ok t" "ns_heap s r = Some x" "\<not> ch_closed (ReadyChan x)"
    "ns_phase s r \<in> {AwaitCreds, Dialing, Exchanging, Streaming}"
  shows "advanced_core r x s t"
proof -
  have "t = in_phase r Resetting (set_session r (ready_session x) (lib_do qs s))"
    using assms(1-3) by (simp add: end_turn_def close_ready_def chan_close_def ready_session_def)
  then show ?thesis using advanced [OF Failed [OF assms(4)] assms(2)] by simp
qed

lemma establish_shape:
  assumes "net_ok s" "r \<in> set (ns_establishing s)" "ns_heap s r = Some x"
    "establish_turn cr env r s = Some (Ok t)"
  shows "advanced_core r x s t \<or> joined_core r x s t \<or> gave_up_core r s t"
proof -
  have ready: "ch_closed (ReadyChan x) \<longleftrightarrow> ns_phase s r = Resetting" using net_okD(6) [OF assms(1,2)] assms(3) by auto
  note adv = advanced [where qs = "[]", simplified]
  have fail_lib: "advanced_core r x s t"
    if "end_turn r nx (Err e, lib_do qs s) = Ok t" "ns_phase s r \<in> {AwaitCreds, Dialing, Exchanging, Streaming}" for nx e qs
    using failed_shape [OF that(1) assms(3) _ that(2)] ready that(2) by auto
  have fail: "advanced_core r x s t"
    if "end_turn r nx (Err e, s) = Ok t" "ns_phase s r \<in> {AwaitCreds, Dialing, Exchanging, Streaming}" for nx e
    using fail_lib [of nx e "[]"] that by simp
  show ?thesis
  proof (cases "ns_phase s r")
    case AwaitCreds
    then obtain p where p: "await_creds env r s = Some p" "end_turn r (in_phase r Dialing) p = Ok t"
      using assms(4) by (auto simp: establish_turn_def)
    then consider e where "p = (Err e, s)"
      | v ch where "chan_recv (CredsChan x) = Some (v, ch)" "p = (Ok (), set_session r (x\<lparr>CredsChan := ch\<rparr>) s)"
      using assms(3) by (auto simp: await_creds_def split: option.splits if_splits)
    then show ?thesis
    proof cases
      case (1 e)
      then show ?thesis using fail [of "in_phase r Dialing" e] p(2) AwaitCreds by simp
    next
      case (2 v ch)
      then show ?thesis using adv [of s r Dialing x "x\<lparr>CredsChan := ch\<rparr>"] Credited [OF 2(1)] p(2) assms(3) AwaitCreds by (simp add: end_turn_def)
    qed
  next
    case Dialing
    then have e: "end_turn r (in_phase r Exchanging) (dial_peer env r s) = Ok t" using assms(4) by (simp add: establish_turn_def)
    from assms(3) show ?thesis
    proof (cases rule: dial_peer_cases [where env = env])
      case (failed err)
      then show ?thesis using fail [of "in_phase r Exchanging" err] e Dialing by simp
    next
      case (up c)
      then show ?thesis using adv [of s r Exchanging x "x\<lparr>Conn := Some c\<rparr>"] Dialled [of x c] e assms(3) Dialing by (simp add: end_turn_def)
    qed
  next
    case Exchanging
    then have e: "end_turn r (in_phase r Streaming) (exchange_keys cr env r s) = Ok t" using assms(4) by (simp add: establish_turn_def)
    from assms(3) show ?thesis
    proof (cases rule: exchange_keys_cases [where env = env and cr = cr])
      case (failed err)
      then show ?thesis using fail [of "in_phase r Streaming"] e Exchanging by simp
    next
      case (keyed k)
      then show ?thesis using adv [of s r Streaming x "x\<lparr>Key := k\<rparr>"] Keyed [of k x] e assms(3) Exchanging by (simp add: end_turn_def)
    qed
  next
    case Streaming
    then have e: "end_turn r (in_phase r Announcing) (open_event_stream env r s) = Ok t" using assms(4) by (simp add: establish_turn_def)
    from assms(3) show ?thesis
    proof (cases rule: open_event_stream_cases [where env = env])
      case (failed err qs)
      then show ?thesis using fail_lib [of "in_phase r Announcing" err qs] e Streaming by simp
    next
      case (set st qs)
      then show ?thesis using advanced [of s r Announcing x "with_event_stream st x" qs] Streamed [of x st] e assms(3) Streaming by (simp add: end_turn_def)
    qed
  next
    case Announcing
    then have "t = in_phase r Finishing (call_connection (onPeerConnectedHandler (ns_handlers s)) (UserID x) s)"
      using assms(4) announce_peer_eq [OF assms(3)] by (simp add: establish_turn_def end_turn_def)
    moreover have "(ns_heap s)(r \<mapsto> x) = ns_heap s" using assms(3) by auto
    ultimately show ?thesis
      using Announced [of x] Announcing unfolding advanced_core_def
      by (intro disjI1 exI [of _ Finishing] exI [of _ x]) (simp add: core_def)
  next
    case Finishing
    then have "t = established r (set_session r (ready_session x) (handle_connection r s))"
      using assms(4) start_handling_eq [OF assms(3)] ready by (simp add: establish_turn_def end_turn_def ready_session_def)
    then show ?thesis using Finishing by (simp add: joined_core_def core_def loops_def shutting_def established_def handle_connection_def set_session_def)
  next
    case Resetting
    then have "t = established r (drop_from_repo r x (lib_do (close_calls x) s))"
      using assms(3,4) by (simp add: establish_turn_def reset_session_def)
    moreover have "repo_lookup (ns_repo (drop_from_repo r x (lib_do (close_calls x) s))) = unmap r (repo_lookup (ns_repo s))"
      using drop_unmap [of "lib_do (close_calls x) s" r x x] assms(1,3) by simp
    ultimately show ?thesis
      using Resetting by (auto simp: gave_up_core_def core_def) (auto simp: drop_from_repo_def)
  qed
qed

lemma establish_effects:
  assumes "net_ok s" "r \<in> set (ns_establishing s)" "establish_turn cr env r s = Some (Ok t)"
  shows "effects (core s) (core t)"
proof -
  obtain x where x: "ns_heap s r = Some x" using net_okD(6) [OF assms(1,2)] by blast
  from establish_shape [OF assms(1,2) x assms(3)] have "effect (core s) (core t)"
  proof (elim disjE)
    assume "advanced_core r x s t"
    then show ?thesis using assms(2) x by (auto simp: advanced_core_def core_def intro: Advance)
  next
    assume "joined_core r x s t"
    then show ?thesis using Join [OF assms(2), of "ns_heap s" x "ns_phase s"] x by (simp add: joined_core_def core_def)
  next
    assume "gave_up_core r s t"
    then show ?thesis using GiveUp [OF assms(2), of "ns_heap s" x "ns_phase s"] x by (simp add: gave_up_core_def core_def)
  qed
  then show ?thesis by blast
qed

lemma effect_touch_lib:
  "ns_heap s r = Some x \<Longrightarrow> same_control x y \<Longrightarrow> quiet s (set_session r y (lib_do qs s))"
  using effect_touch [of "lib_do qs s" r x y] by (simp add: quiet_def)

lemma set_remote_effects:
  "set_remote_credentials env u p r s = Ok t \<Longrightarrow> quiet s t"
  by (cases "ns_heap s r")
    (auto simp: set_remote_credentials_def go_bind_Ok_iff intro!: effect_touch_lib
      split: option.splits sum.splits)

end
