(* ===== verification/Net_Run.thy ===== *)
theory Net_Run
  imports Net_Effects
begin

text \<open>
  The networking service as a state machine: a step is one atomic part of an API call, a goroutine
  or a callback, with whatever its environment answers. Reachable states satisfy the invariant of
  the service, every stored session is open and either being established or joined, and the
  parts of a session fit together.
\<close>

section \<open>Incoming SDP messages and ICE states\<close>

lemma get_session_ok:
  assumes "net_ok s" "get_session env i s = (res, t)"
  shows "net_ok t" "quiet s t" "res \<noteq> Panic" "res = Ok r \<Longrightarrow> \<exists>x. ns_heap t r = Some x"
proof -
  obtain c u where cu: "create_and_establish (ge_create env) i False s = (c, u)"
    by (cases "create_and_establish (ge_create env) i False s")
  note made = create_and_establish_ok [OF assms(1) cu] create_effects [OF cu]
  have cases: "(t = s \<and> (\<exists>e. res = Err e)) \<or> (t = s \<and> (\<exists>r. res = Ok r \<and> repo_lookup (ns_repo s) i = Some r)) \<or>
      (t = u \<and> res = wrap_op ''networkingServ.getSession'' c)"
    using assms(2) cu
    by (cases c) (auto simp: get_session_def entry_select_def repo_get_def repo_lookup_def Let_def
        split: if_splits option.splits)
  then show "net_ok t" "quiet s t" "res \<noteq> Panic"
    using assms(1) made(1,2,6) by (cases c; auto)+
  show "res = Ok r \<Longrightarrow> \<exists>x. ns_heap t r = Some x"
    using cases net_okD(2) [OF assms(1), of i r] made(3) [of r] by (cases c) auto
qed

lemma reset_session_live:
  "ns_heap s r = Some x \<Longrightarrow> reset_session r s = Ok (drop_from_repo r x (lib_do (close_calls x) s))"
  by (simp add: reset_session_def)

text \<open>The reaction to credentials, on the session found for the sender.\<close>

lemma recreate_ok:
  assumes "net_ok s" "ns_heap s r = Some x" "create_and_establish env i False
      (drop_from_repo r x (lib_do (close_calls x) s)) = (created, s3)"
  shows "net_ok s3" "quiet s s3" "created \<noteq> Panic"
    "created = Ok q \<Longrightarrow> \<exists>y. ns_heap s3 q = Some y"
proof -
  let ?s2 = "drop_from_repo r x (lib_do (close_calls x) s)"
  have ok2: "net_ok ?s2" using assms(1) by (simp add: net_ok_drop)
  note c = create_and_establish_ok [OF ok2 assms(3)]
  show "net_ok s3" "created \<noteq> Panic" by (fact c(1), fact c(2))
  show "quiet s s3"
    using reset_effects [OF assms(1) reset_session_live [OF assms(2)]]
      create_effects [OF assms(3)] by (rule quiet_trans)
  show "created = Ok q \<Longrightarrow> \<exists>y. ns_heap s3 q = Some y" using c(3) [of q] by blast
qed

lemma handle_creds_ok:
  assumes "net_ok s" "ns_heap s r = Some x"
  shows "\<exists>t. (if Conn x \<noteq> None
      then go_bind (reset_session r s) (\<lambda>s2.
             let (created, s3) = create_and_establish (se_recreate env) i False s2
             in case created of
                  Err e \<Rightarrow> Ok s3
                | Panic \<Rightarrow> Panic
                | Ok r' \<Rightarrow> set_remote_credentials env u p r' s3)
      else set_remote_credentials env u p r s) = Ok t \<and> net_ok t \<and> quiet s t"
proof (cases "Conn x = None")
  case True
  then show ?thesis
    using set_remote_credentials_ok [OF assms, of env u p] set_remote_effects by auto
next
  case False
  obtain created s3 where c: "create_and_establish (se_recreate env) i False
      (drop_from_repo r x (lib_do (close_calls x) s)) = (created, s3)" by fastforce
  note r = recreate_ok [OF assms c]
  show ?thesis
  proof (cases created)
    case (Ok q)
    from r(4) [OF Ok] obtain y where y: "ns_heap s3 q = Some y" by blast
    obtain t where t: "set_remote_credentials env u p q s3 = Ok t" "net_ok t"
      using set_remote_credentials_ok [OF r(1) y, of env u p] by blast
    from quiet_trans [OF r(2) set_remote_effects [OF t(1)]]
    show ?thesis using False assms(2) c Ok t by (simp add: reset_session_live)
  next
    case (Err e)
    then show ?thesis using False assms(2) c r by (simp add: reset_session_live)
  next
    case Panic
    then show ?thesis using r(3) by simp
  qed
qed

lemma sdp_dispatch_ok:
  assumes "net_ok s" "ns_heap s r = Some x"
  shows "\<exists>t. sdp_dispatch env i payload r s = Ok t \<and> net_ok t \<and> quiet s t"
proof (cases "hd payload = sdp_byte CREDS")
  case True
  show ?thesis
  proof (cases "parse_creds payload")
    case None
    then show ?thesis using True assms by (simp add: sdp_dispatch_def)
  next
    case (Some up)
    obtain u p where up: "up = (u, p)" by (cases up)
    show ?thesis
      using handle_creds_ok [OF assms, of env i u p] True Some up assms(2)
      by (auto simp: sdp_dispatch_def)
  qed
next
  case False
  obtain agent where "Agent x = Some agent"
    using net_okD(3) [OF assms] by (auto simp: session_ok_def)
  then show ?thesis
    using False assms
    by (cases "hd payload = sdp_byte CANDIDATE"; cases "se_unmarshal env"; cases "se_add_candidate env")
      (auto simp: sdp_dispatch_def)
qed

lemma handle_sdp_ok:
  assumes "net_ok s"
  shows "\<exists>t. handle_sdp env i payload s = Ok t \<and> net_ok t \<and> quiet s t"
proof (cases "length payload < 2")
  case True
  then show ?thesis using assms by (simp add: handle_sdp_def)
next
  case False
  obtain got s1 where g: "get_session (se_get env) i s = (got, s1)"
    by (cases "get_session (se_get env) i s")
  note ok = get_session_ok [OF assms g]
  show ?thesis
  proof (cases got)
    case (Ok r)
    from ok(4) [OF Ok] obtain x where x: "ns_heap s1 r = Some x" by blast
    obtain t where "sdp_dispatch env i payload r s1 = Ok t" "net_ok t" "quiet s1 t"
      using sdp_dispatch_ok [OF ok(1) x] by blast
    then show ?thesis using False g Ok ok(2) by (auto simp: handle_sdp_def intro: quiet_trans)
  qed (use False g ok in \<open>auto simp: handle_sdp_def\<close>)
qed

lemma on_connection_state_ok:
  assumes "net_ok s" "ns_heap s r = Some x"
  shows "\<exists>t u. on_connection_state r c s = Ok t \<and> net_ok t \<and> net_ok u \<and> quiet s u \<and>
    (t = u \<or> t = u\<lparr>ns_reconnecting := ns_reconnecting s @ [(UserID x, None)]\<rparr>)"
proof -
  let ?t = "drop_from_repo r x (lib_do (close_calls x) s)"
  have t: "net_ok ?t" "quiet s ?t" "ns_reconnecting ?t = ns_reconnecting s"
    using assms reset_effects [OF assms(1) reset_session_live [OF assms(2)]]
    by (simp_all add: net_ok_drop) (simp add: drop_from_repo_def)
  have "net_ok (u\<lparr>ns_reconnecting := l\<rparr>) = net_ok u" for u :: "'a net" and l
    by (rule net_ok_core) (simp add: net_core_def)
  then show ?thesis
    using assms t
    by (cases "c = IceFailed \<or> c = IceDisconnected"; cases "IsInitiator x")
      (auto simp: on_connection_state_def reset_session_live)
qed

section \<open>Steps\<close>

text \<open>A loop of \<open>handleConnection\<close> after a turn: \<open>go\<close> is whether it goes on.\<close>

definition loop_next :: "sref \<times> session_loop \<Rightarrow> bool \<Rightarrow> 'c net \<Rightarrow> 'c net" where
  "loop_next l go s = (if go then s else s\<lparr>ns_handling := filter (\<lambda>k. k \<noteq> l) (ns_handling s)\<rparr>)"

text \<open>
  \<open>DatagramWork\<close> and \<open>StreamWork\<close> are the goroutines the receiving loops start, when they run later
  than the turn that started them.
\<close>

inductive net_step :: "crypto \<Rightarrow> 'c net \<Rightarrow> 'c net \<Rightarrow> bool" for cr where
  Create: "create_and_establish env rid b s = (res, t) \<Longrightarrow> net_step cr s t"
| Establish: "r \<in> set (ns_establishing s) \<Longrightarrow> establish_turn cr env r s = Some (Ok t) \<Longrightarrow>
    net_step cr s t"
| Sdp: "handle_sdp env i payload s = Ok t \<Longrightarrow> net_step cr s t"
| SdpGet: "get_session env i s = (got, t) \<Longrightarrow> net_step cr s t"
| SdpWork: "ns_heap s r = Some x \<Longrightarrow> UserID x = i \<Longrightarrow> sdp_dispatch env i payload r s = Ok t \<Longrightarrow> net_step cr s t"
| Candidate: "net_step cr s (on_candidate rid c s)"
| Ice: "on_connection_state r c s = Ok t \<Longrightarrow> net_step cr s t"
| ReconnectTry: "(rid, None) \<in> set (ns_reconnecting s) \<Longrightarrow> reconnect_try env rid s = (turn, t) \<Longrightarrow>
    net_step cr s (reconnect_moves (rid, None) turn t)"
| ReconnectReady: "(rid, Some r) \<in> set (ns_reconnecting s) \<Longrightarrow> reconnect_ready r s = Some turn \<Longrightarrow>
    net_step cr s (reconnect_moves (rid, Some r) turn s)"
| Datagram: "(r, DatagramLoop) \<in> set (ns_handling s) \<Longrightarrow>
    receive_datagrams_turn cr n r d s = Ok (t, go) \<Longrightarrow> net_step cr s (loop_next (r, DatagramLoop) go t)"
| DatagramWork: "handle_datagram cr n r d s = Ok t \<Longrightarrow> net_step cr s t"
| Stream: "(r, StreamLoop) \<in> set (ns_handling s) \<Longrightarrow>
    receive_streams_turn cr n r st s = Ok (t, go) \<Longrightarrow> net_step cr s (loop_next (r, StreamLoop) go t)"
| StreamWork: "handle_uni_stream cr n r st s = Ok t \<Longrightarrow> net_step cr s t"
| Events: "(r, EventLoop) \<in> set (ns_handling s) \<Longrightarrow>
    process_event_turn h r e s = Ok (t, go) \<Longrightarrow> net_step cr s (loop_next (r, EventLoop) go t)"
| EventWork: "net_step cr s (run_spawned k s)"
| Voice: "(r, VoiceLoop) \<in> set (ns_handling s) \<Longrightarrow>
    voice_processor r s = Some (t, go) \<Longrightarrow> net_step cr s (loop_next (r, VoiceLoop) go t)"
| Webcam: "(r, WebcamLoop) \<in> set (ns_handling s) \<Longrightarrow>
    webcam_processor r s = Some (t, go) \<Longrightarrow> net_step cr s (loop_next (r, WebcamLoop) go t)"
| Screen: "(r, ScreenLoop) \<in> set (ns_handling s) \<Longrightarrow>
    screen_processor r s = Some (t, go) \<Longrightarrow> net_step cr s (loop_next (r, ScreenLoop) go t)"
| Disconnect: "disconnect_begin r leave s = Ok t \<Longrightarrow> net_step cr s t"
| Leaving: "disconnect_turn r s = Some t \<Longrightarrow> net_step cr s t"
| Handlers: "net_step cr s (s\<lparr>ns_handlers := h\<rparr>)"
| Signal: "net_step cr s (sig_request q s)"
| Count: "net_step cr s (s\<lparr>ns_sendDatagramLogCount := a, ns_sendStreamLogCount := b, ns_fetchLogCount := c\<rparr>)"
| Close: "net_step cr s (s\<lparr>ns_closing := True\<rparr>)"

inductive reachable :: "crypto \<Rightarrow> 'c net \<Rightarrow> bool" for cr where
  Init: "reachable cr (new_networking_serv i cfg new_session_repository)"
| Step: "reachable cr s \<Longrightarrow> net_step cr s t \<Longrightarrow> reachable cr t"

inductive_cases net_stepE: "net_step cr s t"

lemma handle_datagram_ok:
  assumes "net_ok s" "handle_datagram cr n r d s = Ok t"
  shows "net_ok t"
  using assms process_data_ok [OF assms(1)]
  by (cases "ns_heap s r"; auto simp: handle_datagram_def go_bind_Ok_iff split: outcome.splits if_splits)

lemma handle_uni_stream_ok:
  assumes "net_ok s" "handle_uni_stream cr n r st s = Ok t"
  shows "net_ok t"
  using assms process_data_ok [OF assms(1)]
  by (cases "ns_heap s r"; auto simp: handle_uni_stream_def go_bind_Ok_iff split: outcome.splits if_splits)

text \<open>A turn of a receiving loop is one of the above or a disconnect, which ends the loop.\<close>

lemma turn_cases:
  "receive_datagrams_turn cr n r d s = Ok (t, go) \<Longrightarrow>
     go \<and> (\<exists>x. handle_datagram cr n r x s = Ok t) \<or> \<not> go \<and> disconnect_begin r False s = Ok t"
  "receive_streams_turn cr n r st s = Ok (t, go) \<Longrightarrow>
     go \<and> (\<exists>x. handle_uni_stream cr n r x s = Ok t) \<or> \<not> go \<and> disconnect_begin r False s = Ok t"
  "process_event_turn h r e s = Ok (t, go) \<Longrightarrow>
     go \<and> (\<exists>i x. t = spawn_event h i x s) \<or> \<not> go \<and> disconnect_begin r False s = Ok t"
  by (auto simp: receive_datagrams_turn_def receive_streams_turn_def process_event_turn_def
      with_session_def go_bind_Ok_iff split: outcome.splits option.splits if_splits)

lemma net_core_next [simp]:
  "net_core (loop_next l go s) = net_core s" "net_core (reconnect_moves p turn s) = net_core s"
  by (simp_all add: loop_next_def reconnect_moves_def net_core_def)

lemma core_next [simp]:
  "core (loop_next l go s) = core s" "core (reconnect_moves p turn s) = core s"
  by (simp_all add: loop_next_def reconnect_moves_def core_def)

lemma net_ok_next [simp]:
  "net_ok (loop_next l go s) = net_ok s" "net_ok (reconnect_moves p turn s) = net_ok s"
  by (rule net_ok_core, simp)+

text \<open>The session is closed once a disconnect has begun, and when a processor ends.\<close>

definition session_closed :: "'c net \<Rightarrow> sref \<Rightarrow> bool" where
  "session_closed s r \<longleftrightarrow> (\<exists>x. ns_heap s r = Some x \<and> Closing x)"

lemma disconnect_closes:
  assumes "net_ok s" "disconnect_begin r leave s = Ok t"
  shows "net_ok t" "quiet s t" "session_closed t r"
proof -
  show "net_ok t" "quiet s t"
    using disconnect_begin_ok [OF assms] begin_effects [OF assms] by simp_all
  show "session_closed t r"
  proof (cases "ns_heap s r")
    case None
    then show ?thesis using assms(2) by (simp add: disconnect_begin_def)
  next
    case (Some x)
    then show ?thesis
      using assms(2) disconnect_begin_eq [OF assms(1) Some, of leave]
      by (auto simp: session_closed_def split: if_splits)
  qed
qed

lemma processor_turn:
  assumes "net_ok s"
  shows "voice_processor r s = Some (t, go) \<Longrightarrow> net_ok t \<and> quiet s t \<and> (\<not> go \<longrightarrow> session_closed t r)"
    "webcam_processor r s = Some (t, go) \<Longrightarrow> net_ok t \<and> quiet s t \<and> (\<not> go \<longrightarrow> session_closed t r)"
    "screen_processor r s = Some (t, go) \<Longrightarrow> net_ok t \<and> quiet s t \<and> (\<not> go \<longrightarrow> session_closed t r)"
proof -
  have closed: "session_closed s r"
    if "ns_heap s r = Some x" "ch_closed (VoiceChan x) \<or> ch_closed (WebcamChan x) \<or> ch_closed (ScreenChan x)" for x
    using that net_okD(3) [OF assms that(1)] by (auto simp: session_closed_def session_ok_def)
  have recv: "chan_recv c = Some (None, c') \<Longrightarrow> ch_closed c" for c c' :: "bytes chan"
    by (auto simp: chan_recv_def split: list.splits if_splits)
  show "net_ok t \<and> quiet s t \<and> (\<not> go \<longrightarrow> session_closed t r)" if "voice_processor r s = Some (t, go)"
    using voice_processor_ok [OF assms that] processor_effects(1) [OF that] that closed recv
    by (auto simp: voice_processor_def split: option.splits prod.splits)
  show "net_ok t \<and> quiet s t \<and> (\<not> go \<longrightarrow> session_closed t r)" if "webcam_processor r s = Some (t, go)"
    using webcam_processor_ok [OF assms that] processor_effects(2) [OF that] that closed recv
    by (auto simp: webcam_processor_def split: option.splits prod.splits)
  show "net_ok t \<and> quiet s t \<and> (\<not> go \<longrightarrow> session_closed t r)" if "screen_processor r s = Some (t, go)"
    using screen_processor_ok [OF assms that] processor_effects(3) [OF that] that closed recv
    by (auto simp: screen_processor_def split: option.splits prod.splits)
qed

lemma receive_turn:
  assumes "net_ok s"
  shows "receive_datagrams_turn cr n r d s = Ok (t, go) \<Longrightarrow> net_ok t \<and> quiet s t \<and> (\<not> go \<longrightarrow> session_closed t r)"
    "receive_streams_turn cr n r st s = Ok (t, go) \<Longrightarrow> net_ok t \<and> quiet s t \<and> (\<not> go \<longrightarrow> session_closed t r)"
    "process_event_turn h r e s = Ok (t, go) \<Longrightarrow> net_ok t \<and> quiet s t \<and> (\<not> go \<longrightarrow> session_closed t r)"
proof -
  have disc: "disconnect_begin r False s = Ok t \<Longrightarrow> net_ok t \<and> quiet s t \<and> (\<not> go \<longrightarrow> session_closed t r)"
    using disconnect_closes [OF assms] by blast
  show "net_ok t \<and> quiet s t \<and> (\<not> go \<longrightarrow> session_closed t r)" if "receive_datagrams_turn cr n r d s = Ok (t, go)"
    using turn_cases(1) [OF that] disc handle_datagram_ok [OF assms] handle_datagram_effects by blast
  show "net_ok t \<and> quiet s t \<and> (\<not> go \<longrightarrow> session_closed t r)" if "receive_streams_turn cr n r st s = Ok (t, go)"
    using turn_cases(2) [OF that] disc handle_uni_stream_ok [OF assms] handle_uni_stream_effects by blast
  have "net_ok (spawn_event h i x s)" for i x
    using assms net_ok_core [of "spawn_event h i x s" s] by (simp add: net_core_def go_frame)
  then show "net_ok t \<and> quiet s t \<and> (\<not> go \<longrightarrow> session_closed t r)" if "process_event_turn h r e s = Ok (t, go)"
    using turn_cases(3) [OF that] disc by auto
qed

text \<open>
  What a step does besides: the goroutine of a session may end when the session is closed, and the
  loop that reconnects to a peer waits for a session that is being established.
\<close>

definition reconnects_from :: "'c net \<Rightarrow> 'c net \<Rightarrow> bool" where
  "reconnects_from s t \<longleftrightarrow> (\<forall>p \<in> set (ns_reconnecting t). p \<in> set (ns_reconnecting s) \<or>
     (case snd p of None \<Rightarrow> True | Some r \<Rightarrow> r \<in> set (ns_establishing t)))"

definition step_over :: "'c net \<Rightarrow> 'c net \<Rightarrow> 'c net \<Rightarrow> bool" where
  "step_over s u t \<longleftrightarrow> quiet s u \<and> net_ok t \<and> core t = core u \<and>
     (ns_handling t = ns_handling s \<or>
      (\<exists>l. ns_handling t = filter (\<lambda>k. k \<noteq> l) (ns_handling s) \<and> session_closed t (fst l))) \<and>
     reconnects_from s t"

lemma step_over_quiet: "quiet s t \<Longrightarrow> net_ok t \<Longrightarrow> step_over s t t"
  by (simp add: step_over_def quiet_def loops_def reconnects_from_def)

lemma step_over_loop:
  assumes "net_ok u \<and> quiet s u \<and> (\<not> go \<longrightarrow> session_closed u r)"
  shows "step_over s u (loop_next (r, l) go u)"
proof (cases go)
  case True
  then show ?thesis using assms step_over_quiet [of s u] by (simp add: loop_next_def)
next
  case False
  let ?t = "loop_next (r, l) go u"
  have "ns_handling ?t = filter (\<lambda>k. k \<noteq> (r, l)) (ns_handling s)" "session_closed ?t r"
    "ns_reconnecting ?t = ns_reconnecting s"
    using False assms by (simp_all add: loop_next_def quiet_def loops_def session_closed_def)
  then show ?thesis using assms by (auto simp: step_over_def reconnects_from_def)
qed

text \<open>Every step establishes a session or is quiet but for the loops.\<close>

lemma net_step_shape:
  fixes s t :: "'c net"
  assumes "net_step cr s t" "net_ok s"
  shows "(\<exists>r env. r \<in> set (ns_establishing s) \<and> establish_turn cr env r s = Some (Ok t)) \<or>
    (\<exists>u. step_over s u t)"
proof -
  have plain: "\<exists>u. step_over s u t" if "net_core t = net_core s" "loops t = loops s"
    using step_over_quiet [of s t] quiet_same [OF core_net_core that(2)] net_ok_core [of t s] that assms(2) by auto
  have made: "create_and_establish env rid b s = (res, u) \<Longrightarrow> net_ok u \<and> quiet s u"
    for env rid b res u
    using create_and_establish_ok(1) [OF assms(2)] create_effects by blast
  from assms(1) show ?thesis
  proof (cases rule: net_step.cases)
    case (Create env rid b res)
    then show ?thesis using made step_over_quiet by blast
  next
    case (Establish r env)
    then show ?thesis by blast
  next
    case (Sdp env i payload)
    then show ?thesis using handle_sdp_ok [OF assms(2), of env i payload] step_over_quiet [of s t] by auto
  next
    case (SdpGet env i got)
    then show ?thesis using get_session_ok(1,2) [OF assms(2)] step_over_quiet by blast
  next
    case (SdpWork r x i env payload)
    then show ?thesis using sdp_dispatch_ok [OF assms(2) SdpWork(1), of env i payload] step_over_quiet [of s t] by auto
  next
    case (Candidate rid c)
    then show ?thesis using plain by (auto simp: on_candidate_def go_frame loops_def split: option.split)
  next
    case (Ice r c)
    show ?thesis
    proof (cases "ns_heap s r")
      case None
      then show ?thesis
        using Ice assms(2) step_over_quiet [of s s]
        by (auto simp: on_connection_state_def reset_session_def split: if_splits)
    next
      case (Some x)
      then obtain u where u: "net_ok t" "net_ok u" "quiet s u"
        "t = u \<or> t = u\<lparr>ns_reconnecting := ns_reconnecting s @ [(UserID x, None)]\<rparr>"
        using Ice on_connection_state_ok [OF assms(2) Some, of c] by auto
      then have "step_over s u t"
        by (auto simp: step_over_def core_def quiet_def loops_def reconnects_from_def)
      then show ?thesis by blast
    qed
  next
    case (ReconnectTry rid env turn u)
    have u: "net_ok u \<and> quiet s u"
      using ReconnectTry made assms(2)
      by (auto simp: reconnect_try_def Let_def split: if_splits prod.splits outcome.splits)
    have "r \<in> set (ns_establishing u)" if "turn = RcWait r" for r
      using ReconnectTry(3) that create_and_establish_ok(3) [OF assms(2)]
      by (auto simp: reconnect_try_def Let_def split: if_splits prod.splits outcome.splits)
    then have "step_over s u t"
      using u ReconnectTry(1)
      by (cases turn) (auto simp: step_over_def reconnects_from_def quiet_def loops_def,
          auto simp: reconnect_moves_def reconnect_next_def dest: set_mp [OF set_remove1_subset])
    then show ?thesis by blast
  next
    case (ReconnectReady rid r turn)
    then have "step_over s s t"
      using assms(2)
      by (cases "Conn (the (ns_heap s r))") (auto simp: step_over_def reconnects_from_def, auto simp: reconnect_moves_def reconnect_next_def reconnect_ready_def
          dest: set_mp [OF set_remove1_subset] split: option.splits if_splits)
    then show ?thesis by blast
  next
    case (Datagram r n d u go)
    then show ?thesis using step_over_loop [OF receive_turn(1) [OF assms(2) Datagram(3)]] by blast
  next
    case (DatagramWork n r d)
    then show ?thesis using handle_datagram_ok [OF assms(2)] handle_datagram_effects step_over_quiet by blast
  next
    case (Stream r n st u go)
    then show ?thesis using step_over_loop [OF receive_turn(2) [OF assms(2) Stream(3)]] by blast
  next
    case (StreamWork n r st)
    then show ?thesis using handle_uni_stream_ok [OF assms(2)] handle_uni_stream_effects step_over_quiet by blast
  next
    case (Events r h e u go)
    then show ?thesis using step_over_loop [OF receive_turn(3) [OF assms(2) Events(3)]] by blast
  next
    case (Voice r u go)
    then show ?thesis using step_over_loop [OF processor_turn(1) [OF assms(2) Voice(3)]] by blast
  next
    case (Webcam r u go)
    then show ?thesis using step_over_loop [OF processor_turn(2) [OF assms(2) Webcam(3)]] by blast
  next
    case (Screen r u go)
    then show ?thesis using step_over_loop [OF processor_turn(3) [OF assms(2) Screen(3)]] by blast
  next
    case (Disconnect r leave)
    then show ?thesis using disconnect_closes [OF assms(2)] step_over_quiet by blast
  next
    case (Leaving r)
    then show ?thesis using disconnect_turn_ok [OF assms(2)] disconnect_turn_effects [OF assms(2)] step_over_quiet by blast
  qed (use plain in \<open>auto simp: net_core_def loops_def go_frame\<close>)
qed

text \<open>The invariant of the service in terms of the core.\<close>

definition core_sound :: "core \<Rightarrow> bool" where
  "core_sound = (\<lambda>(m, h, n, es, ph).
     (\<forall>i r. m i = Some r \<longrightarrow> (\<exists>x. h r = Some x \<and> UserID x = i)) \<and>
     (\<forall>r x. h r = Some x \<longrightarrow> session_ok x \<and> r < n) \<and> distinct es \<and>
     (\<forall>r \<in> set es. \<exists>x. h r = Some x \<and> (ch_closed (ReadyChan x) \<longleftrightarrow> ph r = Resetting)) \<and>
     (\<forall>r. r \<notin> set es \<longrightarrow> ph r = AwaitCreds))"

lemma net_ok_sound: "net_ok s \<longleftrightarrow> repo_valid (ns_repo s) \<and> core_sound (core s)"
  by (simp add: net_ok_def core_sound_def core_def)

text \<open>Every step keeps the invariant and is a sequence of effects.\<close>

lemma core_sound_update:
  assumes "core_sound (m, h, n, es, ph)" "h r = Some x" "session_ok y" "UserID y = UserID x"
    and "\<And>i q. m' i = Some q \<Longrightarrow> m i = Some q"
    and "r \<in> set es' \<Longrightarrow> ch_closed (ReadyChan y) \<longleftrightarrow> p = Resetting" "r \<notin> set es' \<Longrightarrow> p = AwaitCreds"
    and "\<And>q. q \<noteq> r \<Longrightarrow> q \<in> set es' \<longleftrightarrow> q \<in> set es" "distinct es'"
  shows "core_sound (m', h(r \<mapsto> y), n, es', ph(r := p))"
proof -
  have stored: "\<exists>z. (h(r \<mapsto> y)) q = Some z \<and> UserID z = i" if "m' i = Some q" for i q
    using assms(1,2,4) assms(5) [OF that] by (fastforce simp: core_sound_def)
  have est: "\<exists>z. (h(r \<mapsto> y)) q = Some z \<and> (ch_closed (ReadyChan z) \<longleftrightarrow> (ph(r := p)) q = Resetting)"
    if "q \<in> set es'" for q
    using that assms(1,6) assms(8) [of q] by (cases "q = r") (auto simp: core_sound_def)
  have "(ph(r := p)) q = AwaitCreds" if "q \<notin> set es'" for q
    using that assms(1,7) assms(8) [of q] by (cases "q = r") (auto simp: core_sound_def)
  with stored est show ?thesis using assms(1,2,3,9) unfolding core_sound_def by auto
qed

lemma advance_ok:
  assumes "advance p q x y" "session_ok x" "\<not> ch_closed (ReadyChan x)"
  shows "session_ok y \<and> UserID y = UserID x \<and> (ch_closed (ReadyChan y) \<longleftrightarrow> q = Resetting)"
  using assms
proof (cases rule: advance.cases)
  case (Credited v ch)
  then show ?thesis using assms(2,3) by (auto simp: session_ok_def chan_ok_def dest: chan_recv_SomeD)
qed (simp_all add: session_ok_def ready_session_def chan_ok_def with_event_stream_def)

lemma establish_turn_ok:
  assumes "net_ok s" "r \<in> set (ns_establishing s)" "establish_turn cr env r s = Some (Ok t)"
  shows "net_ok t"
proof -
  obtain x where x: "ns_heap s r = Some x" "ch_closed (ReadyChan x) \<longleftrightarrow> ns_phase s r = Resetting"
    using net_okD(6) [OF assms(1,2)] by blast
  have I: "core_sound (repo_lookup (ns_repo s), ns_heap s, ns_next s, ns_establishing s, ns_phase s)"
    and v: "repo_valid (ns_repo s)" and d: "distinct (ns_establishing s)"
    using assms(1) by (simp_all add: net_ok_sound core_def) (simp add: core_sound_def)
  note ok = net_okD(3) [OF assms(1) x(1)]
  note upd = core_sound_update [OF I x(1)]
  from establish_shape [OF assms(1,2) x(1) assms(3)] show ?thesis
  proof (elim disjE)
    assume "advanced_core r x s t"
    then obtain p y where y: "advance (ns_phase s r) p x y"
      "core t = (repo_lookup (ns_repo s), (ns_heap s)(r \<mapsto> y), ns_next s, ns_establishing s, (ns_phase s)(r := p))"
      "ns_repo t = ns_repo s" by (auto simp: advanced_core_def)
    have "ns_phase s r \<noteq> Resetting" using y(1) by (cases rule: advance.cases) auto
    then have "session_ok y \<and> UserID y = UserID x \<and> (ch_closed (ReadyChan y) \<longleftrightarrow> p = Resetting)"
      using advance_ok [OF y(1) ok] x(2) by simp
    then show ?thesis unfolding net_ok_sound y(2,3) using v d assms(2) by (auto intro: upd)
  next
    assume j: "joined_core r x s t"
    have "session_ok (ready_session x)" using ok by (simp add: session_ok_def ready_session_def)
    then show ?thesis using j v d by (auto simp: net_ok_sound joined_core_def intro: upd)
  next
    assume g: "gave_up_core r s t"
    then obtain z where "ns_repo t = ns_repo (drop_from_repo r z s)" by (auto simp: gave_up_core_def)
    then have "repo_valid (ns_repo t)" using net_okD(1) [OF net_ok_drop [OF assms(1)]] by simp
    moreover have "core_sound (unmap r (repo_lookup (ns_repo s)), (ns_heap s)(r \<mapsto> x), ns_next s,
        filter (\<lambda>q. q \<noteq> r) (ns_establishing s), (ns_phase s)(r := AwaitCreds))"
      by (rule upd) (use ok d in \<open>auto simp: unmap_def split: if_splits\<close>)
    ultimately show ?thesis using g x(1) by (simp add: net_ok_sound gave_up_core_def fun_upd_idem)
  qed
qed

lemma net_step_effects:
  assumes "net_step cr s t" "net_ok s"
  shows "net_ok t \<and> effects (core s) (core t)"
proof -
  consider r env where "r \<in> set (ns_establishing s)" "establish_turn cr env r s = Some (Ok t)"
    | u where "step_over s u t" using net_step_shape [OF assms] by blast
  then show ?thesis
  proof cases
    case 1
    then show ?thesis using establish_effects [OF assms(2) 1] establish_turn_ok [OF assms(2) 1] by blast
  next
    case 2
    then show ?thesis using quiet_effects [of s u] by (simp add: step_over_def)
  qed
qed

section \<open>The invariant of sessions and store\<close>

text \<open>
  A session whose establishing goroutine is in a phase; one that joined; and how the parts of any
  session fit together: the JSON coders are bound to the event stream and made with the session's
  key, a key has 32 bytes and comes after the connection.
\<close>

definition fresh_session :: "session \<Rightarrow> bool" where
  "fresh_session x \<longleftrightarrow>
     Conn x = None \<and> Key x = [] \<and> EventStream x = None \<and> \<not> ch_closed (ReadyChan x)"

fun in_stage :: "est_phase \<Rightarrow> session \<Rightarrow> bool" where
  "in_stage AwaitCreds x = fresh_session x"
| "in_stage Dialing x = fresh_session x"
| "in_stage Exchanging x =
     (Conn x \<noteq> None \<and> Key x = [] \<and> EventStream x = None \<and> \<not> ch_closed (ReadyChan x))"
| "in_stage Streaming x =
     (Conn x \<noteq> None \<and> length (Key x) = 32 \<and> EventStream x = None \<and> \<not> ch_closed (ReadyChan x))"
| "in_stage Resetting x = (EventStream x = None \<and> ch_closed (ReadyChan x))"
| "in_stage p x =
     (Conn x \<noteq> None \<and> length (Key x) = 32 \<and> EventStream x \<noteq> None \<and> \<not> ch_closed (ReadyChan x))"

definition joined_session :: "session \<Rightarrow> bool" where
  "joined_session x \<longleftrightarrow>
     Conn x \<noteq> None \<and> length (Key x) = 32 \<and> EventStream x \<noteq> None \<and> ch_closed (ReadyChan x)"

definition typed_session :: "session \<Rightarrow> bool" where
  "typed_session x \<longleftrightarrow>
     EventDecoder x = map_option (\<lambda>e. (e, Key x)) (EventStream x) \<and>
     EventEncoder x = map_option (\<lambda>e. (e, Key x)) (EventStream x) \<and>
     (Key x = [] \<or> length (Key x) = 32) \<and>
     (EventStream x \<noteq> None \<longrightarrow> Key x \<noteq> []) \<and> (Key x \<noteq> [] \<longrightarrow> Conn x \<noteq> None) \<and>
     (Leaving x \<noteq> None \<longrightarrow> Closing x)"

text \<open>A session that may be stored: the call that disconnects it, if any, has not come to the store yet.\<close>

definition present :: "session \<Rightarrow> bool" where
  "present x \<longleftrightarrow> (Closing x \<longrightarrow> (\<exists>l. Leaving x = Some (Deleting l)))"

lemma present_simps [simp]:
  "present (new_session i a b)" "present (leaving_session (Deleting l) x)" "\<not> Closing x \<Longrightarrow> present x"
  by (simp_all add: present_def new_session_def)

lemma present_cong: "Closing y = Closing x \<Longrightarrow> Leaving y = Leaving x \<Longrightarrow> present y = present x"
  by (simp add: present_def)

definition core_inv :: "core \<Rightarrow> bool" where
  "core_inv = (\<lambda>(m, h, n, es, ph).
     (\<forall>i r. m i = Some r \<longrightarrow> (\<exists>x. h r = Some x \<and> UserID x = i \<and> present x \<and>
        (r \<in> set es \<or> joined_session x))) \<and>
     (\<forall>r x. h r = Some x \<longrightarrow> r < n \<and> typed_session x) \<and>
     (\<forall>r \<in> set es. \<exists>x. h r = Some x \<and> in_stage (ph r) x) \<and> distinct es \<and>
     (\<forall>r. r \<notin> set es \<longrightarrow> ph r = AwaitCreds))"

lemma core_invI:
  assumes "\<And>i r. m i = Some r \<Longrightarrow> \<exists>x. h r = Some x \<and> UserID x = i \<and> present x \<and>
      (r \<in> set es \<or> joined_session x)"
    and "\<And>r x. h r = Some x \<Longrightarrow> r < n \<and> typed_session x"
    and "\<And>r. r \<in> set es \<Longrightarrow> \<exists>x. h r = Some x \<and> in_stage (ph r) x" and "distinct es"
    and "\<And>r. r \<notin> set es \<Longrightarrow> ph r = AwaitCreds"
  shows "core_inv (m, h, n, es, ph)"
  using assms unfolding core_inv_def by (auto dest: assms(2))

lemma core_invD:
  assumes "core_inv (m, h, n, es, ph)"
  shows "m i = Some r \<Longrightarrow> \<exists>x. h r = Some x \<and> UserID x = i \<and> present x \<and> (r \<in> set es \<or> joined_session x)"
    "h r = Some x \<Longrightarrow> r < n" "h r = Some x \<Longrightarrow> typed_session x"
    "r \<in> set es \<Longrightarrow> \<exists>x. h r = Some x \<and> in_stage (ph r) x" "distinct es"
    "r \<notin> set es \<Longrightarrow> ph r = AwaitCreds"
  using assms by (simp_all add: core_inv_def)

lemma same_control_inv:
  assumes "same_control x y"
  shows "in_stage p y = in_stage p x" "joined_session y = joined_session x"
    "typed_session y = typed_session x" "present y = present x"
  by (cases p; simp add: same_controlD [OF assms] fresh_session_def)
    (simp_all add: same_controlD [OF assms] joined_session_def typed_session_def present_def)

text \<open>Disconnecting leaves what was established as it is.\<close>

lemma leaving_session_inv [simp]:
  "in_stage p (leaving_session st x) = in_stage p x" "joined_session (leaving_session st x) = joined_session x"
  "typed_session x \<Longrightarrow> typed_session (leaving_session st x)"
  by (cases p; simp add: fresh_session_def)
    (simp_all add: joined_session_def typed_session_def leaving_session_def closed_session_def)

lemma set_leaving_inv [simp]:
  "in_stage p (x\<lparr>Leaving := st\<rparr>) = in_stage p x" "joined_session (x\<lparr>Leaving := st\<rparr>) = joined_session x"
  "Closing x \<Longrightarrow> typed_session (x\<lparr>Leaving := st\<rparr>) = typed_session x"
  by (cases p; simp add: fresh_session_def) (simp_all add: joined_session_def typed_session_def)

lemma new_session_inv [simp]:
  "fresh_session (new_session rid a b)" "typed_session (new_session rid a b)"
  by (simp_all add: fresh_session_def typed_session_def new_session_def make_chan_def)

lemma advance_inv:
  assumes "advance p q x y" "in_stage p x" "typed_session x"
  shows "in_stage q y \<and> typed_session y \<and> UserID y = UserID x \<and> present y = present x"
  using assms
  by (cases rule: advance.cases) (auto simp: fresh_session_def typed_session_def with_event_stream_def present_def)

lemma finished_inv:
  assumes "in_stage Finishing x" "typed_session x"
  shows "joined_session (ready_session x)" "typed_session (ready_session x)" "present (ready_session x) = present x"
  using assms by (simp_all add: joined_session_def typed_session_def present_def)

text \<open>An update of one session, with fewer ids mapped and possibly this session no longer establishing.\<close>

lemma core_inv_update:
  assumes "core_inv (m, h, n, es, ph)" "h r = Some x" "typed_session y" "UserID y = UserID x"
    and "\<And>i q. m' i = Some q \<Longrightarrow> m i = Some q"
    and "\<And>i. m' i = Some r \<Longrightarrow> (present x \<longrightarrow> present y) \<and> (r \<in> set es' \<or> joined_session y)"
    and "r \<in> set es' \<Longrightarrow> in_stage p y" "r \<notin> set es' \<Longrightarrow> p = AwaitCreds"
    and "\<And>q. q \<noteq> r \<Longrightarrow> q \<in> set es' \<longleftrightarrow> q \<in> set es" "distinct es'"
  shows "core_inv (m', h(r \<mapsto> y), n, es', ph(r := p))"
proof (rule core_invI)
  note I = core_invD [OF assms(1)]
  fix i q assume q: "m' i = Some q"
  from I(1) [OF assms(5) [OF q]] obtain z where z: "h q = Some z" "UserID z = i" "present z"
    "q \<in> set es \<or> joined_session z" by blast
  show "\<exists>z. (h(r \<mapsto> y)) q = Some z \<and> UserID z = i \<and> present z \<and> (q \<in> set es' \<or> joined_session z)"
    using assms(2,4) assms(6) [of i] assms(9) [of q] q z by (cases "q = r") auto
next
  fix q z assume "(h(r \<mapsto> y)) q = Some z"
  then show "q < n \<and> typed_session z"
    using core_invD(2,3) [OF assms(1)] assms(2,3) by (auto split: if_splits)
next
  fix q assume "q \<in> set es'"
  then show "\<exists>x. (h(r \<mapsto> y)) q = Some x \<and> in_stage ((ph(r := p)) q) x"
    using core_invD(4) [OF assms(1), of q] assms(7) assms(9) [of q] by (cases "q = r") auto
next
  fix q assume "q \<notin> set es'"
  then show "(ph(r := p)) q = AwaitCreds"
    using core_invD(6) [OF assms(1), of q] assms(8) assms(9) [of q] by (cases "q = r") auto
qed (rule assms(10))

text \<open>A new session, stored or not.\<close>

lemma core_inv_alloc:
  assumes "core_inv (m, h, n, es, ph)"
  shows "core_inv (m, h(n \<mapsto> new_session rid agent b), Suc n, es, ph)"
    "m rid = None \<Longrightarrow> core_inv (m(rid \<mapsto> n), h(n \<mapsto> new_session rid agent b), Suc n, es @ [n], ph)"
proof -
  note I = core_invD [OF assms]
  have old: "q \<noteq> n" if "h q = Some z" for q z using I(2) [OF that] by simp
  have es: "n \<notin> set es" using I(4) [of n] old by blast
  have stored: "\<exists>z. (h(n \<mapsto> new_session rid agent b)) q = Some z \<and> UserID z = i \<and> present z \<and>
      (q \<in> set es \<or> joined_session z)" if "m i = Some q" for i q
    using I(1) [OF that] old by fastforce
  have typed: "q < Suc n \<and> typed_session z" if "(h(n \<mapsto> new_session rid agent b)) q = Some z" for q z
    using that I(2) [of q z] I(3) [of q z] by (auto split: if_splits)
  have est: "\<exists>z. (h(n \<mapsto> new_session rid agent b)) q = Some z \<and> in_stage (ph q) z" if "q \<in> set es" for q
    using I(4) [OF that] old by fastforce
  show "core_inv (m, h(n \<mapsto> new_session rid agent b), Suc n, es, ph)"
    using stored typed est I(5,6) by (rule core_invI)
  assume "m rid = None"
  show "core_inv (m(rid \<mapsto> n), h(n \<mapsto> new_session rid agent b), Suc n, es @ [n], ph)"
  proof (rule core_invI)
    fix i q assume "(m(rid \<mapsto> n)) i = Some q"
    then show "\<exists>z. (h(n \<mapsto> new_session rid agent b)) q = Some z \<and> UserID z = i \<and> present z \<and>
        (q \<in> set (es @ [n]) \<or> joined_session z)" using stored [of i q] by (auto split: if_splits)
  next
    fix q assume "q \<in> set (es @ [n])"
    then show "\<exists>z. (h(n \<mapsto> new_session rid agent b)) q = Some z \<and> in_stage (ph q) z"
      using est [of q] I(6) [OF es] by auto
  qed (use typed es I(5,6) in auto)
qed

text \<open>The updates that leave the establishing goroutines as they are.\<close>

lemma core_inv_keep:
  assumes "core_inv (m, h, n, es)" "h r = Some x" "typed_session y" "UserID y = UserID x"
    and "\<And>i q. m' i = Some q \<Longrightarrow> m i = Some q"
    and "\<And>i. m' i = Some r \<Longrightarrow> (present x \<longrightarrow> present y) \<and> joined_session y = joined_session x"
    and "\<And>p. in_stage p y = in_stage p x"
  shows "core_inv (m', h(r \<mapsto> y), n, es)"
proof -
  obtain l ph where es: "es = (l, ph)" by (cases es)
  note I = core_invD [OF assms(1) [unfolded es]]
  have "core_inv (m', h(r \<mapsto> y), n, l, ph(r := ph r))"
  proof (rule core_inv_update [OF assms(1) [unfolded es] assms(2-5)])
    fix i assume "m' i = Some r"
    then show "(present x \<longrightarrow> present y) \<and> (r \<in> set l \<or> joined_session y)"
      using assms(2,6) I(1) [OF assms(5)] by fastforce
  next
    assume "r \<in> set l" then show "in_stage (ph r) y" using I(4) [of r] assms(2,7) by auto
  qed (use I(5,6) in auto)
  then show ?thesis by (simp add: es)
qed

lemma core_inv_typed: "core_inv (m, h, n, es) \<Longrightarrow> h r = Some x \<Longrightarrow> typed_session x"
  by (cases es) (auto dest: core_invD(3))

lemma unmapD: "unmap r m i = Some q \<Longrightarrow> m i = Some q \<and> q \<noteq> r"
  by (auto simp: unmap_def split: if_splits)

lemma effect_core_inv:
  assumes "effect c d" "core_inv c"
  shows "core_inv d"
  using assms(1)
proof (cases rule: effect.cases)
  case (Touch h r x y m n es)
  note I = assms(2) [unfolded Touch(1)]
  show ?thesis unfolding Touch(2)
    by (rule core_inv_keep [OF I Touch(3)])
      (use core_inv_typed [OF I Touch(3)] same_control_inv [OF Touch(4)] same_controlD [OF Touch(4)] in simp_all)
next
  case (Drop h r x m n es)
  note I = assms(2) [unfolded Drop(1)]
  have "core_inv (unmap r m, h(r \<mapsto> x), n, es)"
    by (rule core_inv_keep [OF I Drop(3)]) (use core_inv_typed [OF I Drop(3)] in \<open>auto dest: unmapD\<close>)
  then show ?thesis using Drop by (simp add: fun_upd_idem)
next
  case (Alloc m h n es rid agent b)
  then show ?thesis using core_inv_alloc(1) assms(2) by (cases es) simp
next
  case (Store m rid h n es ph agent b)
  then show ?thesis using core_inv_alloc(2) assms(2) by simp
next
  case (Advance r es h x ph p y m n)
  note I = assms(2) [unfolded Advance(1)]
  have x: "in_stage (ph r) x" "typed_session x" using core_invD(3,4) [OF I] Advance(3,4) by fastforce+
  note y = advance_inv [OF Advance(5) x]
  show ?thesis unfolding Advance(2)
    by (rule core_inv_update [OF I Advance(4)]) (use y Advance(3) core_invD(5) [OF I] in auto)
next
  case (Join r es h x ph m n)
  note I = assms(2) [unfolded Join(1)]
  have x: "in_stage Finishing x" "typed_session x" using core_invD(3,4) [OF I] Join(3-5) by fastforce+
  show ?thesis unfolding Join(2)
    by (rule core_inv_update [OF I Join(4)]) (use finished_inv [OF x] core_invD(5) [OF I] in auto)
next
  case (GiveUp r es h x ph m n)
  note I = assms(2) [unfolded GiveUp(1)]
  have "core_inv (unmap r m, h(r \<mapsto> x), n, filter (\<lambda>q. q \<noteq> r) es, ph(r := AwaitCreds))"
    by (rule core_inv_update [OF I GiveUp(4)])
      (use core_invD(3,5) [OF I] GiveUp(4) in \<open>auto simp: unmap_def split: if_splits\<close>)
  then show ?thesis using GiveUp by (simp add: fun_upd_idem)
next
  case (Shut h r x m n es l)
  note I = assms(2) [unfolded Shut(1)]
  show ?thesis unfolding Shut(2)
    by (rule core_inv_keep [OF I Shut(3)]) (use core_inv_typed [OF I Shut(3)] in simp_all)
next
  case (Gone h r x l m n es)
  note I = assms(2) [unfolded Gone(1)]
  have x: "typed_session x" by (rule core_inv_typed [OF I Gone(3)])
  then have "Closing x" using Gone(4) by (simp add: typed_session_def)
  then show ?thesis unfolding Gone(2)
    by (intro core_inv_keep [OF I Gone(3)]) (use x in \<open>auto dest: unmapD\<close>)
next
  case (Told h r x l m n es)
  note I = assms(2) [unfolded Told(1)]
  have x: "typed_session x" by (rule core_inv_typed [OF I Told(3)])
  then have c: "Closing x" using Told(4) by (simp add: typed_session_def)
  then have "\<not> present x" using Told(4) by (simp add: present_def)
  then show ?thesis unfolding Told(2)
    by (intro core_inv_keep [OF I Told(3)]) (use x c in simp_all)
qed

lemma effects_core_inv: "effects c d \<Longrightarrow> core_inv c \<Longrightarrow> core_inv d"
  by (induction rule: rtranclp_induct) (auto intro: effect_core_inv)

lemma core_init: "core (new_networking_serv i cfg new_session_repository) = (Map.empty, Map.empty, 0, [], \<lambda>_. AwaitCreds)"
  by (simp add: core_def new_networking_serv_def repo_defs fun_eq_iff)

lemma reachable_inv: "reachable cr s \<Longrightarrow> net_ok s \<and> core_inv (core s)"
proof (induction rule: reachable.induct)
  case (Init i cfg)
  then show ?case by (simp add: net_ok_init core_init core_inv_def)
next
  case (Step s t)
  then show ?case using net_step_effects effects_core_inv by blast
qed

text \<open>The turns of one goroutine with nothing in between are a run of the service.\<close>

lemma turns_run: "turns cr env r s t \<Longrightarrow> (net_step cr)\<^sup>*\<^sup>* s t"
  by (rule rtranclp_mono [THEN predicate2D]) (auto intro: net_step.Establish)

text \<open>A stored session that is disconnected is so by a call which will delete it next.\<close>

definition stored_present :: "'c net \<Rightarrow> bool" where
  "stored_present s \<longleftrightarrow>
     (\<forall>i r x. repo_lookup (ns_repo s) i = Some r \<longrightarrow> ns_heap s r = Some x \<longrightarrow> present x)"

lemma reachable_ok: "reachable cr s \<Longrightarrow> net_ok s \<and> stored_present s"
  using reachable_inv [of cr s] by (fastforce simp: stored_present_def core_def dest: core_invD(1))

text \<open>A whole disconnect is a run of the service.\<close>

lemma disconnect_run_steps:
  assumes "disconnect_session r leave s = Ok t"
  shows "(net_step cr)\<^sup>*\<^sup>* s t"
proof -
  obtain u where u: "disconnect_begin r leave s = Ok u" "t = disconnect_rest r u"
    using assms by (auto simp: disconnect_session_def go_bind_Ok_iff)
  have "(net_step cr)\<^sup>*\<^sup>* u (disconnect_rest r u)"
    by (cases "disconnect_turn r u"; cases "disconnect_turn r (the (disconnect_turn r u))")
      (auto simp: disconnect_rest_def intro: net_step.Leaving rtranclp.rtrancl_into_rtrancl)
  then show ?thesis unfolding u(2) by (rule converse_rtranclp_into_rtranclp [of "net_step cr" s u, OF net_step.Disconnect [OF u(1)]])
qed

end
