(* ===== verification/Net_Service_Props.thy ===== *)
theory Net_Service_Props
  imports Net_Run "HOL-Library.Multiset"
begin

text \<open>
  The properties of the service's operations: what holds in every reachable state, what
  \<open>Disconnect\<close>, \<open>Connect\<close> and \<open>ConnectById\<close> do to the store and to the peers, and whom data is
  sent to.
\<close>

section \<open>Reachable states\<close>


text \<open>A reachable state with one session, for the witnesses.\<close>

definition reached_net :: "sample_call net" where
  "reached_net = snd (create_and_establish sample_create 8 True
     (new_networking_serv 1 sample_cfg new_session_repository))"

lemma reached_net_reachable: "reachable cr reached_net"
proof -
  obtain res where "create_and_establish sample_create 8 True
      (new_networking_serv 1 sample_cfg new_session_repository) = (res, reached_net)"
    unfolding reached_net_def by (metis prod.collapse)
  then show ?thesis by (rule reachable.Step [OF reachable.Init net_step.Create])
qed

lemma reached_net_simps:
  "ns_repo reached_net = [(8, 0)]" "ns_heap reached_net = [0 \<mapsto> new_session 8 4 True]"
  "ns_establishing reached_net = [0]" "\<not> ns_closing reached_net" "ns_id reached_net = 1"
  "ns_cfg reached_net = sample_cfg" "ns_next reached_net = 1" "ns_phase reached_net 0 = AwaitCreds" "ns_spawned reached_net = []"
  by (simp_all add: reached_net_def create_and_establish_def create_session_def sample_create_def
      entry_select_def new_networking_serv_def alloc_session_def sig_request_def lib_do_def
      repo_add_def new_session_repository_def Let_def)


text \<open>
  C13: in every reachable state, whatever the environment and the peers send, none of these
  panics: a call of \<open>createAndEstablish\<close>, any turn of an establishing goroutine, an SDP message
  with any payload, an ICE state change of a session, a disconnect of a session.
\<close>

theorem reachable_no_panic:
  assumes "reachable cr s"
  shows "fst (create_and_establish env rid b s) \<noteq> Panic \<and>
         (r \<in> set (ns_establishing s) \<longrightarrow> establish_turn cr est r s \<noteq> Some Panic) \<and>
         handle_sdp sdp i payload s \<noteq> Panic \<and>
         (ns_heap s q \<noteq> None \<longrightarrow> on_connection_state q c s \<noteq> Panic \<and>
            disconnect_session q leave s \<noteq> Panic \<and> disconnect_begin q leave s \<noteq> Panic)"
proof -
  have s: "net_ok s" using reachable_ok [OF assms] by simp
  have "fst (create_and_establish env rid b s) \<noteq> Panic"
    using create_and_establish_ok(2) [OF s] by (cases "create_and_establish env rid b s") auto
  moreover have "establish_turn cr est r s \<noteq> Some Panic" if r: "r \<in> set (ns_establishing s)"
    using establish_turn_returns [OF s r, of cr est] by auto
  moreover have "handle_sdp sdp i payload s \<noteq> Panic" using handle_sdp_ok [OF s, of sdp i payload] by auto
  moreover have "on_connection_state q c s \<noteq> Panic \<and> disconnect_session q leave s \<noteq> Panic \<and>
      disconnect_begin q leave s \<noteq> Panic"
    if q: "ns_heap s q \<noteq> None"
  proof -
    from q obtain x where x: "ns_heap s q = Some x" by blast
    obtain t where "on_connection_state q c s = Ok t" using on_connection_state_ok [OF s x] by blast
    then show ?thesis using disconnect_session_eq [OF s x, of leave] disconnect_begin_eq [OF s x, of leave] by simp
  qed
  ultimately show ?thesis by blast
qed

theorem reachable_no_panic_witness:
  "handle_sdp sample_sdp 8 [0] reached_net \<noteq> Panic \<and> disconnect_session 0 True reached_net \<noteq> Panic \<and>
   establish_turn sample_crypto (sample_est []) 0 reached_net \<noteq> Some Panic"
  using reachable_no_panic [OF reached_net_reachable [of sample_crypto],
      of sample_create 8 True 0 "sample_est []" sample_sdp 8 "[0]" 0 IceFailed True]
  by (simp add: reached_net_simps)

section \<open>Disconnect\<close>

lemma stored_distinct:
  assumes "net_ok s"
  shows "distinct (map snd (ns_repo s))"
proof -
  have m: "distinct (map fst (ns_repo s))" using net_okD(1) [OF assms] by (simp add: repo_valid_def)
  have "i = j" if two: "(i, r) \<in> set (ns_repo s)" "(j, r) \<in> set (ns_repo s)" for i j r
    using net_okD(2) [OF assms, of i r] net_okD(2) [OF assms, of j r] two m
    by (auto simp: repo_lookup_def)
  then have "inj_on snd (set (ns_repo s))" by (auto simp: inj_on_def)
  then show ?thesis using m by (simp add: distinct_map)
qed

definition permutes :: "('a list \<Rightarrow> 'a list) \<Rightarrow> bool" where
  "permutes order \<longleftrightarrow> (\<forall>xs. mset (order xs) = mset xs)"

lemma permutes_set: "permutes order \<Longrightarrow> set (order xs) = set xs"
  unfolding permutes_def by (metis set_mset_mset)

lemma permutes_distinct: "permutes order \<Longrightarrow> distinct (order xs) = distinct xs"
  unfolding permutes_def by (metis distinct_count_atmost_1 set_mset_mset)

text \<open>Whom the end of a session is announced to: the server, unless a call for the peer's leaving is inside the \<open>Once\<close>.\<close>

definition tells_server :: "'c net \<Rightarrow> sref \<Rightarrow> bool" where
  "tells_server s r =
     (case ns_heap s r of None \<Rightarrow> False | Some x \<Rightarrow>
        (case Leaving x of None \<Rightarrow> \<not> Closing x | Some (Deleting l) \<Rightarrow> l | Some (Telling l) \<Rightarrow> l))"

text \<open>A call from any state: where another call is inside the \<open>Once\<close> already, it is waited for.\<close>

lemma disconnect_session_drops:
  assumes "net_ok s" "stored_present s" "ns_heap s r = Some x"
  shows "\<exists>t y. disconnect_session r True s = Ok t \<and> net_ok t \<and> stored_present t \<and>
    repo_lookup (ns_repo t) = (\<lambda>i. if repo_lookup (ns_repo s) i = Some r then None else repo_lookup (ns_repo s) i) \<and>
    ns_heap t = (ns_heap s)(r \<mapsto> y) \<and> Closing y \<and> ns_id t = ns_id s \<and> ns_closing t = ns_closing s \<and>
    ns_sig t = ns_sig s @ (if tells_server s r then [DeleteFromSession (UserID x)] else []) \<and>
    (tells_server s r \<longrightarrow> ns_calls t = ns_calls s)"
proof -
  obtain t where t: "disconnect_session r True s = Ok t" using disconnect_session_eq [OF assms(1,3)] by blast
  note own = drop_own_lookup [OF assms(1,3) refl]
  have unstored: "repo_lookup (ns_repo s) i \<noteq> Some r" if "Closing x" "\<nexists>l. Leaving x = Some (Deleting l)" for i
    using that assms(2,3) unfolding stored_present_def present_def by blast
  have ok: "session_ok x" by (rule net_okD(3) [OF assms(1,3)])
  have gone: "((\<exists>y. ns_heap t = (ns_heap s)(r \<mapsto> y) \<and> Closing y) \<and> ns_id t = ns_id s \<and> ns_closing t = ns_closing s \<and>
      ns_sig t = ns_sig s @ (if tells_server s r then [DeleteFromSession (UserID x)] else []) \<and>
      (tells_server s r \<longrightarrow> ns_calls t = ns_calls s)) \<and>
      (\<forall>i. repo_lookup (ns_repo t) i = (if repo_lookup (ns_repo s) i = Some r then None else repo_lookup (ns_repo s) i))"
  proof (cases "Closing x")
    case False
    then have "t = disconnected r True x s" "tells_server s r"
      using t ok disconnect_session_eq [OF assms(1,3)] assms(3) by (auto simp: tells_server_def session_ok_def split: option.split)
    then show ?thesis
      using disconnected_lookup [OF assms(1,3)] disconnected_heap [of r True x s] disconnected_calls [of r True x s] by auto
  next
    case True
    then have t: "t = disconnect_rest r s" using t disconnect_session_eq [OF assms(1,3)] by simp
    from assms(1,3) show ?thesis
    proof (cases rule: leaving_cases)
      case 1
      then have "t = s" "\<not> tells_server s r" using t True assms(3) by (auto simp: tells_server_def)
      then show ?thesis using unstored [OF True] 1(1) True assms(3)
        by (auto intro!: exI [of _ x] simp: fun_upd_idem)
    next
      case (2 l)
      then show ?thesis using t True own assms(3)
        by (auto simp: tells_server_def told_def call_defs split: option.split)
    next
      case (3 l)
      then show ?thesis using t unstored [OF True] assms(3)
        by (auto simp: tells_server_def told_def call_defs split: option.split)
    qed
  qed
  have "net_ok t" by (rule disconnect_session_ok [OF assms(1) t])
  moreover have "stored_present t" using assms(2) gone by (auto simp: stored_present_def split: if_splits)
  ultimately show ?thesis using t gone by (auto simp: fun_eq_iff)
qed

lemma disconnect_all_drops:
  assumes "net_ok s" "stored_present s" "distinct rs" "\<forall>r \<in> set rs. ns_heap s r \<noteq> None"
  shows "\<exists>t. disconnect_all rs s = Ok t \<and> net_ok t \<and>
    (\<forall>i. repo_lookup (ns_repo t) i = (case repo_lookup (ns_repo s) i of None \<Rightarrow> None
       | Some r \<Rightarrow> if r \<in> set rs then None else Some r)) \<and>
    (\<forall>r. r \<in> set rs \<or> session_closed s r \<longrightarrow> session_closed t r) \<and>
    ns_id t = ns_id s \<and> ns_closing t = ns_closing s \<and>
    ns_sig t = ns_sig s @ map (\<lambda>r. DeleteFromSession (UserID (the (ns_heap s r)))) (filter (tells_server s) rs) \<and>
    ((\<forall>r \<in> set rs. tells_server s r) \<longrightarrow> ns_calls t = ns_calls s)"
  using assms
proof (induction rs arbitrary: s)
  case Nil
  then show ?case by (auto split: option.split)
next
  case (Cons r rs)
  obtain x where x: "ns_heap s r = Some x" using Cons.prems(4) by auto
  obtain u y where u: "disconnect_session r True s = Ok u" "net_ok u" "stored_present u"
    "repo_lookup (ns_repo u) = (\<lambda>i. if repo_lookup (ns_repo s) i = Some r then None else repo_lookup (ns_repo s) i)"
    "ns_heap u = (ns_heap s)(r \<mapsto> y)" "Closing y" "ns_id u = ns_id s" "ns_closing u = ns_closing s"
    "ns_sig u = ns_sig s @ (if tells_server s r then [DeleteFromSession (UserID x)] else [])"
    "tells_server s r \<longrightarrow> ns_calls u = ns_calls s"
    using disconnect_session_drops [OF Cons.prems(1,2) x] by blast
  have same: "q \<in> set rs \<Longrightarrow> ns_heap u q = ns_heap s q \<and> tells_server u q = tells_server s q" for q
    using u(5) Cons.prems(3) by (auto simp: tells_server_def)
  have "\<forall>q \<in> set rs. ns_heap u q \<noteq> None" using Cons.prems(4) same by auto
  from Cons.IH [OF u(2,3) _ this] Cons.prems(3) obtain t where t: "disconnect_all rs u = Ok t" "net_ok t"
    "\<forall>i. repo_lookup (ns_repo t) i = (case repo_lookup (ns_repo u) i of None \<Rightarrow> None
       | Some r \<Rightarrow> if r \<in> set rs then None else Some r)"
    "\<forall>r. r \<in> set rs \<or> session_closed u r \<longrightarrow> session_closed t r"
    "ns_id t = ns_id u" "ns_closing t = ns_closing u"
    "ns_sig t = ns_sig u @ map (\<lambda>r. DeleteFromSession (UserID (the (ns_heap u r)))) (filter (tells_server u) rs)"
    "(\<forall>r \<in> set rs. tells_server u r) \<longrightarrow> ns_calls t = ns_calls u" by auto
  have closed: "session_closed u q" if "q = r \<or> session_closed s q" for q
    using that u(5,6) by (auto simp: session_closed_def)
  have sig: "map (\<lambda>r. DeleteFromSession (UserID (the (ns_heap u r)))) (filter (tells_server u) rs) =
      map (\<lambda>r. DeleteFromSession (UserID (the (ns_heap s r)))) (filter (tells_server s) rs)"
    using same by (intro map_cong filter_cong) auto
  have "disconnect_all (r # rs) s = Ok t" using u(1) t(1) by simp
  then show ?case
    using t(2-6) t(7) [unfolded sig] t(8) u(4,7-10) closed same x by (auto split: option.splits)
qed

lemma disconnect_empties_run:
  assumes "net_ok s" "stored_present s" "permutes order"
  shows "\<exists>t. disconnect order s = (Ok (), t) \<and> net_ok t \<and> repo_lookup (ns_repo t) = Map.empty \<and>
    ns_id t = ns_id s \<and> ns_closing t = ns_closing s \<and>
    (\<forall>r \<in> snd ` set (ns_repo s). session_closed t r) \<and>
    mset (ns_sig t) = mset (ns_sig s) +
      mset (map (\<lambda>p. DeleteFromSession (fst p)) (filter (\<lambda>p. tells_server s (snd p)) (ns_repo s))) \<and>
    ((\<forall>p \<in> set (ns_repo s). tells_server s (snd p)) \<longrightarrow> ns_calls t = ns_calls s)"
proof (cases "ns_repo s = []")
  case True
  then show ?thesis using assms(1) by (simp add: disconnect_def repo_fetch_map repo_lookup_def fun_eq_iff)
next
  case False
  let ?rs = "order (map snd (ns_repo s))" and ?own = "\<lambda>r. UserID (the (ns_heap s r))"
  have set: "set ?rs = snd ` set (ns_repo s)" by (simp add: permutes_set [OF assms(3)])
  have look: "repo_lookup (ns_repo s) i = Some r" if "(i, r) \<in> set (ns_repo s)" for i r
    using net_okD(1) [OF assms(1)] that by (simp add: repo_lookup_def repo_valid_def)
  have dist: "distinct ?rs" using stored_distinct [OF assms(1)] permutes_distinct [OF assms(3)] by simp
  have own: "?own (snd p) = fst p" if "p \<in> set (ns_repo s)" for p
    using that look [of "fst p" "snd p"] net_okD(2) [OF assms(1)] by fastforce
  have "\<forall>r \<in> set ?rs. ns_heap s r \<noteq> None" using set look net_okD(2) [OF assms(1)] by fastforce
  from disconnect_all_drops [OF assms(1,2) dist this] obtain t where t: "disconnect_all ?rs s = Ok t" "net_ok t"
    "\<forall>i. repo_lookup (ns_repo t) i = (case repo_lookup (ns_repo s) i of None \<Rightarrow> None
       | Some r \<Rightarrow> if r \<in> set ?rs then None else Some r)"
    "\<forall>r. r \<in> set ?rs \<or> session_closed s r \<longrightarrow> session_closed t r" "ns_id t = ns_id s" "ns_closing t = ns_closing s"
    "ns_sig t = ns_sig s @ map (\<lambda>r. DeleteFromSession (?own r)) (filter (tells_server s) ?rs)"
    "(\<forall>r \<in> set ?rs. tells_server s r) \<longrightarrow> ns_calls t = ns_calls s" by blast
  have "r \<in> set ?rs" if "repo_lookup (ns_repo s) i = Some r" for i r
    using that by (auto simp: set repo_lookup_def dest: map_of_SomeD intro: rev_image_eqI)
  then have "repo_lookup (ns_repo t) = Map.empty" using t(3) by (auto simp: fun_eq_iff split: option.split)
  moreover have "disconnect order s = (Ok (), t)" using False t(1) by (simp add: disconnect_def repo_fetch_map)
  moreover have "mset (map (\<lambda>r. DeleteFromSession (?own r)) (filter (tells_server s) ?rs)) =
      mset (map (\<lambda>r. DeleteFromSession (?own r)) (filter (tells_server s) (map snd (ns_repo s))))"
    using assms(3) by (simp only: permutes_def mset_map mset_filter)
  moreover have "map (\<lambda>r. DeleteFromSession (?own r)) (filter (tells_server s) (map snd (ns_repo s))) =
      map (\<lambda>p. DeleteFromSession (fst p)) (filter (\<lambda>p. tells_server s (snd p)) (ns_repo s))"
    using own by (simp add: filter_map comp_def)
  ultimately show ?thesis using t(2,4-6,8) t(7) set by simp
qed



section \<open>Connect\<close>

text \<open>
  Connecting to oneself is an error and connecting to a peer whose session is stored is a
  success; neither touches the state.
\<close>

lemma connect_noop:
  assumes "reachable cr s" "\<not> co_ctx_done env"
  shows "connect env (ns_id s) s = (Returned (Err (PlainError ''cannot connect to himself'')), s) \<and>
         (rid \<noteq> ns_id s \<longrightarrow> repo_get False rid (ns_repo s) \<noteq> Err (err_not_found ''sessionRepository.Get'') \<longrightarrow>
            connect env rid s = (Returned (Ok ()), s))"
proof -
  have s: "net_ok s" using reachable_ok [OF assms(1)] by simp
  have "connect env rid s = (Returned (Ok ()), s)"
    if rid: "rid \<noteq> ns_id s" "repo_lookup (ns_repo s) rid = Some r" for r
  proof -
    have "(rid, r) \<in> set (ns_repo s)" using rid(2) by (simp add: repo_lookup_def map_of_SomeD)
    moreover have "session_of s rid r"
      using net_okD(2) [OF s rid(2)] by (auto simp: session_of_def)
    ultimately have "list_ex (session_of s rid) (map snd (ns_repo s))"
      by (force simp: list_ex_iff)
    then show ?thesis using rid(1) assms(2) by (simp add: connect_def repo_fetch_map)
  qed
  then show ?thesis
    by (auto simp: connect_def repo_get_def repo_lookup_def split: option.splits)
qed

definition sample_connect :: connect_env where
  "sample_connect =
     \<lparr>co_ctx_done = False, co_disconnect = rev, co_sessions = Inr (json_of_uuids canonical_uuid [1, 5]),
      co_uuids = canonical_uuid,
      co_main = sample_create, co_peer = (\<lambda>k. sample_create), co_order = rev\<rparr>"

lemma connect_noop_witness: "connect sample_connect 8 reached_net = (Returned (Ok ()), reached_net)"
  using connect_noop [OF reached_net_reachable [of sample_crypto], of sample_connect 8]
  by (simp add: sample_connect_def reached_net_simps repo_get_def)

text \<open>What the goroutines of \<open>Connect\<close> leave, in whatever order they ran.\<close>

lemma create_group_run:
  assumes "net_ok s"
  shows "\<exists>rs e t. create_group gs s = (Ok (rs, e), t) \<and> net_ok t \<and> quiet s t \<and>
    set (ns_establishing s) \<union> set rs \<subseteq> set (ns_establishing t) \<and>
    (\<forall>i q. repo_lookup (ns_repo s) i = Some q \<longrightarrow> repo_lookup (ns_repo t) i = Some q) \<and>
    (\<forall>i q. repo_lookup (ns_repo t) i = Some q \<longrightarrow>
       repo_lookup (ns_repo s) i = Some q \<or> i \<in> fst ` set gs \<and> q \<in> set rs) \<and>
    (e = None \<longrightarrow> (\<forall>i \<in> fst ` set gs. repo_lookup (ns_repo t) i \<noteq> None))"
  using assms
proof (induction gs arbitrary: s)
  case Nil
  then show ?case by simp
next
  case (Cons g gs)
  obtain i env where g: "g = (i, env)" by (cases g)
  obtain res u where c: "create_and_establish env i True s = (res, u)"
    by (cases "create_and_establish env i True s")
  note made = create_and_establish_ok [OF Cons.prems c]
  obtain rs e t where t: "create_group gs u = (Ok (rs, e), t)" "net_ok t" "quiet u t"
    "set (ns_establishing u) \<union> set rs \<subseteq> set (ns_establishing t)"
    "\<forall>i q. repo_lookup (ns_repo u) i = Some q \<longrightarrow> repo_lookup (ns_repo t) i = Some q"
    "\<forall>i q. repo_lookup (ns_repo t) i = Some q \<longrightarrow>
       repo_lookup (ns_repo u) i = Some q \<or> i \<in> fst ` set gs \<and> q \<in> set rs"
    "e = None \<longrightarrow> (\<forall>i \<in> fst ` set gs. repo_lookup (ns_repo t) i \<noteq> None)"
    using Cons.IH [OF made(1)] by (elim exE conjE) (rule that)
  have ev: "quiet s t" using create_effects [OF c] t(3) by (rule quiet_trans)
  show ?case
  proof (cases res)
    case (Ok r)
    have m: "repo_lookup (ns_repo s) i = None"
      "repo_lookup (ns_repo u) = (repo_lookup (ns_repo s))(i \<mapsto> r)"
      "ns_establishing u = ns_establishing s @ [r]"
      using made(3) [OF Ok] by simp_all
    have "create_group (g # gs) s = (Ok (r # rs, e), t)" using g c Ok t(1) by simp
    moreover have "repo_lookup (ns_repo t) j = Some q"
      if "repo_lookup (ns_repo s) j = Some q" for j q
      using that m(1,2) t(5) [rule_format, of j q] by (cases "j = i") auto
    moreover have "repo_lookup (ns_repo s) j = Some q \<or> j \<in> fst ` set (g # gs) \<and> q \<in> set (r # rs)"
      if "repo_lookup (ns_repo t) j = Some q" for j q
      using t(6) [rule_format, OF that] m(2) g by (auto split: if_splits)
    moreover have "repo_lookup (ns_repo t) j \<noteq> None" if "e = None" "j \<in> fst ` set (g # gs)" for j
      using that t(7) t(5) [rule_format, of i r] m(2) g by auto
    ultimately show ?thesis using t(2,4) ev m(3) by auto
  next
    case (Err err)
    have m: "repo_lookup (ns_repo u) = repo_lookup (ns_repo s)" "ns_establishing u = ns_establishing s"
      using made(4) [OF Err] by simp_all
    then show ?thesis using g c Err t ev by fastforce
  next
    case Panic
    then show ?thesis using made(2) by simp
  qed
qed

text \<open>The peers \<open>Connect\<close> turns to: the one it was asked for, and those in a session with it.\<close>

lemma connect_peers_run:
  assumes "net_ok s" "permutes (co_order env)" "co_sessions env = Inr b" "decode_uuids (co_uuids env) b = Inr peers"
    "connect_peers env rid s = (Waiting rs e, t)"
  shows "net_ok t \<and> set rs \<subseteq> set (ns_establishing t) \<and>
    (\<forall>i q. repo_lookup (ns_repo t) i = Some q \<longrightarrow> repo_lookup (ns_repo s) i = Some q \<or>
       (i = rid \<or> i \<in> set peers \<and> i \<noteq> ns_id s) \<and> q \<in> set rs) \<and>
    (e = None \<longrightarrow> (\<forall>i. i = rid \<or> i \<in> set peers \<and> i \<noteq> ns_id s \<longrightarrow> repo_lookup (ns_repo t) i \<noteq> None))"
proof -
  let ?s1 = "sig_request (GetSessionsById rid) s"
  let ?gs = "(rid, co_main env) # filter (\<lambda>p. fst p \<noteq> ns_id ?s1)
    (zip peers (map (co_peer env) [0..<length peers]))"
  have "fst ` set (zip peers (map (co_peer env) [0..<length peers])) = set peers"
    by (simp flip: set_map)
  then have "fst ` set ?gs = insert rid {i \<in> set peers. i \<noteq> ns_id s}" by force
  then have ids: "fst ` set (co_order env ?gs) = insert rid {i \<in> set peers. i \<noteq> ns_id s}"
    by (simp only: permutes_set [OF assms(2)])
  have ok: "net_ok ?s1" using assms(1) by simp
  from create_group_run [OF ok, of "co_order env ?gs"] obtain rs' e' u where
    u: "create_group (co_order env ?gs) ?s1 = (Ok (rs', e'), u)" "net_ok u"
      "set rs' \<subseteq> set (ns_establishing u)"
      "\<forall>i q. repo_lookup (ns_repo u) i = Some q \<longrightarrow> repo_lookup (ns_repo s) i = Some q \<or>
         i \<in> fst ` set (co_order env ?gs) \<and> q \<in> set rs'"
      "e' = None \<longrightarrow> (\<forall>i \<in> fst ` set (co_order env ?gs). repo_lookup (ns_repo u) i \<noteq> None)"
    by auto
  have "t = u" "rs = rs'" "e = None \<longleftrightarrow> e' = None"
    using assms(3-5) u(1) by (auto simp: connect_peers_def)
  then show ?thesis using u(2-5) unfolding ids by auto
qed

text \<open>
  C15: when \<open>Connect\<close> gets as far as waiting for its connections, the sessions of earlier
  conversations are gone: the store holds the peer that was asked for and members of its session
  only, never the caller, each by a session the call created and waits for; without an error it
  holds all of them.
\<close>

theorem connect_result:
  assumes "reachable cr s" "permutes (co_disconnect env)" "permutes (co_order env)"
    and "co_sessions env = Inr b" "decode_uuids (co_uuids env) b = Inr peers"
    and "connect env rid s = (Waiting rs e, t)"
  shows "net_ok t \<and> set rs \<subseteq> set (ns_establishing t) \<and>
    ran (repo_lookup (ns_repo t)) \<subseteq> set rs \<and>
    dom (repo_lookup (ns_repo t)) \<subseteq> insert rid (set peers) - {ns_id s} \<and>
    (e = None \<longrightarrow> dom (repo_lookup (ns_repo t)) = insert rid (set peers) - {ns_id s})"
proof -
  have s: "net_ok s" "stored_present s" using reachable_ok [OF assms(1)] by simp_all
  obtain d where d: "disconnect (co_disconnect env) s = (Ok (), d)" "net_ok d"
    "repo_lookup (ns_repo d) = Map.empty" "ns_id d = ns_id s"
    using disconnect_empties_run [OF s assms(2)] by blast
  have self: "rid \<noteq> ns_id s" using assms(6) by (auto simp: connect_def)
  obtain u where u: "connect_peers env rid u = (Waiting rs e, t)" "net_ok u"
    "repo_lookup (ns_repo u) = Map.empty" "ns_id u = ns_id s"
  proof (cases "ns_repo s = []")
    case True
    then show thesis
      using that [of s] assms(6) self s(1)
      by (auto simp: connect_def repo_fetch_def repo_lookup_def split: if_splits)
  next
    case False
    then have "connect_peers env rid d = (Waiting rs e, t)"
      using assms(6) self d(1)
      by (cases "co_ctx_done env") (auto simp: connect_def repo_fetch_map repo_fetch_def fold_collect split: if_splits)
    then show thesis using d(2-4) by (rule that)
  qed
  from connect_peers_run [OF u(2) assms(3-5) u(1)] show ?thesis
    using u(3,4) self by (auto simp: ran_def dom_def)
qed

lemma sample_connect_run:
  "fst (connect sample_connect 8 (new_networking_serv 1 sample_cfg [])) = Waiting [0, 1] None"
  by (simp add: connect_def connect_peers_def sample_connect_def create_and_establish_def
      create_session_def sample_create_def entry_select_def new_networking_serv_def repo_fetch_def
      alloc_session_def sig_request_def lib_do_def repo_add_def Let_def
      decode_encoded [OF canonical_uuid_ok])

theorem connect_result_witness:
  "dom (repo_lookup (ns_repo (snd (connect sample_connect 8
     (new_networking_serv 1 sample_cfg new_session_repository :: sample_call net))))) = {8, 5}"
proof -
  let ?s = "new_networking_serv 1 sample_cfg new_session_repository :: sample_call net"
  obtain t where c: "connect sample_connect 8 ?s = (Waiting [0, 1] None, t)"
    using sample_connect_run by (metis prod.collapse new_session_repository_def)
  have "permutes (co_disconnect sample_connect)" "permutes (co_order sample_connect)"
    "co_sessions sample_connect = Inr (json_of_uuids canonical_uuid [1, 5])"
    "decode_uuids (co_uuids sample_connect) (json_of_uuids canonical_uuid [1, 5]) = Inr [1, 5]"
    by (simp_all add: sample_connect_def permutes_def decode_encoded [OF canonical_uuid_ok])
  from connect_result [OF reachable.Init [of sample_crypto] this c] show ?thesis
    unfolding c by (auto simp: new_networking_serv_def)
qed

section \<open>ConnectById\<close>

lemma steps_reachable: "(net_step cr)\<^sup>*\<^sup>* s t \<Longrightarrow> reachable cr s \<Longrightarrow> reachable cr t"
  by (induction rule: rtranclp_induct) (auto intro: reachable.Step)

lemma created_reachable:
  "reachable cr s \<Longrightarrow> create_and_establish env rid b s = (res, t) \<Longrightarrow> reachable cr t"
  by (rule reachable.Step [OF _ net_step.Create])

text \<open>
  C35: \<open>ConnectById\<close> waits for as long as the goroutine of its session is at work, whatever happens
  in between, and when the goroutine is through, by whichever turn, it reports success: when the
  session joined, and also when establishing failed and all that is left to do is the reset, after
  which no id maps to the session.
\<close>

theorem connect_by_id_ignores_failure:
  assumes "reachable cr s" "connect_by_id env rid s = (Waiting [r] e, t)"
    and "(net_step cr)\<^sup>*\<^sup>* t v" "r \<in> set (ns_establishing v)" "ns_phase v r \<noteq> Resetting"
    and "establish_turn cr est r v = Some (Ok u)"
  shows "wait_ready (Waiting [r] e) v = None \<and>
         wait_ready (Waiting [r] e) u =
           (if r \<in> set (ns_establishing u) \<and> ns_phase u r \<noteq> Resetting then None else Some (Ok ())) \<and>
         (ns_phase u r = Resetting \<and> establish_turn cr est' r u = Some (Ok w) \<longrightarrow>
           repo_lookup (ns_repo w) i \<noteq> Some r)"
proof -
  obtain res t' where c: "create_and_establish env rid True s = (res, t')"
    by (cases "create_and_establish env rid True s")
  then have t: "t' = t" "e = None"
    using assms(2) by (auto simp: connect_by_id_def Let_def split: if_splits outcome.splits)
  have "reachable cr v"
    using steps_reachable [OF assms(3)] created_reachable [OF assms(1) c] t by simp
  then have v: "net_ok v" using reachable_ok by blast
  have u: "net_ok u" by (rule establish_turn_ok [OF v assms(4,6)])
  obtain x where x: "ns_heap v r = Some x" "\<not> ch_closed (ReadyChan x)"
    using net_okD(6) [OF v assms(4)] assms(5) by auto
  have waits: "wait_ready (Waiting [r] e) w = (if ch_closed (ReadyChan z) then Some (Ok ()) else None)"
    if "net_ok w" "ns_heap w r = Some z" for w z
    using that net_okD(3) [OF that] t(2)
    by (simp add: wait_ready_def session_ready_def chan_recv_blocks_iff session_ok_def)
  have reset: "repo_lookup (ns_repo w) i \<noteq> Some r"
    if p: "ns_phase u r = Resetting" and w: "establish_turn cr est' r u = Some (Ok w)"
  proof -
    have in_u: "r \<in> set (ns_establishing u)" using net_okD(7) [OF u] p by fastforce
    then obtain z where z: "ns_heap u r = Some z" using net_okD(6) [OF u] by blast
    have "\<not> advanced_core r z u w" using p by (auto simp: advanced_core_def elim: advance.cases)
    then have "gave_up_core r u w" using establish_shape [OF u in_u z w] p by (auto simp: joined_core_def)
    then show ?thesis by (simp add: gave_up_core_def core_def unmap_def)
  qed
  from establish_shape [OF v assms(4) x(1) assms(6)] have "wait_ready (Waiting [r] e) u =
      (if r \<in> set (ns_establishing u) \<and> ns_phase u r \<noteq> Resetting then None else Some (Ok ()))"
  proof (elim disjE)
    assume "advanced_core r x v u"
    then have r: "r \<in> set (ns_establishing u)" using assms(4) by (auto simp: advanced_core_def core_def)
    then show ?thesis using net_okD(6) [OF u r] waits [OF u] by auto
  next
    assume "joined_core r x v u"
    then have "ns_heap u r = Some (ready_session x)" "r \<notin> set (ns_establishing u)"
      by (auto simp: joined_core_def core_def)
    then show ?thesis using waits [OF u, of "ready_session x"] by simp
  qed (use assms(5) in \<open>simp add: gave_up_core_def\<close>)
  then show ?thesis using waits [OF v x(1)] x(2) reset by simp
qed

theorem connect_by_id_ignores_failure_witness:
  "\<exists>t u. connect_by_id sample_create 8 (new_networking_serv 1 sample_cfg [] :: sample_call net) = (Waiting [0] None, t) \<and>
     establish_turn sample_crypto (sample_est []) 0 (t\<lparr>ns_closing := True\<rparr>) = Some (Ok u) \<and>
     wait_ready (Waiting [0] None) u = Some (Ok ())"
proof -
  let ?s = "new_networking_serv 1 sample_cfg [] :: sample_call net"
  have c: "connect_by_id sample_create 8 ?s = (Waiting [0] None, reached_net)"
    by (simp add: connect_by_id_def reached_net_def create_and_establish_def create_session_def
        sample_create_def entry_select_def new_networking_serv_def alloc_session_def
        sig_request_def lib_do_def repo_add_def new_session_repository_def Let_def)
  let ?v = "reached_net\<lparr>ns_closing := True\<rparr>"
  have step: "(net_step sample_crypto)\<^sup>*\<^sup>* reached_net ?v" by (rule r_into_rtranclp) (rule net_step.Close)
  have heap: "ns_heap ?v 0 = Some (new_session 8 4 True)" "ns_phase ?v 0 = AwaitCreds"
    by (simp_all add: reached_net_simps)
  then obtain u where u: "establish_turn sample_crypto (sample_est []) 0 ?v = Some (Ok u)" "ns_phase u 0 = Resetting"
    by (simp add: establish_turn_def await_creds_def chan_recv_def new_session_def make_chan_def
        end_turn_def close_ready_def chan_close_def)
  moreover have "0 \<in> set (ns_establishing ?v)" by (simp add: reached_net_simps)
  ultimately show ?thesis
    using connect_by_id_ignores_failure [OF reachable.Init [of sample_crypto 1 sample_cfg] _ step, of sample_create 8] c heap
    by (auto simp: new_session_repository_def)
qed

text \<open>
  C34: \<open>ConnectById\<close> for a peer that is connected already reports \<open>already exists\<close> and leaves the
  store alone, but only after it has announced new credentials to that peer and made an ICE agent
  that nothing closes.
\<close>

theorem connect_by_id_connected:
  assumes "\<not> ns_closing s" "rid \<noteq> ns_id s" "repo_lookup (ns_repo s) rid \<noteq> None"
    and "create_goes_well env" "ce_local env = Inr (f, p)" "ce_agent env = Inr a" "ce_creds env = Inr (u, w)"
  shows "\<exists>e t. connect_by_id env rid s = (Returned (Err e), t) \<and>
    process_error e = new_error_message H_ALREADY_EXISTS \<and> ns_repo t = ns_repo s \<and>
    ns_sig t = ns_sig s @ [AddInSession rid, NewSDP (creds_sdp f p) [rid]] \<and>
    ns_lib t = ns_lib s @
      [AgentNew a (stun_uris (ns_cfg s) u w) (nw_DisconnectedTimeout (ns_cfg s)), AgentGather a]"
proof -
  have env: "\<not> ce_ctx_done env" "\<not> ce_ctx_done_add env" "ce_add_in_session env = Inr ()"
    "ce_new_sdp env = Inr ()" "ce_on_state env = Inr ()"
    using assms(4)
    by (cases "ce_add_in_session env"; cases "ce_new_sdp env"; cases "ce_on_state env";
        simp add: create_goes_well_def)+
  obtain q where "map_of (ns_repo s) rid = Some q" using assms(3) by (auto simp: repo_lookup_def)
  then show ?thesis
    using env assms(1,2,5-7)
    by (simp add: connect_by_id_def create_and_establish_def create_session_def entry_select_def
        alloc_session_def sig_request_def lib_do_def repo_add_def Let_def app_error_defs
        process_error_def)
qed

theorem connect_by_id_connected_witness:
  "\<exists>e t. connect_by_id sample_create 8 reached_net = (Returned (Err e), t) \<and>
     process_error e = new_error_message H_ALREADY_EXISTS \<and>
     NewSDP (creds_sdp [97] [98]) [8] \<in> set (ns_sig t)"
  using connect_by_id_connected [of reached_net 8 sample_create "[97]" "[98]" 4 "''u''" "''p''"]
  by (auto simp: reached_net_simps repo_lookup_def create_goes_well_def sample_create_def)

section \<open>Whom data is sent to\<close>

text \<open>
  \<open>SendDatagram\<close> counts the call, panics on an empty slice or a zero log target, reports
  \<open>not found\<close> when no session is stored, and otherwise starts a goroutine for exactly the stored
  sessions whose connection is established: those with a connection whose \<open>ReadyChan\<close> is closed.
\<close>

lemma send_datagram_targets:
  assumes "net_ok s" "nw_DatagramLogTargetCount (ns_cfg s) \<noteq> 0"
  shows "ns_sendDatagramLogCount (snd (send_datagram False data s)) = ns_sendDatagramLogCount s + 1 \<and>
    (case fst (send_datagram False data s) of
       Panic \<Rightarrow> data = []
     | Err e \<Rightarrow> ns_repo s = [] \<and> process_error e = new_error_message H_NOT_FOUND
     | Ok rs \<Rightarrow> distinct rs \<and> (\<forall>r. r \<in> set rs \<longleftrightarrow>
         (\<exists>i x. repo_lookup (ns_repo s) i = Some r \<and> ns_heap s r = Some x \<and> Conn x \<noteq> None \<and>
            ch_closed (ReadyChan x))))"
proof -
  let ?s1 = "s\<lparr>ns_sendDatagramLogCount := ns_sendDatagramLogCount s + 1\<rparr>"
  have res: "send_datagram False data s =
      (if data = [] then Panic
       else if ns_repo s = [] then Err (err_not_found ''networkingServ.SendDatagram'')
       else Ok (filter (\<lambda>r. has_conn ?s1 r \<and> session_ready ?s1 r) (map snd (ns_repo s))), ?s1)"
    using assms(2) by (simp add: send_datagram_def sparse_guard_def stored_sessions_def repo_fetch_map Let_def)
  have "r \<in> snd ` set (ns_repo s) \<longleftrightarrow> (\<exists>i. repo_lookup (ns_repo s) i = Some r)" for r
    using net_okD(1) [OF assms(1)] by (force simp: repo_lookup_def repo_valid_def)
  moreover have "has_conn ?s1 r \<and> session_ready ?s1 r \<longleftrightarrow>
      (\<exists>x. ns_heap s r = Some x \<and> Conn x \<noteq> None \<and> ch_closed (ReadyChan x))" for r
    using net_okD(3) [OF assms(1), of r]
    by (auto simp: has_conn_def session_ready_def chan_recv_def session_ok_def split: option.splits)
  ultimately show ?thesis
    using stored_distinct [OF assms(1)]
    by (auto simp: res err_not_found_def process_error_def)
qed

text \<open>The sample service after its session was joined.\<close>

definition ready_net :: "sample_call net" where
  "ready_net = set_session 0 (sample_session\<lparr>ReadyChan := (make_chan 1)\<lparr>ch_closed := True\<rparr>\<rparr>) sample_net"

lemma ready_net_ok: "net_ok ready_net"
  unfolding ready_net_def
  by (rule net_ok_set_session [OF sample_net_ok sample_net_simps(1)])
    (use sample_session_ok in \<open>simp_all add: session_ok_def sample_net_def new_networking_serv_def\<close>)

lemma ready_net_simps [simp]:
  "ns_repo ready_net = [(7, 0)]" "ns_cfg ready_net = sample_cfg" "ns_id ready_net = 1"
  "ns_heap ready_net 0 = Some (sample_session\<lparr>ReadyChan := (make_chan 1)\<lparr>ch_closed := True\<rparr>\<rparr>)"
  by (simp_all add: ready_net_def) (simp_all add: sample_net_def new_networking_serv_def)

lemma send_datagram_targets_witness:
  "\<exists>rs. fst (send_datagram False [1, 2] ready_net) = Ok rs \<and> 0 \<in> set rs"
proof -
  have "nw_DatagramLogTargetCount (ns_cfg ready_net) \<noteq> 0" by (simp add: sample_cfg_def)
  from send_datagram_targets [OF ready_net_ok this, of "[1, 2]"] show ?thesis
    by (cases "fst (send_datagram False [1, 2] ready_net)")
      (auto simp: repo_lookup_def sample_session_def)
qed

end
