(* ===== verification/Events.thy ===== *)
theory Events
  imports Net_State Json_Codec
begin

text \<open>
  The events of the public API (\<open>event.go\<close>): their constructors, which put a JSON value into the
  event's data, and the two readers of that data; and the JSON of an event, as peers exchange it. The
  clock is an argument.
\<close>

section \<open>JSON of the structs (protocol.go)\<close>

definition json_of_event :: "event \<Rightarrow> bytes" where
  "json_of_event e =
     ascii ''{\"Typee\":'' @ show_nat (Typee e) @ ascii '',\"Data\":'' @ json_of_bytes (Data e) @
     ascii '',\"Timestamp\":'' @ show_int (Timestamp e) @ ascii ''}''"

definition event_fields :: "event json_field list" where
  "event_fields =
     [(ascii ''Typee'', uint_field (\<lambda>n e. e\<lparr>Typee := n\<rparr>)),
      (ascii ''Data'', bytes_field (\<lambda>d e. e\<lparr>Data := d\<rparr>)),
      (ascii ''Timestamp'', int_field (\<lambda>t e. e\<lparr>Timestamp := t\<rparr>))]"

definition decode_event :: "json \<Rightarrow> event call" where
  "decode_event = decode_struct event_fields \<lparr>Typee = 0, Data = [], Timestamp = 0\<rparr>"

definition json_of_general :: "general_data \<Rightarrow> bytes" where
  "json_of_general g =
     ascii ''{\"full-mute\":'' @ json_of_bool (FullMute g) @
     ascii '',\"mic-mute\":'' @ json_of_bool (MicMute g) @
     ascii '',\"hard-denoise\":'' @ json_of_bool (HardDenoise g) @
     ascii '',\"soft-denoise\":'' @ json_of_bool (SoftDenoise g) @ ascii ''}''"

definition general_fields :: "general_data json_field list" where
  "general_fields =
     [(ascii ''full-mute'', bool_field (\<lambda>b g. g\<lparr>FullMute := b\<rparr>)),
      (ascii ''mic-mute'', bool_field (\<lambda>b g. g\<lparr>MicMute := b\<rparr>)),
      (ascii ''hard-denoise'', bool_field (\<lambda>b g. g\<lparr>HardDenoise := b\<rparr>)),
      (ascii ''soft-denoise'', bool_field (\<lambda>b g. g\<lparr>SoftDenoise := b\<rparr>))]"

definition decode_general :: "json \<Rightarrow> general_data call" where
  "decode_general = decode_struct general_fields
     \<lparr>FullMute = False, MicMute = False, HardDenoise = False, SoftDenoise = False\<rparr>"

definition decode_bool :: "json \<Rightarrow> bool call" where
  "decode_bool v = (case v of JBool b \<Rightarrow> Inr b | JNull \<Rightarrow> Inr False | _ \<Rightarrow> Inl json_error)"

definition json_unmarshal :: "(json \<Rightarrow> 'a call) \<Rightarrow> bytes \<Rightarrow> 'a call" where
  "json_unmarshal decode bs = (case json_parse bs of None \<Rightarrow> Inl json_error | Some v \<Rightarrow> decode v)"

section \<open>Constructors\<close>

text \<open>\<open>json.Marshal\<close> of a Boolean and of a struct of Booleans never fails.\<close>

definition state_event :: "event_type \<Rightarrow> int \<Rightarrow> bool \<Rightarrow> event" where
  "state_event ty now state =
     \<lparr>Typee = event_type_num ty, Data = json_of_bool state, Timestamp = now\<rparr>"

definition mute_mic_event :: "int \<Rightarrow> bool \<Rightarrow> event" where
  "mute_mic_event = state_event MIC_MUTE"

definition mute_full_event :: "int \<Rightarrow> bool \<Rightarrow> event" where
  "mute_full_event = state_event FULL_MUTE"

definition hard_denoise_event :: "int \<Rightarrow> bool \<Rightarrow> event" where
  "hard_denoise_event = state_event HARD_DENOISE"

definition soft_denoise_event :: "int \<Rightarrow> bool \<Rightarrow> event" where
  "soft_denoise_event = state_event SOFT_DENOISE"

definition webcam_event :: "int \<Rightarrow> bool \<Rightarrow> event" where
  "webcam_event = state_event WEBCAM_STATE"

definition screen_event :: "int \<Rightarrow> bool \<Rightarrow> event" where
  "screen_event = state_event SCREEN_STATE"

definition webcam_key_frame_event :: "int \<Rightarrow> event" where
  "webcam_key_frame_event now =
     \<lparr>Typee = event_type_num WEBCAM_KEY_FRAME, Data = [], Timestamp = now\<rparr>"

definition screen_key_frame_event :: "int \<Rightarrow> event" where
  "screen_key_frame_event now =
     \<lparr>Typee = event_type_num SCREEN_KEY_FRAME, Data = [], Timestamp = now\<rparr>"

definition general_event :: "int \<Rightarrow> bool \<Rightarrow> bool \<Rightarrow> bool \<Rightarrow> bool \<Rightarrow> event" where
  "general_event now fm mm hdn sdn =
     \<lparr>Typee = event_type_num GENERAL,
      Data = json_of_general \<lparr>FullMute = fm, MicMute = mm, HardDenoise = hdn, SoftDenoise = sdn\<rparr>,
      Timestamp = now\<rparr>"

section \<open>Readers\<close>

definition data_to_state :: "bytes \<Rightarrow> bool call" where
  "data_to_state data = json_unmarshal decode_bool data"

definition data_to_general :: "bytes \<Rightarrow> general_data call" where
  "data_to_general data = json_unmarshal decode_general data"

lemmas event_defs [go_defs] =
  state_event_def mute_mic_event_def mute_full_event_def hard_denoise_event_def
  soft_denoise_event_def webcam_event_def screen_event_def webcam_key_frame_event_def
  screen_key_frame_event_def general_event_def data_to_state_def data_to_general_def

section \<open>Round trips\<close>

lemmas json_scan = json_step_def json_begin_def json_space_def is_digit_def json_string_end_def max_depth_def

definition event_value :: "event \<Rightarrow> json" where
  "event_value e = JObj [(ascii ''Typee'', JNum (show_nat (Typee e))), (ascii ''Data'', json_bytes (Data e)),
     (ascii ''Timestamp'', JNum (show_int (Timestamp e)))]"

lemma feed_event: "json_feed (JWant, [], vs) (json_of_event e) = (JWant, [], vs @ [event_value e])"
proof -
  have ends: "ends_number 44" "ends_number 125" by (simp_all add: ends_number_def is_digit_def)
  let ?k1 = "ascii ''Typee''" and ?k2 = "ascii ''Data''" and ?k3 = "ascii ''Timestamp''"
  let ?n = "JNum (show_nat (Typee e))" and ?d = "json_bytes (Data e)" and ?t = "JNum (show_int (Timestamp e))"
  have 1: "json_feed (JWant, [], vs) (ascii ''{\"Typee\":'') = (JWant, [ObjF [] ?k1], vs)"
    by (simp add: ascii_def json_scan)
  have 2: "json_feed (json_feed (JWant, [ObjF [] ?k1], vs) (show_nat (Typee e))) (ascii '',\"Data\":'') =
      (JWant, [ObjF [(?k1, ?n)] ?k2], vs)"
    using feed_show_nat [OF ends(1), of "[ObjF [] ?k1]" vs "Typee e"] by (simp add: ascii_def) (simp add: json_scan)
  have 3: "json_feed (JNext, [ObjF [(?k2, ?d), (?k1, ?n)] ?k2], vs) (ascii '',\"Timestamp\":'') =
      (JWant, [ObjF [(?k2, ?d), (?k1, ?n)] ?k3], vs)"
    by (simp add: ascii_def json_scan)
  have 4: "json_step (json_feed (JWant, [ObjF [(?k2, ?d), (?k1, ?n)] ?k3], vs) (show_int (Timestamp e))) 125 =
      (JWant, [], vs @ [event_value e])"
    using feed_show_int [OF ends(2), of "[ObjF [(?k2, ?d), (?k1, ?n)] ?k3]" vs "Timestamp e"]
    by (simp add: event_value_def json_space_def)
  have "ascii ''}'' = [125]" by (simp add: ascii_def)
  then show ?thesis by (simp add: json_of_event_def 1 2 3 4 feed_bytes)
qed

text \<open>The values a Go \<open>Event\<close> can have: \<open>uint\<close> and \<open>int64\<close>.\<close>

definition event_ok :: "event \<Rightarrow> bool" where
  "event_ok e \<longleftrightarrow> Typee e < 2 ^ 64 \<and> - (2 ^ 63) \<le> Timestamp e \<and> Timestamp e < 2 ^ 63"

lemma ascii_key: "unquote (ascii cs) = ascii cs" if "list_all plain_byte (ascii cs)"
  using unquote_plain [OF that] .

lemma event_value_decodes: "event_ok e \<Longrightarrow> decode_event (event_value e) = Inr e"
proof -
  assume "event_ok e"
  then have "parse_uint 64 (show_nat (Typee e)) = Some (Typee e)" "parse_int 64 (show_int (Timestamp e)) = Some (Timestamp e)"
    using parse_int_show [of 64 "Timestamp e"] by (simp_all add: event_ok_def parse_uint_show)
  moreover have "unquote (ascii ''Typee'') = ascii ''Typee''" "unquote (ascii ''Data'') = ascii ''Data''"
    "unquote (ascii ''Timestamp'') = ascii ''Timestamp''"
    by (rule ascii_key; simp add: ascii_def plain_byte_def)+
  moreover have "ascii ''Typee'' \<noteq> ascii ''Data''" "ascii ''Typee'' \<noteq> ascii ''Timestamp''" "ascii ''Data'' \<noteq> ascii ''Timestamp''"
    by (simp_all add: ascii_def)
  ultimately show ?thesis
    by (simp add: decode_event_def decode_struct_def event_value_def event_fields_def find_field_def
        uint_field_def int_field_def bytes_field_roundtrip)
qed

lemma json_parse_bool: "json_parse (json_of_bool b) = Some (JBool b)"
  by (simp add: json_parse_def json_start_def feed_bool)

lemma feed_general: "json_feed (JWant, [], vs) (json_of_general g) = (JWant, [], vs @
    [JObj [(ascii ''full-mute'', JBool (FullMute g)), (ascii ''mic-mute'', JBool (MicMute g)),
           (ascii ''hard-denoise'', JBool (HardDenoise g)), (ascii ''soft-denoise'', JBool (SoftDenoise g))]])"
proof -
  have "json_feed (JWant, [], vs) (ascii ''{\"full-mute\":'') = (JWant, [ObjF [] (ascii ''full-mute'')], vs)"
    by (simp add: ascii_def json_scan)
  moreover have "json_feed (JNext, [ObjF kvs k], vs) (ascii '',\"mic-mute\":'') = (JWant, [ObjF kvs (ascii ''mic-mute'')], vs)"
    "json_feed (JNext, [ObjF kvs k], vs) (ascii '',\"hard-denoise\":'') = (JWant, [ObjF kvs (ascii ''hard-denoise'')], vs)"
    "json_feed (JNext, [ObjF kvs k], vs) (ascii '',\"soft-denoise\":'') = (JWant, [ObjF kvs (ascii ''soft-denoise'')], vs)"
    "json_feed (JNext, [ObjF kvs k], vs) (ascii ''}'') = (JWant, [], vs @ [JObj (rev kvs)])" for kvs k
    by (simp_all add: ascii_def json_scan)
  ultimately show ?thesis by (simp add: json_of_general_def feed_bool)
qed

lemma general_roundtrip: "data_to_general (json_of_general g) = Inr g"
proof -
  have "unquote (ascii ''full-mute'') = ascii ''full-mute''" "unquote (ascii ''mic-mute'') = ascii ''mic-mute''"
    "unquote (ascii ''hard-denoise'') = ascii ''hard-denoise''" "unquote (ascii ''soft-denoise'') = ascii ''soft-denoise''"
    by (rule ascii_key; simp add: ascii_def plain_byte_def)+
  moreover have "distinct [ascii ''full-mute'', ascii ''mic-mute'', ascii ''hard-denoise'', ascii ''soft-denoise'']"
    by (simp add: ascii_def)
  ultimately show ?thesis
    by (simp add: data_to_general_def json_unmarshal_def json_parse_def json_start_def feed_general decode_general_def
        decode_struct_def general_fields_def find_field_def bool_field_def)
qed

definition state_events :: "(int \<Rightarrow> bool \<Rightarrow> event) list" where
  "state_events =
     [mute_mic_event, mute_full_event, hard_denoise_event, soft_denoise_event, webcam_event, screen_event]"

text \<open>
  C40: what a user puts into an event is what the peer reads from it: \<open>DataToState\<close> gives the state
  of a mute, denoise, webcam or screen event, \<open>DataToGeneral\<close> the four states of a general event. The
  constructors make events of different types, and the data of a key frame event is no state.
\<close>

theorem event_data_roundtrip:
  "map (\<lambda>make. data_to_state (Data (make now state))) state_events = replicate 6 (Inr state) \<and>
   map (\<lambda>make. Timestamp (make now state)) state_events = replicate 6 now \<and>
   data_to_general (Data (general_event now fm mm hdn sdn)) =
     Inr \<lparr>FullMute = fm, MicMute = mm, HardDenoise = hdn, SoftDenoise = sdn\<rparr> \<and>
   distinct (map (\<lambda>make. Typee (make now state)) state_events @
     [Typee (webcam_key_frame_event now), Typee (screen_key_frame_event now), Typee (general_event now fm mm hdn sdn)]) \<and>
   isl (data_to_state (Data (webcam_key_frame_event now)))"
proof -
  have "data_to_state (json_of_bool state) = Inr state"
    by (simp add: data_to_state_def json_unmarshal_def json_parse_bool decode_bool_def)
  moreover have "isl (data_to_state [])"
    by (simp add: data_to_state_def json_unmarshal_def json_parse_def json_start_def)
  ultimately show ?thesis
    by (simp add: state_events_def state_event_def mute_mic_event_def mute_full_event_def hard_denoise_event_def
        soft_denoise_event_def webcam_event_def screen_event_def webcam_key_frame_event_def
        screen_key_frame_event_def general_event_def general_roundtrip eval_nat_numeral)
qed

end
