(* ===== verification/Handler_Api.thy ===== *)
theory Handler_Api
  imports Net_Service_Props Events
begin

text \<open>
  The public API: \<open>NetworkingHandler\<close> (\<open>internal/handlers/networking-handler.go\<close>), which frames data,
  bounds every call by a timeout and turns errors into codes, and the methods of the
  root package that wrap the user's callbacks (\<open>callbacks.go\<close>). A timeout shows as \<open>ctx_done\<close> and in the environments.
\<close>

section \<open>Errors become codes\<close>

primrec api_result :: "'a res \<Rightarrow> 'a res" where
  "api_result (Ok a) = Ok a"
| "api_result (Err e) = Err (process_error e)"
| "api_result Panic = Panic"

lemma api_result_simps [simp]:
  "api_result r = Ok a \<longleftrightarrow> r = Ok a" "api_result r = Panic \<longleftrightarrow> r = Panic"
  by (cases r; simp)+

section \<open>Connections\<close>

text \<open>The result of the two connecting calls, once the wait is over.\<close>

definition api_connect :: "connect_env \<Rightarrow> uuid \<Rightarrow> 'c net \<Rightarrow> connect_phase \<times> 'c net" where
  "api_connect env receiverId s = connect env receiverId s"

definition api_connect_by_id :: "create_env \<Rightarrow> uuid \<Rightarrow> 'c net \<Rightarrow> connect_phase \<times> 'c net" where
  "api_connect_by_id env receiverId s = connect_by_id env receiverId s"

definition api_connected :: "connect_phase \<Rightarrow> 'c net \<Rightarrow> unit res option" where
  "api_connected p s = map_option api_result (wait_ready p s)"

definition api_disconnect :: "(sref list \<Rightarrow> sref list) \<Rightarrow> 'c net \<Rightarrow> unit res \<times> 'c net" where
  "api_disconnect order s = (let (r, t) = disconnect order s in (api_result r, t))"

definition api_disconnect_by_id :: "bool \<Rightarrow> uuid \<Rightarrow> 'c net \<Rightarrow> unit res \<times> 'c net" where
  "api_disconnect_by_id ctx_done i s = (let (r, t) = disconnect_from_id ctx_done i s in (api_result r, t))"

section \<open>Sending\<close>

definition api_send_event :: "bool \<Rightarrow> 'c net \<Rightarrow> sref list res" where
  "api_send_event ctx_done s = api_result (send_in_event_stream ctx_done s)"

definition api_send_message :: "bool \<Rightarrow> bytes \<Rightarrow> 'c net \<Rightarrow> sref list res \<times> 'c net" where
  "api_send_message ctx_done msg s =
     (let (r, t) = send_in_stream ctx_done (set_first_byte (msg_byte CHAT) msg) s in (api_result r, t))"

definition api_send_voice :: "bool \<Rightarrow> bytes \<Rightarrow> 'c net \<Rightarrow> sref list res \<times> 'c net" where
  "api_send_voice ctx_done data s =
     (let (r, t) = send_in_stream ctx_done (set_first_byte (msg_byte VOICE) data) s in (api_result r, t))"

definition api_send_webcam :: "bool \<Rightarrow> bytes \<Rightarrow> 'c net \<Rightarrow> sref list res \<times> 'c net" where
  "api_send_webcam ctx_done data s =
     (let (r, t) = send_in_stream ctx_done (set_first_byte (msg_byte WEBCAM) data) s in (api_result r, t))"

definition api_send_screen :: "bool \<Rightarrow> bytes \<Rightarrow> 'c net \<Rightarrow> sref list res \<times> 'c net" where
  "api_send_screen ctx_done data s =
     (let (r, t) = send_in_stream ctx_done (set_first_byte (msg_byte SCREEN) data) s in (api_result r, t))"

section \<open>Fetching\<close>

definition api_fetch_online ::
    "uuid_lib \<Rightarrow> bytes call \<Rightarrow> 32 word \<Rightarrow> 'c net \<Rightarrow> uuid list res \<times> 'c net" where
  "api_fetch_online ul answer logCount s =
     (let (r, t) = fetch_online ul answer logCount s in (api_result r, t))"

definition api_fetch_sessions ::
    "uuid_lib \<Rightarrow> uuid \<Rightarrow> bytes call \<Rightarrow> 32 word \<Rightarrow> 'c net \<Rightarrow> uuid list res \<times> 'c net" where
  "api_fetch_sessions ul i answer logCount s =
     (let (r, t) = fetch_sessions_by_id ul i answer logCount s in (api_result r, t))"

definition api_fetch_friends ::
    "uuid_lib \<Rightarrow> uuid list \<Rightarrow> bytes call \<Rightarrow> 32 word \<Rightarrow> 'c net \<Rightarrow>
     (uuid \<rightharpoonup> string list) res \<times> 'c net" where
  "api_fetch_friends ul ids answer logCount s =
     (let (r, t) = fetch_online_friends ul ids answer logCount s in (api_result r, t))"

section \<open>Callbacks (callbacks.go)\<close>

text \<open>The handler's methods that store a callback.\<close>

definition api_on_chat :: "'c data_handler \<Rightarrow> 'c net \<Rightarrow> 'c net" where
  [simp]: "api_on_chat f = save_chat_handler f"

definition api_on_webcam :: "'c data_handler \<Rightarrow> 'c net \<Rightarrow> 'c net" where
  [simp]: "api_on_webcam f = save_webcam_handler f"

definition api_on_screen :: "'c data_handler \<Rightarrow> 'c net \<Rightarrow> 'c net" where
  [simp]: "api_on_screen f = save_screen_handler f"

definition api_on_voice :: "'c data_handler \<Rightarrow> 'c net \<Rightarrow> 'c net" where
  [simp]: "api_on_voice f = save_voice_handler f"

definition api_on_peer_connected :: "'c connection_handler \<Rightarrow> 'c net \<Rightarrow> 'c net" where
  [simp]: "api_on_peer_connected f = save_peer_connected_handler f"

definition api_on_peer_disconnected :: "'c connection_handler \<Rightarrow> 'c net \<Rightarrow> 'c net" where
  [simp]: "api_on_peer_disconnected f = save_peer_disconnected_handler f"

definition api_on_event :: "'c event_handler \<Rightarrow> 'c net \<Rightarrow> 'c net" where
  [simp]: "api_on_event f = save_event_handler f"

text \<open>A nil callback is ignored; the data callbacks are not called with empty data.\<close>

definition non_empty :: "'c data_handler \<Rightarrow> 'c data_handler" where
  "non_empty cb i data = (if length data = 0 then [] else cb i data)"

definition register_on_chat :: "'c data_handler option \<Rightarrow> 'c net \<Rightarrow> 'c net" where
  "register_on_chat cb s = (case cb of None \<Rightarrow> s | Some f \<Rightarrow> api_on_chat (non_empty f) s)"

definition register_on_webcam :: "'c data_handler option \<Rightarrow> 'c net \<Rightarrow> 'c net" where
  "register_on_webcam cb s = (case cb of None \<Rightarrow> s | Some f \<Rightarrow> api_on_webcam (non_empty f) s)"

definition register_on_screen :: "'c data_handler option \<Rightarrow> 'c net \<Rightarrow> 'c net" where
  "register_on_screen cb s = (case cb of None \<Rightarrow> s | Some f \<Rightarrow> api_on_screen (non_empty f) s)"

definition register_on_voice :: "'c data_handler option \<Rightarrow> 'c net \<Rightarrow> 'c net" where
  "register_on_voice cb s = (case cb of None \<Rightarrow> s | Some f \<Rightarrow> api_on_voice (non_empty f) s)"

definition register_on_peer_connected :: "'c connection_handler option \<Rightarrow> 'c net \<Rightarrow> 'c net" where
  "register_on_peer_connected cb s =
     (case cb of None \<Rightarrow> s | Some f \<Rightarrow> api_on_peer_connected (\<lambda>i. f i) s)"

definition register_on_peer_disconnected :: "'c connection_handler option \<Rightarrow> 'c net \<Rightarrow> 'c net" where
  "register_on_peer_disconnected cb s =
     (case cb of None \<Rightarrow> s | Some f \<Rightarrow> api_on_peer_disconnected (\<lambda>i. f i) s)"

definition register_on_event :: "'c event_handler option \<Rightarrow> 'c net \<Rightarrow> 'c net" where
  "register_on_event cb s = (case cb of None \<Rightarrow> s | Some f \<Rightarrow> api_on_event (\<lambda>i e. f i e) s)"

lemmas api_defs [go_defs] =
  api_connect_def api_connect_by_id_def api_connected_def api_disconnect_def api_disconnect_by_id_def
  api_send_event_def api_send_message_def api_send_voice_def api_send_webcam_def api_send_screen_def
  api_fetch_online_def api_fetch_sessions_def api_fetch_friends_def

lemmas register_defs [go_defs] =
  non_empty_def register_on_chat_def register_on_webcam_def register_on_screen_def
  register_on_voice_def register_on_peer_connected_def register_on_peer_disconnected_def
  register_on_event_def

section \<open>Properties\<close>

text \<open>What sending framed data comes to.\<close>

lemma send_in_stream_framed:
  assumes "nw_DatagramLogTargetCount (ns_cfg s) \<noteq> 0"
  shows "fst (send_in_stream ctx_done (b # data) s) =
    (if ctx_done then Err (new_app_error ''networkingServ.SendMessage'' (err_request_timeout ''sessionRepository.Fetch''))
     else if ns_repo s = [] then Err (err_not_found ''networkingServ.SendMessage'')
     else Ok (filter (\<lambda>r. has_conn s r \<and> session_ready s r) (map snd (ns_repo s))))"
  using assms
  by (simp add: send_in_stream_def sparse_guard_def stored_sessions_def repo_fetch_def fold_collect
      has_conn_def session_ready_def Let_def)

text \<open>
  C31: through the public API a payload may be empty: with a positive log target the four send
  calls do not panic, report a timeout when their context is done and \<open>not found\<close> without a
  session, and send to the same sessions whatever the type and the payload.
\<close>

theorem api_send_total:
  assumes "nw_DatagramLogTargetCount (ns_cfg s) \<noteq> 0"
  shows "fst (api_send_message ctx_done data s) =
      (if ctx_done then Err (new_error_message H_REQUEST_TIMEOUT)
       else if ns_repo s = [] then Err (new_error_message H_NOT_FOUND)
       else Ok (filter (\<lambda>r. has_conn s r \<and> session_ready s r) (map snd (ns_repo s)))) \<and>
    fst (api_send_voice ctx_done data' s) = fst (api_send_message ctx_done data s) \<and>
    fst (api_send_webcam ctx_done data' s) = fst (api_send_message ctx_done data s) \<and>
    fst (api_send_screen ctx_done data' s) = fst (api_send_message ctx_done data s)"
  by (simp add: api_send_message_def api_send_voice_def api_send_webcam_def api_send_screen_def
      split_beta send_in_stream_framed [OF assms] app_error_defs process_error_def)

theorem api_send_total_witness: "fst (api_send_message False [] ready_net) = Ok [0]"
  using api_send_total [of ready_net False "[]" "[]"]
  by (simp add: sample_cfg_def has_conn_def session_ready_def chan_recv_def sample_session_def)

text \<open>
  A callback registered for chat messages is called for every later message of any peer with
  the peer's id and the payload, and not called for an empty payload; registering nil keeps the
  callback that was there.
\<close>

lemma registered_chat_callback:
  assumes "ns_heap s r = Some x"
  shows "process_data r (set_first_byte (msg_byte CHAT) payload) (register_on_chat (Some cb) s) =
           Ok (call_data (Some (non_empty cb)) (UserID x) payload (register_on_chat (Some cb) s)) \<and>
         (\<forall>t. ns_calls (call_data (Some (non_empty cb)) (UserID x) payload t) =
            ns_calls t @ (if payload = [] then [] else cb (UserID x) payload)) \<and>
         register_on_chat None (register_on_chat (Some cb) s) = register_on_chat (Some cb) s"
  using assms
  by (simp add: process_data_def register_on_chat_def save_chat_handler_def call_data_def non_empty_def)

lemma registered_chat_callback_witness:
  "process_data 0 [0, 65] (register_on_chat (Some (\<lambda>i p. [GotChat i p])) sample_net) =
     Ok (call_data (Some (non_empty (\<lambda>i p. [GotChat i p]))) 7 [65]
           (register_on_chat (Some (\<lambda>i p. [GotChat i p])) sample_net))"
  using registered_chat_callback [OF sample_net_simps(1), of "[65]" "\<lambda>i p. [GotChat i p]"] by simp

end
