(* ===== verification/Signaling_Client.thy ===== *)
theory Signaling_Client
  imports Net_State
begin

text \<open>
  The client of the signaling server (\<open>internal/client\<close>): its requests, the table of pending
  responses, the workers of a connection and the loop that serves and renews the connection.

  The message types and their type numbers come from the package \<open>alohsignalling\<close>, which is not
  in the repository; the model keeps the type names and the fields the client writes and reads.
  The structs handed to \<open>json.Marshal\<close> are kept as values (\<open>message_data\<close>): ids and byte slices
  always encode.
\<close>

section \<open>Protocol (protocol.go)\<close>

datatype request_type =
    REG_TYPE | STREAM_TYPE | DATAGRAM_TYPE | DISCONN_TYPE | GET_ONLINE_TYPE | ADD_IN_SESSION
  | GET_SESSIONS_BY_ID | DELETE_FROM_SESSION | GET_ONLINE_FRIENDS

datatype sig_code =
    SUCCESS | NOT_FOUND | ALREADY_EXISTS | REQUEST_TIMEOUT | PAYLOAD_SUCCESS | INVALID_PROTOCOL
  | STREAM_ERROR | INVALID_TYPE | OFFLINE | INTERNAL_ERROR

primrec sig_code_num :: "sig_code \<Rightarrow> nat" where
  "sig_code_num SUCCESS = 0"
| "sig_code_num NOT_FOUND = 1"
| "sig_code_num ALREADY_EXISTS = 2"
| "sig_code_num REQUEST_TIMEOUT = 3"
| "sig_code_num PAYLOAD_SUCCESS = 4"
| "sig_code_num INVALID_PROTOCOL = 5"
| "sig_code_num STREAM_ERROR = 6"
| "sig_code_num INVALID_TYPE = 7"
| "sig_code_num OFFLINE = 8"
| "sig_code_num INTERNAL_ERROR = 9"

datatype message_data =
  NoData | UserIdData uuid | SendPayloadData "uuid list" bytes | FriendsData "uuid list"

record message =
  msg_Id :: uuid
  msg_Type :: request_type
  msg_Data :: message_data

record response_message =
  rm_Code :: nat
  rm_MessageId :: uuid
  rm_Payload :: bytes

record reply_message =
  Sender :: uuid
  Payload :: bytes

text \<open>\<open>ToReplyMessage\<close> and \<open>ToCredsMessage\<close>: \<open>decoded\<close> is the answer of \<open>json.Unmarshal\<close>.\<close>

definition to_reply_message :: "reply_message call \<Rightarrow> reply_message res" where
  "to_reply_message decoded =
     (case decoded of Inl e \<Rightarrow> Err (err_invalid_json ''protocols.ReplyMeToReplyMessagessage'' e)
      | Inr m \<Rightarrow> Ok m)"

definition to_creds_message :: "(string \<times> string) call \<Rightarrow> (string \<times> string) res" where
  "to_creds_message decoded =
     (case decoded of Inl e \<Rightarrow> Err (err_invalid_json ''protocols.ToCredsMessage'' e)
      | Inr m \<Rightarrow> Ok m)"

text \<open>The converters the server's side uses, in the same way.\<close>

definition to_register_connect_message :: "uuid call \<Rightarrow> uuid res" where
  "to_register_connect_message decoded =
     (case decoded of Inl e \<Rightarrow> Err (err_invalid_json ''protocols.ToRegisterConnectMessage'' e)
      | Inr m \<Rightarrow> Ok m)"

definition to_send_payload_message :: "(uuid list \<times> bytes) call \<Rightarrow> (uuid list \<times> bytes) res" where
  "to_send_payload_message decoded =
     (case decoded of Inl e \<Rightarrow> Err (err_invalid_json ''protocols.ToSendPayloadMessage'' e)
      | Inr m \<Rightarrow> Ok m)"

definition new_reply_message :: "(reply_message \<Rightarrow> bytes call) \<Rightarrow> uuid \<Rightarrow> bytes \<Rightarrow> bytes res" where
  "new_reply_message encode senderId payload =
     (case encode \<lparr>Sender = senderId, Payload = payload\<rparr> of
        Inl e \<Rightarrow> Err (err_invalid_json ''protocols.NewReplyMessage'' e)
      | Inr bs \<Rightarrow> Ok bs)"

definition code_to_error :: "string \<Rightarrow> nat \<Rightarrow> go_error" where
  "code_to_error op code =
     (if code = sig_code_num NOT_FOUND then err_not_found op
      else if code = sig_code_num ALREADY_EXISTS then err_already_exists op
      else if code = sig_code_num REQUEST_TIMEOUT then err_request_timeout op
      else err_internal op)"

section \<open>The client\<close>

text \<open>
  \<open>sc_pending\<close> is the \<open>sync.Map\<close> from message ids to channels; the channels live in a heap, because
  a request keeps its channel after the table has dropped it. \<open>sc_coder\<close> is the stream the JSON
  decoder and encoder are bound to. The buffered channels \<open>sendMsgs\<close> and \<open>receiveSDPs\<close> are made by
  \<open>app.Init\<close>; their capacities are configured and taken to be positive.
\<close>

type_synonym cref = nat

record sig_client =
  sc_conn :: "conn_id option"
  sc_ctrlStream :: "stream_id option"
  sc_coder :: "stream_id option"
  sc_sendMsgs :: "message chan"
  sc_receiveSDPs :: "reply_message chan"
  sc_closing :: bool
  sc_pending :: "(uuid \<times> cref) list"
  sc_chans :: "cref \<rightharpoonup> response_message chan"
  sc_next :: cref
  sc_isOnline :: bool
  sc_username :: string
  sc_password :: string
  sc_lib :: "lib_call list"

definition new_signaling_client :: "nat \<Rightarrow> nat \<Rightarrow> sig_client" where
  "new_signaling_client sendSize receiveSize =
     \<lparr>sc_conn = None, sc_ctrlStream = None, sc_coder = None, sc_sendMsgs = make_chan sendSize,
      sc_receiveSDPs = make_chan receiveSize, sc_closing = False, sc_pending = [],
      sc_chans = Map.empty, sc_next = 0, sc_isOnline = True, sc_username = [], sc_password = [],
      sc_lib = []\<rparr>"

section \<open>Requests (helper.go, signaling-client.go)\<close>

text \<open>
  \<open>getPayload\<close>, \<open>sendPayload\<close> and \<open>sendCommand\<close> differ in their operation's name, in the code they
  expect and in the message. A request is the name of the public method, the name of the helper,
  the expected code and the message.
\<close>

record request =
  rq_method :: string
  rq_op :: string
  rq_typee :: nat
  rq_msg :: message

definition get_payload :: "string \<Rightarrow> request_type \<Rightarrow> message_data \<Rightarrow> uuid \<Rightarrow> request" where
  "get_payload method msgType data msgId =
     \<lparr>rq_method = method, rq_op = ''signalingClient.getPayload'', rq_typee = sig_code_num PAYLOAD_SUCCESS,
      rq_msg = \<lparr>msg_Id = msgId, msg_Type = msgType, msg_Data = data\<rparr>\<rparr>"

definition send_payload :: "string \<Rightarrow> uuid list \<Rightarrow> bytes \<Rightarrow> uuid \<Rightarrow> request" where
  "send_payload method ids data msgId =
     \<lparr>rq_method = method, rq_op = ''signalingClient.sendPayload'', rq_typee = sig_code_num SUCCESS,
      rq_msg = \<lparr>msg_Id = msgId, msg_Type = STREAM_TYPE, msg_Data = SendPayloadData ids data\<rparr>\<rparr>"

definition send_command :: "string \<Rightarrow> request_type \<Rightarrow> message_data \<Rightarrow> uuid \<Rightarrow> request" where
  "send_command method msgType data msgId =
     \<lparr>rq_method = method, rq_op = ''signalingClient.sendCommand'', rq_typee = sig_code_num SUCCESS,
      rq_msg = \<lparr>msg_Id = msgId, msg_Type = msgType, msg_Data = data\<rparr>\<rparr>"

text \<open>The public methods, by the calls the networking service makes.\<close>

primrec request_of :: "sig_call \<Rightarrow> uuid \<Rightarrow> request" where
  "request_of (NewSDP sdp ids) = send_payload ''signalingClient.NewSDP'' ids sdp"
| "request_of GetOnline = get_payload ''signalingClient.GetOnline'' GET_ONLINE_TYPE NoData"
| "request_of (GetSessionsById i) =
     get_payload ''signalingClient.GetSessionsById'' GET_SESSIONS_BY_ID (UserIdData i)"
| "request_of (GetFriendsOnline ids) =
     get_payload ''signalingClient.GetFriendsOnline'' GET_ONLINE_FRIENDS (FriendsData ids)"
| "request_of (AddInSession i) =
     send_command ''signalingClient.AddInSession'' ADD_IN_SESSION (UserIdData i)"
| "request_of (DeleteFromSession i) =
     send_command ''signalingClient.DeleteFromSession'' DELETE_FROM_SESSION (UserIdData i)"

text \<open>The start of a request: the online check, then the channel is made and stored.\<close>

definition request_begin :: "request \<Rightarrow> sig_client \<Rightarrow> cref res \<times> sig_client" where
  "request_begin q s =
     (if \<not> sc_isOnline s then (Err (err_offline (rq_op q)), s)
      else let c = sc_next s; i = msg_Id (rq_msg q) in
        (Ok c, s\<lparr>sc_chans := (sc_chans s)(c \<mapsto> make_chan 1), sc_next := Suc c,
                 sc_pending := (i, c) # filter (\<lambda>p. fst p \<noteq> i) (sc_pending s)\<rparr>))"

text \<open>
  The two \<open>select\<close>s of \<open>checkResp\<close>. The case taken is an argument; the result is \<open>None\<close> when that
  case is not ready. Sending on a closed channel panics.
\<close>

datatype queue_case = OnSend | OnQueueCtx

definition check_resp_send ::
    "request \<Rightarrow> queue_case \<Rightarrow> bool \<Rightarrow> sig_client \<Rightarrow> (unit res \<times> sig_client) option" where
  "check_resp_send q k ctx_done s =
     (case k of
        OnQueueCtx \<Rightarrow> if ctx_done then Some (Err (err_request_timeout (rq_op q)), s) else None
      | OnSend \<Rightarrow>
          if ch_closed (sc_sendMsgs s) then Some (Panic, s)
          else if length (ch_buf (sc_sendMsgs s)) < ch_cap (sc_sendMsgs s)
          then Some (Ok (), s\<lparr>sc_sendMsgs := (sc_sendMsgs s)
                 \<lparr>ch_buf := ch_buf (sc_sendMsgs s) @ [rq_msg q]\<rparr>\<rparr>)
          else None)"

datatype resp_case = OnResp | OnRespCtx | OnClose

definition check_resp_wait ::
    "request \<Rightarrow> cref \<Rightarrow> resp_case \<Rightarrow> bool \<Rightarrow> sig_client \<Rightarrow> (bytes res \<times> sig_client) option" where
  "check_resp_wait q c k ctx_done s =
     (case k of
        OnRespCtx \<Rightarrow> if ctx_done then Some (Err (err_request_timeout (rq_op q)), s) else None
      | OnClose \<Rightarrow> if sc_closing s then Some (Err (app_closing (rq_op q)), s) else None
      | OnResp \<Rightarrow>
          (case sc_chans s c of
             None \<Rightarrow> None
           | Some ch \<Rightarrow>
               (case chan_recv ch of
                  None \<Rightarrow> None
                | Some (None, ch') \<Rightarrow> Some (Err (Base ErrOfflineBase), s)
                | Some (Some resp, ch') \<Rightarrow>
                    Some (if rm_Code resp \<noteq> rq_typee q then Err (code_to_error (rq_op q) (rm_Code resp))
                          else Ok (rm_Payload resp),
                          s\<lparr>sc_chans := (sc_chans s)(c \<mapsto> ch')\<rparr>))))"

text \<open>The deferred \<open>Delete\<close>, and what the public method makes of the helper's result.\<close>

definition request_end :: "request \<Rightarrow> sig_client \<Rightarrow> sig_client" where
  "request_end q s = s\<lparr>sc_pending := filter (\<lambda>p. fst p \<noteq> msg_Id (rq_msg q)) (sc_pending s)\<rparr>"

definition request_result :: "request \<Rightarrow> 'a res \<Rightarrow> 'a res" where
  "request_result q r = wrap_op (rq_method q) r"

definition get_creds :: "bool \<Rightarrow> sig_client \<Rightarrow> (string \<times> string) res" where
  "get_creds ctx_done s =
     (if ctx_done then Err (err_request_timeout ''signalingClient.GetCreds'')
      else Ok (sc_username s, sc_password s))"

definition is_online :: "sig_client \<Rightarrow> bool" where
  "is_online s = sc_isOnline s"

section \<open>The workers of a connection\<close>

text \<open>
  A worker goes on or returns; \<open>Returned None\<close> is a nil error, which \<open>serveConnection\<close> does not
  hear of.
\<close>

datatype worker = GoesOn | Stopped "go_error option"

definition worker_error :: "string \<Rightarrow> go_error \<Rightarrow> worker" where
  "worker_error op e =
     (case check_err e of None \<Rightarrow> Stopped None | Some _ \<Rightarrow> Stopped (Some (new_app_error op e)))"

text \<open>
  \<open>receiveResponses\<close> loads the channel of a response and sends to it in a second step: \<open>None\<close> while
  the channel is full.
\<close>

definition response_load :: "response_message \<Rightarrow> sig_client \<Rightarrow> cref option" where
  "response_load m s = map_of (sc_pending s) (rm_MessageId m)"

definition response_send :: "cref \<Rightarrow> response_message \<Rightarrow> sig_client \<Rightarrow> sig_client res option" where
  "response_send c m s =
     (case sc_chans s c of
        None \<Rightarrow> None
      | Some ch \<Rightarrow>
          if ch_closed ch then Some Panic
          else if length (ch_buf ch) < ch_cap ch
          then Some (Ok (s\<lparr>sc_chans := (sc_chans s)(c \<mapsto> ch\<lparr>ch_buf := ch_buf ch @ [m]\<rparr>)\<rparr>))
          else None)"

text \<open>
  The \<open>select\<close> at the head of the loops of \<open>receiveResponses\<close> and \<open>receiveSDP\<close>: \<open>ctx.Err()\<close> of a
  cancelled context is \<open>context.Canceled\<close>.
\<close>

definition ctx_check :: "bool \<Rightarrow> worker option" where
  "ctx_check ctx_done = (if ctx_done then Some (Stopped (Some CtxCanceled)) else None)"

text \<open>
  One turn of the loop of \<open>receiveResponses\<close>: the worker and the message it took with the channel
  it belongs to. The decoder is the one the client has at the time of the call; there may be none any
  more, and then the call panics.
\<close>

definition responses_got ::
    "response_message call \<Rightarrow> sig_client \<Rightarrow> worker \<times> (response_message \<times> cref) option" where
  "responses_got decoded s =
     (case decoded of
        Inl e \<Rightarrow> (worker_error ''signalingClient.receiveResponses'' e, None)
      | Inr m \<Rightarrow> (GoesOn, map_option (\<lambda>c. (m, c)) (response_load m s)))"

definition receive_responses_turn ::
    "bool \<Rightarrow> response_message call \<Rightarrow> sig_client \<Rightarrow> (worker \<times> (response_message \<times> cref) option) res" where
  "receive_responses_turn ctx_done decoded s =
     (case ctx_check ctx_done of
        Some w \<Rightarrow> Ok (w, None)
      | None \<Rightarrow> if sc_coder s = None then Panic else Ok (responses_got decoded s))"

text \<open>
  One turn of \<open>sendMsg\<close>, \<open>None\<close> while it waits. The \<open>break\<close> after an error that \<open>CheckErr\<close> passes over
  leaves the \<open>select\<close>, not the loop. A closed channel yields a zero message. Encoding panics when the
  client has no encoder any more.
\<close>

definition zero_message :: message where
  "zero_message = \<lparr>msg_Id = 0, msg_Type = REG_TYPE, msg_Data = NoData\<rparr>"

datatype send_case = OnSendCtx | OnMsg

definition send_msg_turn ::
    "send_case \<Rightarrow> bool \<Rightarrow> unit call \<Rightarrow> sig_client \<Rightarrow> (worker \<times> message option \<times> sig_client) res option" where
  "send_msg_turn k ctx_done encoded s =
     (case k of
        OnSendCtx \<Rightarrow> if ctx_done then Some (Ok (Stopped (Some CtxCanceled), None, s)) else None
      | OnMsg \<Rightarrow>
          (case chan_recv (sc_sendMsgs s) of
             None \<Rightarrow> None
           | Some (m, ch) \<Rightarrow>
               let s1 = s\<lparr>sc_sendMsgs := ch\<rparr> in
               if sc_coder s1 = None then Some Panic
               else (case encoded of
                  Inr _ \<Rightarrow> Some (Ok (GoesOn, Some (case m of Some x \<Rightarrow> x | None \<Rightarrow> zero_message), s1))
                | Inl e \<Rightarrow>
                    (case check_err e of
                       None \<Rightarrow> Some (Ok (GoesOn, None, s1))
                     | Some _ \<Rightarrow>
                         Some (Ok (Stopped (Some (new_app_error ''signalingClient.sendMsg'' e)), None, s1))))))"

text \<open>
  One turn of \<open>receiveSDP\<close>: \<open>read\<close> is the answer of \<open>AcceptUniStream\<close>, called on the connection the
  client has then, and \<open>ReadAll\<close>; \<open>decoded\<close> is that of the decoder. The send on \<open>receiveSDPs\<close> waits while
  the channel is full (\<open>None\<close>) and panics when it is closed.
\<close>

definition sdp_got :: "unit call \<Rightarrow> reply_message call \<Rightarrow> (worker + reply_message) res" where
  "sdp_got read decoded =
     (let op = ''signalingClient.receiveSDP'' in
      case read of
        Inl e \<Rightarrow> Ok (Inl (worker_error op e))
      | Inr _ \<Rightarrow>
          (case to_reply_message decoded of
             Err e \<Rightarrow> Ok (Inl (worker_error op e))
           | Panic \<Rightarrow> Panic
           | Ok m \<Rightarrow> Ok (Inr m)))"

definition sdp_send :: "reply_message \<Rightarrow> sig_client \<Rightarrow> sig_client res option" where
  "sdp_send m s =
     (if ch_closed (sc_receiveSDPs s) then Some Panic
      else if length (ch_buf (sc_receiveSDPs s)) < ch_cap (sc_receiveSDPs s)
      then Some (Ok (s\<lparr>sc_receiveSDPs := (sc_receiveSDPs s)\<lparr>ch_buf := ch_buf (sc_receiveSDPs s) @ [m]\<rparr>\<rparr>))
      else None)"

definition receive_sdp_turn ::
    "bool \<Rightarrow> unit call \<Rightarrow> reply_message call \<Rightarrow> sig_client \<Rightarrow> (worker \<times> sig_client) res option" where
  "receive_sdp_turn ctx_done read decoded s =
     (case ctx_check ctx_done of
        Some w \<Rightarrow> Some (Ok (w, s))
      | None \<Rightarrow>
          if sc_conn s = None then Some Panic
          else (case sdp_got read decoded of
                  Ok (Inl w) \<Rightarrow> Some (Ok (w, s))
                | Ok (Inr m) \<Rightarrow> map_option (\<lambda>sent. go_bind sent (\<lambda>t. Ok (GoesOn, t))) (sdp_send m s)
                | Err e \<Rightarrow> Some (Err e)
                | Panic \<Rightarrow> Some Panic))"

section \<open>Serving a connection\<close>

text \<open>\<open>clearPendingResponses\<close> closes the channel of every entry and deletes the entry.\<close>

definition clear_entry :: "uuid \<times> cref \<Rightarrow> sig_client \<Rightarrow> sig_client res" where
  "clear_entry p s =
     (case sc_chans s (snd p) of
        None \<Rightarrow> Panic
      | Some ch \<Rightarrow>
          go_bind (chan_close ch) (\<lambda>ch'.
            Ok (s\<lparr>sc_chans := (sc_chans s)(snd p \<mapsto> ch'),
                  sc_pending := filter (\<lambda>q. fst q \<noteq> fst p) (sc_pending s)\<rparr>)))"

fun clear_entries :: "(uuid \<times> cref) list \<Rightarrow> sig_client \<Rightarrow> sig_client res" where
  "clear_entries [] s = Ok s"
| "clear_entries (p # ps) s = go_bind (clear_entry p s) (clear_entries ps)"

definition clear_pending_responses :: "sig_client \<Rightarrow> sig_client res" where
  "clear_pending_responses s = clear_entries (sc_pending s) s"

record register_env =
  re_open :: "stream_id call"
  re_encode :: "unit call"
  re_decode :: "response_message call"
  re_creds :: "(string \<times> string) call"

definition register_connect :: "register_env \<Rightarrow> sig_client \<Rightarrow> unit res \<times> sig_client" where
  "register_connect env s =
     (let op = ''signalingClient.registerConnect'' in
      try_op op (of_call (re_open env)) s (\<lambda>ctrlStream.
        let s1 = s\<lparr>sc_coder := Some ctrlStream, sc_ctrlStream := Some ctrlStream\<rparr> in
      try_op op (of_call (re_encode env)) s1 (\<lambda>_.
      try_op op (of_call (re_decode env)) s1 (\<lambda>responseMsg.
        if rm_Code responseMsg \<noteq> sig_code_num PAYLOAD_SUCCESS
        then (Err (code_to_error op (rm_Code responseMsg)), s1)
        else try_op op (to_creds_message (re_creds env)) s1 (\<lambda>(username, password).
          (Ok (), s1\<lparr>sc_password := password, sc_username := username\<rparr>))))))"

definition sig_lib :: "lib_call list \<Rightarrow> sig_client \<Rightarrow> sig_client" where
  "sig_lib qs s = s\<lparr>sc_lib := sc_lib s @ qs\<rparr>"

text \<open>
  \<open>CloseConnection\<close>: \<open>conn_close\<close> and \<open>stream_closed\<close> are the answers of the two library calls.
\<close>

definition close_connection ::
    "nat \<Rightarrow> string \<Rightarrow> unit call \<Rightarrow> unit call \<Rightarrow> sig_client \<Rightarrow> unit res \<times> sig_client" where
  "close_connection code desc conn_closed stream_closed s =
     (let op = ''signalingClient.Close'';
          s1 = (case sc_conn s of None \<Rightarrow> s | Some c \<Rightarrow> sig_lib [ConnClose c code desc] s) in
      try_op op (if sc_conn s = None then Ok () else of_call conn_closed) s1 (\<lambda>_.
        let s2 = (case sc_ctrlStream s1 of None \<Rightarrow> s1 | Some e \<Rightarrow> sig_lib [StreamClose e] s1) in
      try_op op (if sc_ctrlStream s1 = None then Ok () else of_call stream_closed) s2 (\<lambda>_. (Ok (), s2))))"

text \<open>
  \<open>serveConnection\<close> up to the start of its workers, its \<open>select\<close> (\<open>None\<close> while it waits), and what
  follows. \<open>errChan\<close> holds the errors of the workers that stopped with one.
\<close>

definition serve_start :: "conn_id call \<Rightarrow> register_env \<Rightarrow> sig_client \<Rightarrow> unit res \<times> sig_client" where
  "serve_start dialed env s =
     (let op = ''signalingClient.Run'' in
      try_op op (of_call dialed) s (\<lambda>conn.
        let (registered, s1) = register_connect env (s\<lparr>sc_conn := Some conn\<rparr>) in
        case registered of
          Ok _ \<Rightarrow> (Ok (), s1\<lparr>sc_isOnline := True\<rparr>)
        | Err e \<Rightarrow>
            (Err (new_app_error op e),
             (sig_lib [ConnClose conn 0 ''register failed''] s1)\<lparr>sc_conn := None\<rparr>)
        | Panic \<Rightarrow> (Panic, s1)))"

text \<open>The goroutine around a worker: what a worker that stopped leaves on \<open>errChan\<close>, which has room for all.\<close>

definition worker_report :: "worker \<Rightarrow> go_error list \<Rightarrow> go_error list" where
  "worker_report w errChan =
     (case w of Stopped (Some e) \<Rightarrow> errChan @ [e] | Stopped None \<Rightarrow> errChan | GoesOn \<Rightarrow> errChan)"

datatype serve_case = OnServeCtx | OnErr

definition serve_select :: "serve_case \<Rightarrow> bool \<Rightarrow> go_error list \<Rightarrow> go_error option" where
  "serve_select k ctx_done errChan =
     (case k of
        OnServeCtx \<Rightarrow> if ctx_done then Some CtxCanceled else None
      | OnErr \<Rightarrow> (case errChan of [] \<Rightarrow> None | e # _ \<Rightarrow> Some (new_app_error ''signalingClient.Run'' e)))"

definition serve_close ::
    "bool \<Rightarrow> unit call \<Rightarrow> unit call \<Rightarrow> go_error \<Rightarrow> sig_client \<Rightarrow> sig_client" where
  "serve_close ctx_done conn_closed stream_closed ferr s =
     (let s1 = s\<lparr>sc_isOnline := False\<rparr> in
      if sc_conn s1 \<noteq> None \<and> sc_ctrlStream s1 \<noteq> None \<and> \<not> (ctx_done \<and> errors_is ferr CtxCanceled)
      then let (_, s2) = close_connection 0 ''conenction lost'' conn_closed stream_closed s1
           in s2\<lparr>sc_conn := None, sc_ctrlStream := None, sc_coder := None\<rparr>
      else s1)"

definition serve_stop ::
    "bool \<Rightarrow> unit call \<Rightarrow> unit call \<Rightarrow> go_error \<Rightarrow> sig_client \<Rightarrow> sig_client res" where
  "serve_stop ctx_done conn_closed stream_closed ferr s =
     go_bind (clear_pending_responses s) (\<lambda>s1. Ok (serve_close ctx_done conn_closed stream_closed ferr s1))"

text \<open>
  The loop of \<open>Run\<close> after \<open>serveConnection\<close> returned and after the wait: whether it serves again.
\<close>

definition run_again :: "bool \<Rightarrow> bool \<Rightarrow> bool" where
  "run_again done_after_serve done_in_wait = (\<not> done_after_serve \<and> \<not> done_in_wait)"

lemmas signaling_defs [go_defs] =
  request_begin_def check_resp_send_def check_resp_wait_def request_end_def request_result_def
  get_creds_def is_online_def worker_error_def response_load_def response_send_def
  ctx_check_def responses_got_def receive_responses_turn_def send_msg_turn_def sdp_got_def sdp_send_def
  receive_sdp_turn_def clear_entry_def
  clear_pending_responses_def register_connect_def close_connection_def serve_start_def
  worker_report_def serve_select_def serve_close_def serve_stop_def run_again_def to_reply_message_def to_creds_message_def

end
