(* ===== verification/Signaling_Props.thy ===== *)
theory Signaling_Props
  imports Signaling_Client
begin

text \<open>
  The properties of the signaling client: which error codes survive, that a request is answered by
  the response to it and by no other, what the loss of a connection does to the requests that
  wait, and what a clean close by the server does.
\<close>

section \<open>Codes\<close>

text \<open>
  Of the codes the server reports, exactly not-found, already-exists and request-timeout reach
  the caller of the API as such, through any chain of operations; every other unexpected code,
  \<open>OFFLINE\<close> included, is reported as an internal error.
\<close>

lemma code_to_error_reported:
  "process_error (wrap_ops ops (code_to_error op (sig_code_num c))) =
     (case c of
        NOT_FOUND \<Rightarrow> new_error_message H_NOT_FOUND
      | ALREADY_EXISTS \<Rightarrow> new_error_message H_ALREADY_EXISTS
      | REQUEST_TIMEOUT \<Rightarrow> new_error_message H_REQUEST_TIMEOUT
      | _ \<Rightarrow> new_error_message H_INTERNAL_ERROR)"
  by (cases c) (simp_all add: code_to_error_def app_error_defs process_error_def)

section \<open>Requests and responses\<close>

text \<open>
  Any interleaving of requests, the response worker and the loss of the connection. \<open>rs\<close> are the
  requests ever started with their channels, \<open>ms\<close> the messages ever received, \<open>fl\<close> the message the
  response worker holds between loading the channel and sending. Every other operation leaves the
  table of requests as it is (\<open>Other\<close>).
\<close>

definition same_table :: "sig_client \<Rightarrow> sig_client \<Rightarrow> bool" where
  "same_table s t \<longleftrightarrow> sc_chans t = sc_chans s \<and> sc_pending t = sc_pending s \<and> sc_next t = sc_next s"

inductive sig_run ::
    "(request \<times> cref) list \<Rightarrow> response_message list \<Rightarrow> (response_message \<times> cref) option \<Rightarrow>
     sig_client \<Rightarrow> bool" where
  Init: "sig_run [] [] None (new_signaling_client n m)"
| Begin: "sig_run rs ms fl s \<Longrightarrow> request_begin q s = (Ok c, t) \<Longrightarrow> sig_run ((q, c) # rs) ms fl t"
| Wait: "sig_run rs ms fl s \<Longrightarrow> (q, c) \<in> set rs \<Longrightarrow> check_resp_wait q c k d s = Some (r, t) \<Longrightarrow>
    sig_run rs ms fl t"
| End: "sig_run rs ms fl s \<Longrightarrow> sig_run rs ms fl (request_end q s)"
| Take: "sig_run rs ms None s \<Longrightarrow> responses_got (Inr m) s = (GoesOn, fl) \<Longrightarrow>
    sig_run rs (m # ms) fl s"
| Deliver: "sig_run rs ms (Some (m, c)) s \<Longrightarrow> response_send c m s = Some (Ok t) \<Longrightarrow>
    sig_run rs ms None t"
| Clear: "sig_run rs ms fl s \<Longrightarrow> clear_pending_responses s = Ok t \<Longrightarrow> sig_run rs ms fl t"
| Other: "sig_run rs ms fl s \<Longrightarrow> same_table s t \<Longrightarrow> sig_run rs ms fl t"

text \<open>Every channel holds received responses to the request it was made for, and no others.\<close>

definition chans_match :: "(request \<times> cref) list \<Rightarrow> response_message list \<Rightarrow> sig_client \<Rightarrow> bool" where
  "chans_match rs ms s \<longleftrightarrow>
     (\<forall>q c. (q, c) \<in> set rs \<longrightarrow> c < sc_next s \<and>
        (\<exists>ch. sc_chans s c = Some ch \<and>
           (\<forall>m \<in> set (ch_buf ch). m \<in> set ms \<and> rm_MessageId m = msg_Id (rq_msg q))))"

definition pending_match :: "(request \<times> cref) list \<Rightarrow> sig_client \<Rightarrow> bool" where
  "pending_match rs s \<longleftrightarrow>
     distinct (map snd rs) \<and> distinct (map fst (sc_pending s)) \<and> distinct (map snd (sc_pending s)) \<and>
     (\<forall>i c. (i, c) \<in> set (sc_pending s) \<longrightarrow>
        (\<exists>q. (q, c) \<in> set rs \<and> msg_Id (rq_msg q) = i) \<and>
        (\<exists>ch. sc_chans s c = Some ch \<and> \<not> ch_closed ch))"

definition flight_match ::
    "(request \<times> cref) list \<Rightarrow> response_message list \<Rightarrow> (response_message \<times> cref) option \<Rightarrow> bool" where
  "flight_match rs ms fl \<longleftrightarrow>
     (\<forall>m c. fl = Some (m, c) \<longrightarrow> m \<in> set ms \<and>
        (\<exists>q. (q, c) \<in> set rs \<and> msg_Id (rq_msg q) = rm_MessageId m))"

lemmas match_defs = chans_match_def pending_match_def flight_match_def

lemma chans_matchD:
  assumes "chans_match rs ms s" "(q, c) \<in> set rs"
  obtains ch where "c < sc_next s" "sc_chans s c = Some ch"
    "\<forall>m \<in> set (ch_buf ch). m \<in> set ms \<and> rm_MessageId m = msg_Id (rq_msg q)"
  using assms unfolding chans_match_def by blast

lemma chans_matchI:
  assumes "\<And>q c. (q, c) \<in> set rs \<Longrightarrow> \<exists>ch. c < sc_next s \<and> sc_chans s c = Some ch \<and>
    (\<forall>m \<in> set (ch_buf ch). m \<in> set ms \<and> rm_MessageId m = msg_Id (rq_msg q))"
  shows "chans_match rs ms s"
  using assms unfolding chans_match_def by blast

lemma pending_matchD:
  assumes "pending_match rs s" "(i, c) \<in> set (sc_pending s)"
  obtains q ch where "(q, c) \<in> set rs" "msg_Id (rq_msg q) = i" "sc_chans s c = Some ch" "\<not> ch_closed ch"
  using assms unfolding pending_match_def by blast

text \<open>Clearing closes the channels of the table and empties it.\<close>

lemma clear_entries_run:
  assumes "distinct (map fst ps)" "distinct (map snd ps)" "set ps \<subseteq> set (sc_pending s)"
    "distinct (map fst (sc_pending s))"
    "\<forall>p \<in> set ps. \<exists>ch. sc_chans s (snd p) = Some ch \<and> \<not> ch_closed ch"
  shows "clear_entries ps s = Ok (s\<lparr>
      sc_chans := (\<lambda>c. if c \<in> snd ` set ps then map_option (\<lambda>ch. ch\<lparr>ch_closed := True\<rparr>) (sc_chans s c)
                       else sc_chans s c),
      sc_pending := filter (\<lambda>q. fst q \<notin> fst ` set ps) (sc_pending s)\<rparr>)"
  using assms
proof (induction ps arbitrary: s)
  case Nil
  then show ?case by simp
next
  case (Cons p ps)
  obtain ch where ch: "sc_chans s (snd p) = Some ch" "\<not> ch_closed ch" using Cons.prems(5) by auto
  let ?s1 = "s\<lparr>sc_chans := (sc_chans s)(snd p \<mapsto> ch\<lparr>ch_closed := True\<rparr>),
               sc_pending := filter (\<lambda>q. fst q \<noteq> fst p) (sc_pending s)\<rparr>"
  have step: "clear_entry p s = Ok ?s1" using ch by (simp add: clear_entry_def chan_close_def)
  have ne: "fst q \<noteq> fst p \<and> snd q \<noteq> snd p" if "q \<in> set ps" for q
    using Cons.prems(1,2) that by (auto simp: image_iff)
  then have "set ps \<subseteq> set (sc_pending ?s1)" using Cons.prems(3) by auto
  moreover have "\<forall>q \<in> set ps. \<exists>ch. sc_chans ?s1 (snd q) = Some ch \<and> \<not> ch_closed ch"
    using Cons.prems(5) ne by auto
  moreover have "distinct (map fst (sc_pending ?s1))"
    using Cons.prems(4) by (simp add: distinct_filter_keys)
  ultimately have "clear_entries ps ?s1 = Ok (?s1\<lparr>
      sc_chans := (\<lambda>c. if c \<in> snd ` set ps then map_option (\<lambda>ch. ch\<lparr>ch_closed := True\<rparr>) (sc_chans ?s1 c)
                       else sc_chans ?s1 c),
      sc_pending := filter (\<lambda>q. fst q \<notin> fst ` set ps) (sc_pending ?s1)\<rparr>)"
    using Cons.prems(1,2) by (intro Cons.IH) simp_all
  moreover have "(\<lambda>c. if c \<in> snd ` set ps then map_option (\<lambda>ch. ch\<lparr>ch_closed := True\<rparr>) (sc_chans ?s1 c)
                       else sc_chans ?s1 c) =
      (\<lambda>c. if c \<in> snd ` set (p # ps) then map_option (\<lambda>ch. ch\<lparr>ch_closed := True\<rparr>) (sc_chans s c)
                       else sc_chans s c)"
    using ch by (auto simp: fun_eq_iff)
  moreover have "filter (\<lambda>q. fst q \<notin> fst ` set ps) (sc_pending ?s1) =
      filter (\<lambda>q. fst q \<notin> fst ` set (p # ps)) (sc_pending s)"
    by (simp add: conj_commute)
  ultimately show ?case using step by simp
qed

text \<open>The client after its pending requests were cleared.\<close>

definition cleared :: "sig_client \<Rightarrow> sig_client" where
  "cleared s = s\<lparr>
      sc_chans := (\<lambda>c. if c \<in> snd ` set (sc_pending s)
                       then map_option (\<lambda>ch. ch\<lparr>ch_closed := True\<rparr>) (sc_chans s c) else sc_chans s c),
      sc_pending := []\<rparr>"

lemma clear_pending_eq:
  assumes "pending_match rs s"
  shows "clear_pending_responses s = Ok (cleared s)"
proof -
  have "filter (\<lambda>q. fst q \<notin> fst ` set (sc_pending s)) (sc_pending s) = []"
    by (simp add: filter_empty_conv)
  then show ?thesis
    using assms clear_entries_run [of "sc_pending s" s]
    by (fastforce simp: clear_pending_responses_def cleared_def pending_match_def)
qed

lemma cleared_match:
  assumes "chans_match rs ms s"
  shows "chans_match rs ms (cleared s)" "pending_match rs s \<Longrightarrow> pending_match rs (cleared s)"
  using assms by (fastforce simp: match_defs cleared_def)+

lemma begin_match:
  assumes "chans_match rs ms s" "pending_match rs s" "request_begin q s = (Ok c, t)"
  shows "chans_match ((q, c) # rs) ms t" "pending_match ((q, c) # rs) t"
proof -
  have c: "c = sc_next s" and t: "t = s\<lparr>sc_chans := (sc_chans s)(c \<mapsto> make_chan 1), sc_next := Suc c,
      sc_pending := (msg_Id (rq_msg q), c) # filter (\<lambda>p. fst p \<noteq> msg_Id (rq_msg q)) (sc_pending s)\<rparr>"
    using assms(3) by (auto simp: request_begin_def Let_def split: if_splits)
  have fresh: "(p, c) \<notin> set rs" for p using assms(1) c by (fastforce simp: chans_match_def)
  then have fresh': "(i, c) \<notin> set (sc_pending s)" for i
    using assms(2) by (fastforce simp: pending_match_def)
  show "chans_match ((q, c) # rs) ms t"
    using assms(1) fresh by (fastforce simp: chans_match_def t c)
  show "pending_match ((q, c) # rs) t"
    using assms(2) fresh fresh' distinct_filter_keys
    by (fastforce simp: pending_match_def t distinct_map_filter)
qed

lemma wait_match:
  assumes "chans_match rs ms s" "pending_match rs s" "check_resp_wait q c k d s = Some (r, t)"
  shows "chans_match rs ms t" "pending_match rs t"
proof -
  have "t = s \<or> (\<exists>ch m ch'. sc_chans s c = Some ch \<and> chan_recv ch = Some (Some m, ch') \<and>
      t = s\<lparr>sc_chans := (sc_chans s)(c \<mapsto> ch')\<rparr>)"
    using assms(3) by (cases k) (auto simp: check_resp_wait_def split: if_splits option.splits)
  then show "chans_match rs ms t" "pending_match rs t"
  proof (atomize (full), elim disjE exE conjE)
    assume "t = s"
    then show "chans_match rs ms t \<and> pending_match rs t" using assms(1,2) by simp
  next
    fix ch m ch'
    assume ch: "sc_chans s c = Some ch" "chan_recv ch = Some (Some m, ch')"
      and t: "t = s\<lparr>sc_chans := (sc_chans s)(c \<mapsto> ch')\<rparr>"
    have "set (ch_buf ch') \<subseteq> set (ch_buf ch)" "ch_closed ch' = ch_closed ch"
      using ch(2) by (auto simp: chan_recv_def split: list.splits if_splits)
    then show "chans_match rs ms t \<and> pending_match rs t"
      using assms(1,2) ch(1) by (fastforce simp: match_defs t)
  qed
qed

lemma send_match:
  assumes "chans_match rs ms s" "pending_match rs s" "flight_match rs ms (Some (m, c))"
    "response_send c m s = Some (Ok t)"
  shows "chans_match rs ms t" "pending_match rs t"
proof -
  obtain ch where ch: "sc_chans s c = Some ch" "\<not> ch_closed ch"
    and t: "t = s\<lparr>sc_chans := (sc_chans s)(c \<mapsto> ch\<lparr>ch_buf := ch_buf ch @ [m]\<rparr>)\<rparr>"
    using assms(4) by (auto simp: response_send_def split: option.splits if_splits)
  obtain q where q: "(q, c) \<in> set rs" "msg_Id (rq_msg q) = rm_MessageId m" and m: "m \<in> set ms"
    using assms(3) by (auto simp: flight_match_def)
  have same: "p = q" if "(p, c) \<in> set rs" for p
    using assms(2) q(1) that inj_onD [of snd "set rs" "(p, c)" "(q, c)"]
    by (simp add: pending_match_def distinct_map)
  show "chans_match rs ms t"
  proof (rule chans_matchI)
    fix p d assume mem: "(p, d) \<in> set rs"
    obtain ch' where ch': "d < sc_next s" "sc_chans s d = Some ch'"
      "\<forall>k \<in> set (ch_buf ch'). k \<in> set ms \<and> rm_MessageId k = msg_Id (rq_msg p)"
      using assms(1) mem by (rule chans_matchD)
    show "\<exists>ch. d < sc_next t \<and> sc_chans t d = Some ch \<and>
        (\<forall>k \<in> set (ch_buf ch). k \<in> set ms \<and> rm_MessageId k = msg_Id (rq_msg p))"
    proof (cases "d = c")
      case True
      then have "p = q" "ch' = ch" using same mem ch(1) ch'(2) by simp_all
      then show ?thesis using True ch' q(2) m by (simp add: t)
    next
      case False
      then show ?thesis using ch' by (simp add: t)
    qed
  qed
  have "\<exists>ch. sc_chans t d = Some ch \<and> \<not> ch_closed ch" if mem: "(i, d) \<in> set (sc_pending s)" for i d
  proof -
    obtain p ch' where "sc_chans s d = Some ch'" "\<not> ch_closed ch'"
      using assms(2) mem by (rule pending_matchD)
    then show ?thesis using ch by (cases "d = c") (simp_all add: t)
  qed
  then show "pending_match rs t" using assms(2) by (simp add: pending_match_def t)
qed

lemma end_match:
  assumes "chans_match rs ms s" "pending_match rs s"
  shows "chans_match rs ms (request_end q s)" "pending_match rs (request_end q s)"
  using assms distinct_filter_keys
  by (auto simp: match_defs request_end_def distinct_map_filter)

lemma sig_run_match:
  "sig_run rs ms fl s \<Longrightarrow> chans_match rs ms s \<and> pending_match rs s \<and> flight_match rs ms fl"
proof (induction rule: sig_run.induct)
  case (Init n m)
  then show ?case by (simp add: match_defs new_signaling_client_def)
next
  case (Begin rs ms fl s q c t)
  then show ?case
    using begin_match [of rs ms s q c t] by (auto simp: flight_match_def)
next
  case (Wait rs ms fl s q c k d r t)
  then show ?case using wait_match by blast
next
  case (End rs ms fl s q)
  then show ?case using end_match by blast
next
  case (Take rs ms s m fl)
  then have "fl = map_option (\<lambda>c. (m, c)) (response_load m s)"
    by (simp add: responses_got_def)
  moreover have "\<exists>q. (q, c) \<in> set rs \<and> msg_Id (rq_msg q) = rm_MessageId m"
    if "response_load m s = Some c" for c
  proof -
    have "(rm_MessageId m, c) \<in> set (sc_pending s)"
      using that by (simp add: response_load_def map_of_SomeD)
    then show ?thesis using Take.IH unfolding pending_match_def by blast
  qed
  ultimately have "flight_match rs (m # ms) fl" by (auto simp: flight_match_def)
  moreover have "chans_match rs (m # ms) s"
  proof (rule chans_matchI)
    fix q c assume mem: "(q, c) \<in> set rs"
    have "chans_match rs ms s" using Take.IH by simp
    from this mem show "\<exists>ch. c < sc_next s \<and> sc_chans s c = Some ch \<and>
        (\<forall>k \<in> set (ch_buf ch). k \<in> set (m # ms) \<and> rm_MessageId k = msg_Id (rq_msg q))"
      by (rule chans_matchD) simp
  qed
  ultimately show ?case using Take.IH by blast
next
  case (Deliver rs ms m c s t)
  then have "chans_match rs ms t" "pending_match rs t" using send_match by blast+
  then show ?case by (simp add: flight_match_def)
next
  case (Clear rs ms fl s t)
  then have "t = cleared s" using clear_pending_eq by (metis outcome.inject(1))
  then show ?case using Clear.IH cleared_match by blast
next
  case (Other rs ms fl s t)
  then show ?case by (simp add: match_defs same_table_def)
qed

text \<open>
  C25: in any interleaving of requests, a request that succeeds returns the payload of a message
  that the server sent with this request's id and with the code the request expects.
\<close>

theorem response_correlation:
  assumes "sig_run rs ms fl s" "(q, c) \<in> set rs"
    and "check_resp_wait q c k ctx_done s = Some (Ok payload, t)"
  shows "\<exists>m \<in> set ms. rm_MessageId m = msg_Id (rq_msg q) \<and> rm_Code m = rq_typee q \<and>
                      rm_Payload m = payload"
proof -
  obtain ch m ch' where ch: "sc_chans s c = Some ch" "chan_recv ch = Some (Some m, ch')"
    and m: "rm_Code m = rq_typee q" "rm_Payload m = payload"
    using assms(3) by (cases k) (auto simp: check_resp_wait_def split: if_splits option.splits)
  have "m \<in> set (ch_buf ch)" using ch(2) by (auto simp: chan_recv_def split: list.splits if_splits)
  then show ?thesis
    using sig_run_match [OF assms(1)] assms(2) ch(1) m by (fastforce simp: chans_match_def)
qed

text \<open>A run for the witnesses: one request, its response on the way.\<close>

definition sample_request :: request where
  "sample_request = request_of GetOnline 11"

definition sample_response :: response_message where
  "sample_response = \<lparr>rm_Code = 4, rm_MessageId = 11, rm_Payload = [91, 93]\<rparr>"

definition begun :: sig_client where
  "begun = snd (request_begin sample_request (new_signaling_client 5 5))"

lemma begun_eq:
  "request_begin sample_request (new_signaling_client 5 5) = (Ok 0, begun)"
  "sc_pending begun = [(11, 0)]" "sc_chans begun = [0 \<mapsto> make_chan 1]"
  by (simp_all add: begun_def request_begin_def new_signaling_client_def Let_def sample_request_def
      get_payload_def)

lemma begun_run: "sig_run [(sample_request, 0)] [] None begun"
  by (rule sig_run.Begin [OF sig_run.Init begun_eq(1)])

lemma in_flight_run:
  "sig_run [(sample_request, 0)] [sample_response] (Some (sample_response, 0)) begun"
  by (rule sig_run.Take [OF begun_run])
    (simp add: responses_got_def response_load_def begun_eq sample_response_def)

theorem response_correlation_witness:
  "\<exists>s t. sig_run [(sample_request, 0)] [sample_response] None s \<and>
     check_resp_wait sample_request 0 OnResp False s = Some (Ok [91, 93], t) \<and>
     (\<exists>m \<in> set [sample_response]. rm_MessageId m = msg_Id (rq_msg sample_request) \<and>
        rm_Code m = rq_typee sample_request \<and> rm_Payload m = [91, 93])"
proof -
  obtain s where s: "response_send 0 sample_response begun = Some (Ok s)"
    "sc_chans s = [0 \<mapsto> (make_chan 1)\<lparr>ch_buf := [sample_response]\<rparr>]"
    by (simp add: response_send_def begun_eq)
  have run: "sig_run [(sample_request, 0)] [sample_response] None s"
    using in_flight_run s(1) by (rule sig_run.Deliver)
  obtain t where t: "check_resp_wait sample_request 0 OnResp False s = Some (Ok [91, 93], t)"
    by (simp add: check_resp_wait_def s(2) chan_recv_def sample_response_def sample_request_def
        get_payload_def)
  have mem: "(sample_request, 0) \<in> set [(sample_request, 0)]" by simp
  from response_correlation [OF run mem t] run t show ?thesis by blast
qed

section \<open>Loss of the connection\<close>

text \<open>
  C30: when the connection is lost, clearing the pending requests succeeds and answers every one of
  them: its wait ends, with the response that was already there or with the offline error.
\<close>

theorem connection_loss_answers_all:
  assumes "sig_run rs ms fl s" "(msg_Id (rq_msg q), c) \<in> set (sc_pending s)" "(q, c) \<in> set rs"
  shows "\<exists>t r u. clear_pending_responses s = Ok t \<and> sc_pending t = [] \<and>
           check_resp_wait q c OnResp ctx_done t = Some (r, u) \<and>
           ((\<forall>m \<in> set ms. rm_MessageId m \<noteq> msg_Id (rq_msg q)) \<longrightarrow> r = Err (Base ErrOfflineBase))"
proof -
  note m = sig_run_match [OF assms(1)]
  obtain ch where ch: "sc_chans s c = Some ch" "\<not> ch_closed ch"
    using m assms(2) by (fastforce simp: pending_match_def)
  have t: "clear_pending_responses s = Ok (cleared s)" using m clear_pending_eq by blast
  have c: "sc_chans (cleared s) c = Some (ch\<lparr>ch_closed := True\<rparr>)"
    using ch assms(2) by (auto simp: cleared_def image_iff)
  show ?thesis
  proof (cases "ch_buf ch")
    case Nil
    then have "check_resp_wait q c OnResp ctx_done (cleared s) = Some (Err (Base ErrOfflineBase), cleared s)"
      by (simp add: check_resp_wait_def c chan_recv_def)
    then show ?thesis using t by (simp add: cleared_def)
  next
    case (Cons m1 ms1)
    then have "m1 \<in> set ms" "rm_MessageId m1 = msg_Id (rq_msg q)"
      using m assms(3) ch(1) by (fastforce simp: chans_match_def)+
    moreover have "\<exists>r u. check_resp_wait q c OnResp ctx_done (cleared s) = Some (r, u)"
      by (simp add: check_resp_wait_def c chan_recv_def Cons)
    ultimately show ?thesis using t by (fastforce simp: cleared_def)
  qed
qed

theorem connection_loss_answers_all_witness:
  "\<exists>t u. clear_pending_responses begun = Ok t \<and>
     check_resp_wait sample_request 0 OnResp False t = Some (Err (Base ErrOfflineBase), u)"
  using connection_loss_answers_all [OF begun_run, of sample_request 0 False]
  by (auto simp: begun_eq sample_request_def get_payload_def)

text \<open>
  C33: a response that the worker took before the connection's loss cleared the table, and sends
  after that, panics: the channel it loaded is closed.
\<close>

theorem late_response_panics:
  assumes "sig_run rs ms (Some (m, c)) s" "response_load m s = Some c"
    and "clear_pending_responses s = Ok t"
  shows "response_send c m t = Some Panic"
proof -
  note inv = sig_run_match [OF assms(1)]
  have mem: "(rm_MessageId m, c) \<in> set (sc_pending s)"
    using assms(2) by (simp add: response_load_def map_of_SomeD)
  then obtain ch where ch: "sc_chans s c = Some ch" using inv by (fastforce simp: pending_match_def)
  have "t = cleared s" using inv clear_pending_eq assms(3) by fastforce
  then have "sc_chans t c = Some (ch\<lparr>ch_closed := True\<rparr>)"
    using mem ch by (auto simp: cleared_def image_iff)
  then show ?thesis by (simp add: response_send_def)
qed

theorem late_response_panics_witness:
  "\<exists>t. clear_pending_responses begun = Ok t \<and> response_send 0 sample_response t = Some Panic"
proof -
  obtain t where t: "clear_pending_responses begun = Ok t"
    using sig_run_match [OF begun_run] clear_pending_eq by blast
  have "response_load sample_response begun = Some 0"
    by (simp add: response_load_def begun_eq sample_response_def)
  from late_response_panics [OF in_flight_run this t] t show ?thesis by blast
qed

section \<open>A clean close by the server\<close>

text \<open>What the workers that stopped with an error put on \<open>errChan\<close>.\<close>

fun err_chan :: "worker list \<Rightarrow> go_error list" where
  "err_chan [] = []"
| "err_chan (Stopped (Some e) # ws) = e # err_chan ws"
| "err_chan (w # ws) = err_chan ws"

text \<open>
  C32: when the server closes the connection cleanly (the readers and the writer all meet an error
  that \<open>CheckErr\<close> passes over: end of stream, or application code 0), \<open>serveConnection\<close> does not
  notice: its \<open>select\<close> keeps waiting, so nothing reconnects, the client stays online, accepts
  requests and drops the messages of these requests.
\<close>

theorem clean_close_unnoticed:
  assumes "check_err e = None" "sc_isOnline s"
    and "receive_responses_turn False (Inl e) s = Ok (w1, got)"
    and "receive_sdp_turn False (Inl e) decoded s = Some (Ok (w2, s2))"
    and "send_msg_turn OnMsg False (Inl e) s = Some (Ok (w3, sent, s3))"
  shows "serve_select k False (err_chan [w1, w2, w3]) = None \<and> sent = None \<and>
         ch_buf (sc_sendMsgs s3) = tl (ch_buf (sc_sendMsgs s)) \<and> sc_isOnline s3 \<and>
         (\<exists>c. fst (request_begin q s3) = Ok c)"
proof -
  have w: "w1 = Stopped None" "w2 = Stopped None"
    using assms(1,3,4) by (auto simp: receive_responses_turn_def responses_got_def receive_sdp_turn_def sdp_got_def ctx_check_def
        worker_error_def split: if_splits)
  have s3: "w3 = GoesOn" "sent = None" "ch_buf (sc_sendMsgs s3) = tl (ch_buf (sc_sendMsgs s))"
    "sc_isOnline s3 = sc_isOnline s"
    using assms(1,5)
    by (auto simp: send_msg_turn_def Let_def chan_recv_def split: option.splits list.splits if_splits)
  have "serve_select k False [] = None" by (cases k) (simp_all add: serve_select_def)
  then show ?thesis using w s3 assms(2) by (simp add: request_begin_def Let_def)
qed

theorem clean_close_unnoticed_witness:
  "\<exists>w3 s3. send_msg_turn OnMsg False (Inl IoEOF)
      (begun\<lparr>sc_conn := Some 0, sc_coder := Some 0,
        sc_sendMsgs := (make_chan 5)\<lparr>ch_buf := [rq_msg sample_request]\<rparr>\<rparr>) = Some (Ok (w3, None, s3)) \<and>
     serve_select OnErr False (err_chan [Stopped None, Stopped None, w3]) = None"
proof -
  let ?s = "begun\<lparr>sc_conn := Some 0, sc_coder := Some 0, sc_sendMsgs := (make_chan 5)\<lparr>ch_buf := [rq_msg sample_request]\<rparr>\<rparr>"
  have eof: "check_err IoEOF = None" by (simp add: check_err_def)
  have on: "sc_isOnline ?s" by (simp add: begun_def request_begin_def new_signaling_client_def Let_def)
  have r: "receive_responses_turn False (Inl IoEOF) ?s = Ok (Stopped None, None)"
    "receive_sdp_turn False (Inl IoEOF) (Inl IoEOF) ?s = Some (Ok (Stopped None, ?s))"
    using eof by (simp_all add: receive_responses_turn_def responses_got_def receive_sdp_turn_def sdp_got_def
        ctx_check_def worker_error_def)
  obtain w3 sent s3 where m: "send_msg_turn OnMsg False (Inl IoEOF) ?s = Some (Ok (w3, sent, s3))"
    using eof by (simp add: send_msg_turn_def chan_recv_def)
  from clean_close_unnoticed [OF eof on r m, of OnErr] m show ?thesis by blast
qed

end
