(* ===== verification/App_Init.thy ===== *)
theory App_Init
  imports Handler_Api Signaling_Props
begin

text \<open>
  Starting and stopping the library (\<open>internal/app/app.go\<close>, \<open>networking.go\<close>): the two services share
  one context and two channels; \<open>Delete\<close> cancels the context, disconnects, closes the signaling
  connection and then both channels.
\<close>

record 'c app =
  ap_net :: "'c net"
  ap_sig :: sig_client

text \<open>
  \<open>loadEnv\<close> looks for an environment file beside the executable, then in the working directory; that
  there is none is no error. What the calls return is an argument, and so is what making the certificate
  in \<open>NewNetworkingServ\<close> gives.
\<close>

record init_env =
  ie_executable :: "string call"
  ie_beside :: "unit call"
  ie_here :: "unit call"
  ie_log :: "unit call"
  ie_cert :: cert_env

definition load_env :: "init_env \<Rightarrow> unit res" where
  "load_env env =
     (case ie_executable env of
        Inr path \<Rightarrow> (case ie_beside env of Inr _ \<Rightarrow> Ok ()
                     | Inl _ \<Rightarrow> (case ie_here env of Inr _ \<Rightarrow> Ok () | Inl _ \<Rightarrow> Ok ()))
      | Inl _ \<Rightarrow> (case ie_here env of Inr _ \<Rightarrow> Ok () | Inl _ \<Rightarrow> Ok ()))"

text \<open>
  \<open>Init\<close>; \<open>make\<close> panics on a negative buffer size, and \<open>GenerateTLSConfig\<close>, which \<open>NewNetworkingServ\<close> calls,
  on any error.
\<close>

definition app_init :: "init_env \<Rightarrow> uuid \<Rightarrow> config \<Rightarrow> 'c app res" where
  "app_init env userID cfg =
     (case load_env env of
        Err e \<Rightarrow> Panic
      | Panic \<Rightarrow> Panic
      | Ok _ \<Rightarrow>
          go_bind (open_log (app_LogPath (cfg_App cfg)) (ie_log env)) (\<lambda>_.
            if app_SendSDPSize (cfg_App cfg) < 0 \<or> app_ReceiveSDPSize (cfg_App cfg) < 0 then Panic
            else
              go_bind (generate_tls_config (ie_cert env) (nw_NextProtos (cfg_Networking cfg))) (\<lambda>_.
                Ok \<lparr>ap_net = new_networking_serv userID (cfg_Networking cfg) new_session_repository,
                    ap_sig = new_signaling_client (nat (app_SendSDPSize (cfg_App cfg)))
                               (nat (app_ReceiveSDPSize (cfg_App cfg)))\<rparr>)))"

lemma app_init_cases:
  "app_init env i cfg =
     (if (app_LogPath (cfg_App cfg) = [] \<or> \<not> isl (ie_log env)) \<and>
         0 \<le> app_SendSDPSize (cfg_App cfg) \<and> 0 \<le> app_ReceiveSDPSize (cfg_App cfg) \<and>
         generate_tls_config (ie_cert env) (nw_NextProtos (cfg_Networking cfg)) \<noteq> Panic
      then Ok \<lparr>ap_net = new_networking_serv i (cfg_Networking cfg) new_session_repository,
               ap_sig = new_signaling_client (nat (app_SendSDPSize (cfg_App cfg)))
                          (nat (app_ReceiveSDPSize (cfg_App cfg)))\<rparr>
      else Panic)"
  using generate_tls_config_total [of "ie_cert env" "nw_NextProtos (cfg_Networking cfg)"]
  by (cases "generate_tls_config (ie_cert env) (nw_NextProtos (cfg_Networking cfg))")
    (auto simp: app_init_def load_env_def open_log_def split: sum.split)

definition cancel_ctx :: "'c app \<Rightarrow> 'c app" where
  "cancel_ctx a = a\<lparr>ap_net := (ap_net a)\<lparr>ns_closing := True\<rparr>, ap_sig := (ap_sig a)\<lparr>sc_closing := True\<rparr>\<rparr>"

text \<open>
  The cancel function \<open>Init\<close> returns, which \<open>Delete\<close> calls: \<open>order\<close> is the order in which sessions are
  disconnected; errors of \<open>Disconnect\<close> and \<open>CloseConnection\<close> are logged.
\<close>

definition app_stop ::
    "(sref list \<Rightarrow> sref list) \<Rightarrow> unit call \<Rightarrow> unit call \<Rightarrow> 'c app \<Rightarrow> 'c app res" where
  "app_stop order conn_closed stream_closed a =
     (let a1 = cancel_ctx a;
          (disconnected, n) = disconnect order (ap_net a1) in
      case disconnected of
        Panic \<Rightarrow> Panic
      | _ \<Rightarrow>
          (let (closed, c) = close_connection 0 ''close'' conn_closed stream_closed (ap_sig a1) in
           case closed of
             Panic \<Rightarrow> Panic
           | _ \<Rightarrow>
               go_bind (chan_close (sc_sendMsgs c)) (\<lambda>sendSDP.
               go_bind (chan_close (sc_receiveSDPs c)) (\<lambda>receiveSDP.
                 Ok (a1\<lparr>ap_net := n, ap_sig := c\<lparr>sc_sendMsgs := sendSDP, sc_receiveSDPs := receiveSDP\<rparr>\<rparr>)))))"

lemma close_connection_keeps:
  "fst (close_connection k d x y s) \<noteq> Panic \<and>
   sc_sendMsgs (snd (close_connection k d x y s)) = sc_sendMsgs s \<and>
   sc_receiveSDPs (snd (close_connection k d x y s)) = sc_receiveSDPs s \<and>
   sc_isOnline (snd (close_connection k d x y s)) = sc_isOnline s"
  by (cases x; cases y) (auto simp: close_connection_def Let_def sig_lib_def split: option.splits)

lemma app_stop_eq:
  assumes "reachable cr (ap_net a)" "permutes order"
  shows "\<exists>n c. disconnect order ((ap_net a)\<lparr>ns_closing := True\<rparr>) = (Ok (), n) \<and> net_ok n \<and>
    repo_lookup (ns_repo n) = Map.empty \<and> ns_closing n \<and>
    sc_sendMsgs c = sc_sendMsgs (ap_sig a) \<and> sc_receiveSDPs c = sc_receiveSDPs (ap_sig a) \<and>
    sc_isOnline c = sc_isOnline (ap_sig a) \<and>
    app_stop order x y a =
      go_bind (chan_close (sc_sendMsgs (ap_sig a))) (\<lambda>send.
      go_bind (chan_close (sc_receiveSDPs (ap_sig a))) (\<lambda>receive.
        Ok (a\<lparr>ap_net := n, ap_sig := c\<lparr>sc_sendMsgs := send, sc_receiveSDPs := receive\<rparr>\<rparr>)))"
proof -
  have "reachable cr ((ap_net a)\<lparr>ns_closing := True\<rparr>)"
    using assms(1) by (rule reachable.Step) (rule net_step.Close)
  then have ok: "net_ok ((ap_net a)\<lparr>ns_closing := True\<rparr>)" "stored_present ((ap_net a)\<lparr>ns_closing := True\<rparr>)"
    using reachable_ok by blast+
  from disconnect_empties_run [OF ok assms(2)] obtain n where
    n: "disconnect order ((ap_net a)\<lparr>ns_closing := True\<rparr>) = (Ok (), n)" "net_ok n"
      "repo_lookup (ns_repo n) = Map.empty" "ns_closing n" by auto
  let ?cl = "close_connection 0 ''close'' x y ((ap_sig a)\<lparr>sc_closing := True\<rparr>)"
  note k = close_connection_keeps [of 0 "''close''" x y "(ap_sig a)\<lparr>sc_closing := True\<rparr>"]
  have "app_stop order x y a =
      go_bind (chan_close (sc_sendMsgs (ap_sig a))) (\<lambda>send.
      go_bind (chan_close (sc_receiveSDPs (ap_sig a))) (\<lambda>receive.
        Ok (a\<lparr>ap_net := n, ap_sig := (snd ?cl)\<lparr>sc_sendMsgs := send, sc_receiveSDPs := receive\<rparr>\<rparr>)))"
    using n(1) k by (cases "fst ?cl") (simp_all add: app_stop_def cancel_ctx_def split_beta Let_def)
  then show ?thesis using n k by (intro exI [of _ n] exI [of _ "snd ?cl"]) simp
qed

text \<open>
  The first \<open>Delete\<close> succeeds whatever sessions there are and leaves none stored; the second
  panics, because the channels are closed already.
\<close>

lemma app_stop_once:
  assumes "reachable cr (ap_net a)" "permutes order"
    and "\<not> ch_closed (sc_sendMsgs (ap_sig a))" "\<not> ch_closed (sc_receiveSDPs (ap_sig a))"
  shows "\<exists>b. app_stop order x y a = Ok b \<and> net_ok (ap_net b) \<and> ns_closing (ap_net b) \<and>
    repo_lookup (ns_repo (ap_net b)) = Map.empty \<and>
    app_stop order x' y' b = Panic"
proof -
  obtain n c where n: "net_ok n" "repo_lookup (ns_repo n) = Map.empty" "ns_closing n"
    and st: "app_stop order x y a =
      go_bind (chan_close (sc_sendMsgs (ap_sig a))) (\<lambda>send.
      go_bind (chan_close (sc_receiveSDPs (ap_sig a))) (\<lambda>receive.
        Ok (a\<lparr>ap_net := n, ap_sig := c\<lparr>sc_sendMsgs := send, sc_receiveSDPs := receive\<rparr>\<rparr>)))"
    using app_stop_eq [OF assms(1,2), of x y] by (elim exE conjE) (rule that, assumption+)
  define b where "b = a\<lparr>ap_net := n, ap_sig := c\<lparr>sc_sendMsgs := (sc_sendMsgs (ap_sig a))\<lparr>ch_closed := True\<rparr>,
      sc_receiveSDPs := (sc_receiveSDPs (ap_sig a))\<lparr>ch_closed := True\<rparr>\<rparr>\<rparr>"
  have b: "app_stop order x y a = Ok b" using st assms(3,4) by (simp add: chan_close_def b_def)
  have empty: "ns_repo n = []" using n(2) by (cases "ns_repo n") (auto simp: repo_lookup_def fun_eq_iff split: if_splits prod.splits)
  let ?cl = "close_connection 0 ''close'' x' y' ((ap_sig b)\<lparr>sc_closing := True\<rparr>)"
  have closed: "ch_closed (sc_sendMsgs (snd ?cl))"
    using close_connection_keeps [of 0 "''close''" x' y' "(ap_sig b)\<lparr>sc_closing := True\<rparr>"]
    by (simp add: b_def)
  have "disconnect order ((ap_net b)\<lparr>ns_closing := True\<rparr>) = (Ok (), (ap_net b)\<lparr>ns_closing := True\<rparr>)"
    using empty by (simp add: b_def disconnect_def repo_fetch_def)
  then have "app_stop order x' y' b = Panic"
    using closed by (cases "fst ?cl")
      (simp_all add: app_stop_def cancel_ctx_def split_beta Let_def chan_close_def)
  then show ?thesis using b n by (auto simp: b_def)
qed

definition sample_app :: "sample_call app" where
  "sample_app = \<lparr>ap_net = reached_net, ap_sig = new_signaling_client 5 5\<rparr>"

lemma app_stop_once_witness:
  "\<exists>b. app_stop rev (Inr ()) (Inr ()) sample_app = Ok b \<and>
       app_stop rev (Inr ()) (Inr ()) b = Panic"
  using app_stop_once [of sample_crypto sample_app rev "Inr ()" "Inr ()" "Inr ()" "Inr ()"]
  by (auto simp: sample_app_def reached_net_reachable permutes_def new_signaling_client_def)

text \<open>
  A client that was not yet connected to the signaling server counts as online. When the
  library was stopped in this state, a request that is made afterwards passes the online check and
  panics on the closed channel, unless its own context is done first.
\<close>

lemma request_after_stop_panics:
  assumes "reachable cr (ap_net a)" "permutes order" "sc_isOnline (ap_sig a)"
    and "app_stop order x y a = Ok b" "request_begin q (ap_sig b) = (res, s)"
  shows "\<exists>c. res = Ok c \<and> check_resp_send q OnSend ctx_done s = Some (Panic, s) \<and>
             (check_resp_send q OnQueueCtx ctx_done s \<noteq> None \<longrightarrow> ctx_done)"
proof -
  obtain c n where on: "sc_isOnline c = sc_isOnline (ap_sig a)"
    and st: "app_stop order x y a =
      go_bind (chan_close (sc_sendMsgs (ap_sig a))) (\<lambda>send.
      go_bind (chan_close (sc_receiveSDPs (ap_sig a))) (\<lambda>receive.
        Ok (a\<lparr>ap_net := n, ap_sig := c\<lparr>sc_sendMsgs := send, sc_receiveSDPs := receive\<rparr>\<rparr>)))"
    using app_stop_eq [OF assms(1,2), of x y] by (elim exE conjE) (rule that, assumption+)
  have "sc_isOnline (ap_sig b)" "ch_closed (sc_sendMsgs (ap_sig b))"
    using st assms(3,4) on by (auto simp: go_bind_Ok_iff chan_close_def split: if_splits)
  then show ?thesis
    using assms(5) by (auto simp: request_begin_def check_resp_send_def Let_def)
qed

lemma request_after_stop_panics_witness:
  "\<exists>b s. app_stop rev (Inr ()) (Inr ()) sample_app = Ok b \<and>
     check_resp_send (request_of GetOnline 3) OnSend False s = Some (Panic, s)"
proof -
  have r: "reachable sample_crypto (ap_net sample_app)" "permutes (rev :: sref list \<Rightarrow> sref list)"
    "sc_isOnline (ap_sig sample_app)"
    by (simp_all add: sample_app_def reached_net_reachable permutes_def new_signaling_client_def)
  obtain b where b: "app_stop rev (Inr ()) (Inr ()) sample_app = Ok b"
    using app_stop_eq [OF r(1,2), of "Inr ()" "Inr ()"]
    by (auto simp: sample_app_def new_signaling_client_def chan_close_def)
  obtain res s where q: "request_begin (request_of GetOnline 3) (ap_sig b) = (res, s)"
    by (cases "request_begin (request_of GetOnline 3) (ap_sig b)")
  from request_after_stop_panics [OF r b q, of False] b show ?thesis by blast
qed

end
