(* ===== verification/Root_Api.thy ===== *)
theory Root_Api
  imports App_Init
begin

text \<open>
  The methods of \<open>Netwoking\<close> in the root package: \<open>networking.go\<close>, \<open>connetions.go\<close>, \<open>senders.go\<close> and
  \<open>fetchers.go\<close>. Each calls the handler and passes its error on.
\<close>

text \<open>\<open>if err := f(); err != nil { return err }\<close>, then the value.\<close>

primrec pass_on :: "'a res \<Rightarrow> 'a res" where
  "pass_on (Ok v) = Ok v"
| "pass_on (Err e) = Err e"
| "pass_on Panic = Panic"

lemma pass_on_same [simp]: "pass_on r = r"
  by (cases r) simp_all

definition with_net :: "('c net \<Rightarrow> 'a res \<times> 'c net) \<Rightarrow> 'c app \<Rightarrow> 'a res \<times> 'c app" where
  "with_net f a = (let (r, n) = f (ap_net a) in (pass_on r, a\<lparr>ap_net := n\<rparr>))"

section \<open>networking.go\<close>

definition new_networking :: "init_env \<Rightarrow> uuid \<Rightarrow> config \<Rightarrow> 'c app res" where
  "new_networking env userId cfg = api_result (app_init env userId cfg)"

text \<open>A \<open>Netwoking\<close> that was not made by \<open>NewNetworking\<close> has no cancel function.\<close>

definition delete_networking ::
    "bool \<Rightarrow> (sref list \<Rightarrow> sref list) \<Rightarrow> unit call \<Rightarrow> unit call \<Rightarrow> 'c app \<Rightarrow> 'c app res" where
  "delete_networking has_cancel order conn_closed stream_closed a =
     (if has_cancel then app_stop order conn_closed stream_closed a else Ok a)"

section \<open>connetions.go\<close>

definition networking_disconnect :: "(sref list \<Rightarrow> sref list) \<Rightarrow> 'c app \<Rightarrow> unit res \<times> 'c app" where
  "networking_disconnect order = with_net (api_disconnect order)"

definition networking_disconnect_by_id :: "bool \<Rightarrow> uuid \<Rightarrow> 'c app \<Rightarrow> unit res \<times> 'c app" where
  "networking_disconnect_by_id ctx_done i = with_net (api_disconnect_by_id ctx_done i)"

section \<open>senders.go\<close>

definition networking_send_event :: "bool \<Rightarrow> 'c app \<Rightarrow> sref list res" where
  "networking_send_event ctx_done a = pass_on (api_send_event ctx_done (ap_net a))"

definition networking_send_message :: "bool \<Rightarrow> bytes \<Rightarrow> 'c app \<Rightarrow> sref list res \<times> 'c app" where
  "networking_send_message ctx_done msg = with_net (api_send_message ctx_done msg)"

definition networking_send_voice :: "bool \<Rightarrow> bytes \<Rightarrow> 'c app \<Rightarrow> sref list res \<times> 'c app" where
  "networking_send_voice ctx_done data = with_net (api_send_voice ctx_done data)"

definition networking_send_webcam :: "bool \<Rightarrow> bytes \<Rightarrow> 'c app \<Rightarrow> sref list res \<times> 'c app" where
  "networking_send_webcam ctx_done data = with_net (api_send_webcam ctx_done data)"

definition networking_send_screen :: "bool \<Rightarrow> bytes \<Rightarrow> 'c app \<Rightarrow> sref list res \<times> 'c app" where
  "networking_send_screen ctx_done data = with_net (api_send_screen ctx_done data)"

section \<open>fetchers.go\<close>

definition networking_fetch_online ::
    "uuid_lib \<Rightarrow> bytes call \<Rightarrow> 32 word \<Rightarrow> 'c app \<Rightarrow> uuid list res \<times> 'c app" where
  "networking_fetch_online ul answer logCount = with_net (api_fetch_online ul answer logCount)"

definition networking_fetch_sessions ::
    "uuid_lib \<Rightarrow> uuid \<Rightarrow> bytes call \<Rightarrow> 32 word \<Rightarrow> 'c app \<Rightarrow> uuid list res \<times> 'c app" where
  "networking_fetch_sessions ul i answer logCount = with_net (api_fetch_sessions ul i answer logCount)"

definition networking_fetch_friends ::
    "uuid_lib \<Rightarrow> uuid list \<Rightarrow> bytes call \<Rightarrow> 32 word \<Rightarrow> 'c app \<Rightarrow>
     (uuid \<rightharpoonup> string list) res \<times> 'c app" where
  "networking_fetch_friends ul ids answer logCount =
     with_net (api_fetch_friends ul ids answer logCount)"

text \<open>Making and deleting: the library starts, or panics; it never returns an error.\<close>

lemma new_networking_no_error: "new_networking env i cfg \<noteq> Err e"
  by (simp add: new_networking_def app_init_cases)

lemma delete_without_cancel: "delete_networking False order x y a = Ok a"
  by (simp add: delete_networking_def)

end
