(* ===== verification/Net_Refine.thy ===== *)
theory Net_Refine
  imports Net_Service_Props Handler_Api
begin

text \<open>
  What the service promises about its peers, as an abstract machine: a directory of the peers, each
  with its session and the phase of its connection. Every step of the service is one event of this
  machine. Also: the parts of a session fit together in every reachable state, and what is settled stays.
\<close>

section \<open>The abstract service\<close>

datatype phase = PeerConnecting | PeerJoined

type_synonym directory = "(uuid \<rightharpoonup> sref \<times> phase) \<times> sref"

definition directory_of :: "'c net \<Rightarrow> directory" where
  "directory_of s =
     (\<lambda>i. map_option (\<lambda>r. (r, if r \<in> set (ns_establishing s) then PeerConnecting else PeerJoined))
        (repo_lookup (ns_repo s) i), ns_next s)"

definition spec_of :: "'c net \<Rightarrow> (uuid \<rightharpoonup> phase)" where
  "spec_of s = (\<lambda>i. map_option snd (fst (directory_of s) i))"

lemma spec_of_apply: "spec_of s i =
    map_option (\<lambda>r. if r \<in> set (ns_establishing s) then PeerConnecting else PeerJoined) (repo_lookup (ns_repo s) i)"
  by (simp add: spec_of_def directory_of_def option.map_comp comp_def)

text \<open>
  A peer starts to connect by a session that was not there before; joins by the session it is
  connecting by; leaves; or starts again by another new session in place of its own.
\<close>

datatype peer_event = Stay | Dial uuid sref | Settle uuid sref | Leave uuid sref | Redial uuid sref sref

inductive spec_step :: "directory \<Rightarrow> peer_event \<Rightarrow> directory \<Rightarrow> bool" where
  Stays: "n \<le> m \<Longrightarrow> spec_step (f, n) Stay (f, m)"
| Dials: "f i = None \<Longrightarrow> n \<le> r \<Longrightarrow> r < m \<Longrightarrow>
    spec_step (f, n) (Dial i r) (f(i \<mapsto> (r, PeerConnecting)), m)"
| Settles: "f i = Some (r, PeerConnecting) \<Longrightarrow>
    spec_step (f, n) (Settle i r) (f(i \<mapsto> (r, PeerJoined)), n)"
| Leaves: "f i = Some (r, p) \<Longrightarrow> n \<le> m \<Longrightarrow> spec_step (f, n) (Leave i r) (f(i := None), m)"
| Redials: "f i = Some (q, p) \<Longrightarrow> n \<le> r \<Longrightarrow> r < m \<Longrightarrow>
    spec_step (f, n) (Redial i q r) (f(i \<mapsto> (r, PeerConnecting)), m)"

text \<open>
  Why the code does it: a new session has nothing but its ICE agent, and a goroutine that waits for
  credentials; a session joins when that goroutine has connection, key and event stream and has announced
  the peer; a session leaves the store when it is being disconnected, when its goroutine failed, when the
  ICE agent lost the peer, or when the peer sent new credentials for a session with a connection, in whose
  place a new one comes unless making it fails.
\<close>

definition begins_as :: "'c net \<Rightarrow> uuid \<Rightarrow> sref \<Rightarrow> bool" where
  "begins_as t i r \<longleftrightarrow> r \<in> set (ns_establishing t) \<and> ns_phase t r = AwaitCreds \<and>
     (\<exists>x. ns_heap t r = Some x \<and> UserID x = i \<and> fresh_session x)"

definition let_go :: "'c net \<Rightarrow> sref \<Rightarrow> 'c net \<Rightarrow> bool" where
  "let_go s r t \<longleftrightarrow>
     (\<exists>x l. ns_heap s r = Some x \<and> Leaving x = Some (Deleting l)) \<or>
     r \<in> set (ns_establishing s) \<and> ns_phase s r = Resetting \<or>
     (\<exists>c \<in> {IceFailed, IceDisconnected}. on_connection_state r c s = Ok t)"

definition has_cause :: "'c net \<Rightarrow> peer_event \<Rightarrow> 'c net \<Rightarrow> bool" where
  "has_cause s e t =
     (case e of
        Stay \<Rightarrow> True
      | Dial i r \<Rightarrow> begins_as t i r
      | Settle i r \<Rightarrow> ns_phase s r = Finishing \<and> (\<exists>x. ns_heap t r = Some x \<and> joined_session x)
      | Leave i r \<Rightarrow> let_go s r t \<or> has_conn s r
      | Redial i q r \<Rightarrow> has_conn s q \<and> begins_as t i r)"

section \<open>What a quiet operation does to the store\<close>

definition carried :: "core \<Rightarrow> core \<Rightarrow> bool" where
  "carried = (\<lambda>(m, h, n, es, ph) (m', h', n', es', ph'). n \<le> n' \<and> ph' = ph \<and>
     set es \<subseteq> set es' \<and> (\<forall>r \<in> set es'. r \<in> set es \<or> n \<le> r \<and> r < n') \<and>
     (\<forall>i r. m' i = Some r \<longrightarrow> m i = Some r \<or> n \<le> r \<and> r < n' \<and> r \<in> set es'))"

lemma carried_refl: "carried c c"
  by (cases c) (simp add: carried_def)

lemma calm_carried: "calm c d \<Longrightarrow> core_inv c \<Longrightarrow> carried c d"
  unfolding calm_def by (elim conjE, erule effectE) (auto simp: carried_def unmap_def split: if_splits)

lemma carried_trans: "carried c d \<Longrightarrow> carried d e \<Longrightarrow> carried c e"
proof -
  assume a: "carried c d" "carried d e"
  obtain m h n es ph m1 h1 n1 es1 ph1 m2 h2 n2 es2 ph2 where
    cs: "c = (m, h, n, es, ph)" "d = (m1, h1, n1, es1, ph1)" "e = (m2, h2, n2, es2, ph2)"
    by (cases c, cases d, cases e) blast
  note ab = a [unfolded cs carried_def, simplified]
  have "r \<in> set es \<or> n \<le> r \<and> r < n2" if "r \<in> set es2" for r
    using ab that by (meson le_trans less_le_trans)
  moreover have "m i = Some r \<or> n \<le> r \<and> r < n2 \<and> r \<in> set es2" if "m2 i = Some r" for i r
    using ab that by (meson le_trans less_le_trans subsetD)
  ultimately show ?thesis using ab by (auto simp: cs carried_def)
qed

lemma quiet_carried: "calm\<^sup>*\<^sup>* c d \<Longrightarrow> core_inv c \<Longrightarrow> carried c d \<and> core_inv d"
proof (induction rule: rtranclp_induct)
  case (step d e)
  then have "effect d e" "core_inv d" by (simp_all add: calm_def)
  with step show ?case using carried_trans calm_carried effect_core_inv by blast
qed (simp add: carried_refl)

text \<open>An operation for one peer changes the entry of no other, and drops this peer's for a reason.\<close>

definition for_peer :: "uuid \<Rightarrow> 'c net \<Rightarrow> 'c net \<Rightarrow> bool" where
  "for_peer i s t \<longleftrightarrow> (\<forall>j. j \<noteq> i \<longrightarrow> repo_lookup (ns_repo t) j = repo_lookup (ns_repo s) j) \<and>
     (\<forall>r. repo_lookup (ns_repo s) i = Some r \<longrightarrow> repo_lookup (ns_repo t) i = Some r \<or> has_conn s r \<or>
        repo_lookup (ns_repo t) i = None \<and> let_go s r t)"

lemma quiet_event:
  assumes "net_ok s" "core_inv (core s)" "quiet s u" "core t = core u" "net_ok t" "for_peer i s t"
  shows "\<exists>e. spec_step (directory_of s) e (directory_of t) \<and> has_cause s e t"
proof -
  let ?m = "repo_lookup (ns_repo s)" and ?m' = "repo_lookup (ns_repo t)"
  obtain f n where f: "directory_of s = (f, n)" "n = ns_next s" by (simp add: directory_of_def)
  obtain g n' where g: "directory_of t = (g, n')" "n' = ns_next t" by (simp add: directory_of_def)
  note fg = f(1) [symmetric, unfolded directory_of_def prod.inject] g(1) [symmetric, unfolded directory_of_def prod.inject]
  have "carried (core s) (core t)" "core_inv (core t)"
    using quiet_carried [of "core s" "core u"] assms(2-4) by (simp_all add: quiet_def)
  then have c: "n \<le> n'" "ns_phase t = ns_phase s" "set (ns_establishing s) \<subseteq> set (ns_establishing t)"
    "\<And>r. r \<in> set (ns_establishing t) \<Longrightarrow> r \<in> set (ns_establishing s) \<or> n \<le> r \<and> r < n'"
    "\<And>i r. ?m' i = Some r \<Longrightarrow> ?m i = Some r \<or> n \<le> r \<and> r < n' \<and> r \<in> set (ns_establishing t)"
    and I: "core_inv (?m', ns_heap t, ns_next t, ns_establishing t, ns_phase t)"
    unfolding carried_def core_def f(2) g(2) by auto
  have old: "r < n" if "?m j = Some r" for j r
    using net_okD(2,4) [OF assms(1)] that f(2) by blast
  have keep: "g j = f j" if "?m' j = ?m j" for j
    using that old [of j] c(3,4) fg by (cases "?m j") fastforce+
  have other: "g j = f j" if "j \<noteq> i" for j using assms(6) that by (intro keep) (simp add: for_peer_def)
  have start: "begins_as t i r" "g i = Some (r, PeerConnecting)" if "?m' i = Some r" "n \<le> r" for r
  proof -
    have es: "r \<in> set (ns_establishing t)" using c(5) [OF that(1)] old [of i r] that(2) by auto
    have "r \<notin> set (ns_establishing s)"
      using net_okD(4,6) [OF assms(1)] that(2) f(2) by fastforce
    then have "ns_phase t r = AwaitCreds" using c(2) net_okD(7) [OF assms(1)] by simp
    then show "begins_as t i r"
      using es core_invD(1) [OF I that(1)] core_invD(4) [OF I es] by (auto simp: begins_as_def)
    show "g i = Some (r, PeerConnecting)" using es that(1) fg by auto
  qed
  consider "?m' i = ?m i" | r where "?m' i = Some r" "n \<le> r" "r < n'" | q where "?m i = Some q" "?m' i = None"
    using c(5) [of i] by (cases "?m' i"; cases "?m i") auto
  then show ?thesis
  proof cases
    case 1
    then have "g = f" using keep [of i] other by (intro ext) metis
    then show ?thesis unfolding f(1) g(1) using Stays [OF c(1)] by (intro exI [of _ Stay]) (simp add: has_cause_def)
  next
    case (2 r)
    have gi: "g = f(i \<mapsto> (r, PeerConnecting))" using start(2) [OF 2(1,2)] other by (auto simp: fun_eq_iff)
    show ?thesis
    proof (cases "?m i")
      case None
      then have "f i = None" using fg by auto
      then show ?thesis
        unfolding f(1) g(1) gi using Dials 2(2,3) start(1) [OF 2(1,2)] by (intro exI [of _ "Dial i r"]) (simp add: has_cause_def)
    next
      case (Some q)
      then have "has_conn s q" using assms(6) 2(1,2) old [OF Some] by (auto simp: for_peer_def)
      moreover obtain p where "f i = Some (q, p)" using Some fg by auto
      ultimately show ?thesis
        unfolding f(1) g(1) gi using Redials 2(2,3) start(1) [OF 2(1,2)] by (intro exI [of _ "Redial i q r"]) (simp add: has_cause_def)
    qed
  next
    case (3 q)
    have gi: "g = f(i := None)" using 3(2) other fg by (auto simp: fun_eq_iff)
    moreover obtain p where "f i = Some (q, p)" using 3(1) fg by auto
    moreover have "let_go s q t \<or> has_conn s q" using 3 assms(6) by (auto simp: for_peer_def)
    ultimately show ?thesis
      unfolding f(1) g(1) using Leaves c(1) by (intro exI [of _ "Leave i q"]) (simp add: has_cause_def)
  qed
qed

section \<open>What every step does to the store\<close>

lemma for_peer_same: "ns_repo t = ns_repo s \<Longrightarrow> for_peer i s t"
  by (simp add: for_peer_def)

lemma for_peer_grows:
  assumes "repo_lookup (ns_repo t) = repo_lookup (ns_repo s) \<or>
    repo_lookup (ns_repo s) i = None \<and> repo_lookup (ns_repo t) = (repo_lookup (ns_repo s))(i \<mapsto> r)"
  shows "for_peer i s t"
  using assms by (auto simp: for_peer_def)

lemma create_for_peer:
  assumes "net_ok s" "create_and_establish env i b s = (res, t)"
  shows "for_peer i s t" "repo_lookup (ns_repo s) i = Some q \<Longrightarrow> repo_lookup (ns_repo t) i = Some q"
    "j \<noteq> i \<Longrightarrow> repo_lookup (ns_repo t) j = repo_lookup (ns_repo s) j"
proof -
  note c = create_and_establish_ok(2-4) [OF assms]
  have "\<exists>r. repo_lookup (ns_repo t) = repo_lookup (ns_repo s) \<or>
      repo_lookup (ns_repo s) i = None \<and> repo_lookup (ns_repo t) = (repo_lookup (ns_repo s))(i \<mapsto> r)"
    using c by (cases res) auto
  then show "for_peer i s t" "repo_lookup (ns_repo s) i = Some q \<Longrightarrow> repo_lookup (ns_repo t) i = Some q"
    "j \<noteq> i \<Longrightarrow> repo_lookup (ns_repo t) j = repo_lookup (ns_repo s) j"
    using for_peer_grows by auto
qed

lemma get_session_for_peer:
  assumes "net_ok s" "get_session env i s = (res, t)"
  shows "for_peer i s t" "repo_lookup (ns_repo s) i = Some q \<Longrightarrow> t = s \<and> (\<forall>r. res = Ok r \<longrightarrow> r = q)"
    "res = Ok r \<Longrightarrow> \<exists>x. ns_heap t r = Some x \<and> UserID x = i"
proof -
  obtain c u where cu: "create_and_establish (ge_create env) i False s = (c, u)"
    by (cases "create_and_establish (ge_create env) i False s")
  have cases: "(t = s \<and> (\<exists>e. res = Err e)) \<or> (t = s \<and> (\<exists>r. res = Ok r \<and> repo_lookup (ns_repo s) i = Some r)) \<or>
      (repo_lookup (ns_repo s) i = None \<and> t = u \<and> res = wrap_op ''networkingServ.getSession'' c)"
    using assms(2) cu
    by (cases c) (auto simp: get_session_def entry_select_def repo_get_def repo_lookup_def Let_def app_error_defs
        split: if_splits option.splits)
  then show "for_peer i s t" "repo_lookup (ns_repo s) i = Some q \<Longrightarrow> t = s \<and> (\<forall>r. res = Ok r \<longrightarrow> r = q)"
    using create_for_peer(1) [OF assms(1) cu] for_peer_same [of s s] by auto
  show "res = Ok r \<Longrightarrow> \<exists>x. ns_heap t r = Some x \<and> UserID x = i"
    using cases net_okD(2) [OF assms(1), of i r] create_and_establish_ok(3) [OF assms(1) cu, of r]
    by (cases c) (auto simp: new_session_def)
qed

lemma set_remote_repo: "set_remote_credentials env u p r s = Ok t \<Longrightarrow> ns_repo t = ns_repo s"
  by (cases "ns_heap s r")
    (auto simp: set_remote_credentials_def go_bind_Ok_iff set_session_def lib_do_def split: option.splits sum.splits)

lemma dispatch_for_peer:
  assumes "net_ok s" "ns_heap s r = Some x" "UserID x = i" "sdp_dispatch env i payload r s = Ok t"
  shows "for_peer i s t"
proof -
  consider "ns_repo t = ns_repo s"
    | created s3 where "Conn x \<noteq> None" "create_and_establish (se_recreate env) i False
        (drop_from_repo r x (lib_do (close_calls x) s)) = (created, s3)" "ns_repo t = ns_repo s3"
  proof (cases "hd payload = sdp_byte CREDS \<and> Conn x \<noteq> None \<and> parse_creds payload \<noteq> None")
    case True
    obtain created s3 where c: "create_and_establish (se_recreate env) i False
        (drop_from_repo r x (lib_do (close_calls x) s)) = (created, s3)" by fastforce
    then have "ns_repo t = ns_repo s3"
      using True assms(2,4)
      by (cases created) (auto simp: sdp_dispatch_def reset_session_live dest: set_remote_repo)
    with True c show ?thesis by (intro that(2)) auto
  next
    case False
    then show ?thesis
      using assms(2,4)
      by (cases "hd payload = sdp_byte CREDS"; cases "parse_creds payload"; cases "se_unmarshal env"; cases "Agent x";
          cases "se_add_candidate env")
        (auto simp: sdp_dispatch_def lib_do_def intro: that(1) dest: set_remote_repo split: if_splits)
  qed
  then show ?thesis
  proof cases
    case 1
    then show ?thesis by (rule for_peer_same)
  next
    case (2 created s3)
    let ?d = "drop_from_repo r x (lib_do (close_calls x) s)"
    have ok: "net_ok ?d" using assms(1) by (simp add: net_ok_drop)
    note c = create_for_peer(2,3) [OF ok 2(2)]
    have d: "repo_lookup (ns_repo ?d) j = (if repo_lookup (ns_repo s) j = Some r then None else repo_lookup (ns_repo s) j)" for j
      using drop_own_lookup [of "lib_do (close_calls x) s" r x x j] assms(1,2) by simp
    have only: "repo_lookup (ns_repo s) j \<noteq> Some r" if "j \<noteq> i" for j
      using net_okD(2) [OF assms(1), of j r] assms(2,3) that by auto
    have "has_conn s r" using 2(1) assms(2) by (simp add: has_conn_def)
    then have kept: "repo_lookup (ns_repo t) i = Some q \<or> has_conn s q" if "repo_lookup (ns_repo s) i = Some q" for q
      using that c(1) [of q] d [of i] 2(3) by (cases "q = r") auto
    have "repo_lookup (ns_repo t) j = repo_lookup (ns_repo s) j" if "j \<noteq> i" for j
      using c(2) [OF that] d [of j] only [OF that] 2(3) by simp
    with kept show ?thesis by (auto simp: for_peer_def)
  qed
qed

lemma handle_sdp_for_peer:
  assumes "net_ok s" "handle_sdp env i payload s = Ok t"
  shows "for_peer i s t"
proof -
  obtain got s1 where g: "get_session (se_get env) i s = (got, s1)" by (cases "get_session (se_get env) i s")
  note get = get_session_for_peer [OF assms(1) g]
  consider "t = s" | "t = s1" | r where "got = Ok r" "sdp_dispatch env i payload r s1 = Ok t"
    using assms(2) g by (auto simp: handle_sdp_def split: if_splits outcome.splits)
  then show ?thesis
  proof cases
    case 1
    then show ?thesis by (simp add: for_peer_same)
  next
    case 2
    then show ?thesis using get(1) by simp
  next
    case (3 r)
    obtain x where x: "ns_heap s1 r = Some x" "UserID x = i" using get(3) [OF 3(1)] by blast
    have d: "for_peer i s1 t" by (rule dispatch_for_peer [OF get_session_ok(1) [OF assms(1) g] x 3(2)])
    show ?thesis
    proof (cases "repo_lookup (ns_repo s) i")
      case None
      then show ?thesis using d get(1) by (simp add: for_peer_def)
    next
      case (Some q)
      then show ?thesis using d get(2) by simp
    qed
  qed
qed

lemma process_data_repo: "process_data r data s = Ok t \<Longrightarrow> ns_repo t = ns_repo s"
  by (auto simp: process_data_def with_session_def go_bind_Ok_iff call_data_def set_session_def
      split: list.splits if_splits option.splits)

lemma work_repo:
  "handle_datagram cr n r d s = Ok t \<Longrightarrow> ns_repo t = ns_repo s"
  "handle_uni_stream cr n r st s = Ok t \<Longrightarrow> ns_repo t = ns_repo s"
  by (auto simp: handle_datagram_def handle_uni_stream_def with_session_def go_bind_Ok_iff dest: process_data_repo
      split: outcome.splits if_splits option.splits)

lemma begin_repo: "disconnect_begin r leave s = Ok t \<Longrightarrow> ns_repo t = ns_repo s"
  by (auto simp: disconnect_begin_def with_session_def go_bind_Ok_iff lib_do_def set_session_def
      split: option.splits if_splits)

lemma turn_repo:
  "receive_datagrams_turn cr n r d s = Ok (t, go) \<Longrightarrow> ns_repo t = ns_repo s"
  "receive_streams_turn cr n r st s = Ok (t, go) \<Longrightarrow> ns_repo t = ns_repo s"
  "process_event_turn h r e s = Ok (t, go) \<Longrightarrow> ns_repo t = ns_repo s"
  by (drule turn_cases; auto simp: spawn_event_def dest: work_repo begin_repo split: option.splits)+

lemma processor_repo:
  "voice_processor r s = Some (t, go) \<Longrightarrow> ns_repo t = ns_repo s"
  "webcam_processor r s = Some (t, go) \<Longrightarrow> ns_repo t = ns_repo s"
  "screen_processor r s = Some (t, go) \<Longrightarrow> ns_repo t = ns_repo s"
  by (auto simp: voice_processor_def webcam_processor_def screen_processor_def call_data_def set_session_def
      split: option.splits prod.splits)

lemma next_repo [simp]: "ns_repo (loop_next l go s) = ns_repo s" "ns_repo (reconnect_moves p turn s) = ns_repo s"
  by (simp_all add: loop_next_def reconnect_moves_def)

lemma state_for_peer:
  assumes "net_ok s" "ns_heap s r = Some x" "on_connection_state r c s = Ok t"
  shows "for_peer (UserID x) s t"
proof (cases "c = IceFailed \<or> c = IceDisconnected")
  case True
  let ?d = "drop_from_repo r x (lib_do (close_calls x) s)"
  have repo: "ns_repo t = ns_repo ?d"
    using True assms(2,3) by (auto simp: on_connection_state_def reset_session_live split: if_splits)
  have d: "repo_lookup (ns_repo ?d) j = (if repo_lookup (ns_repo s) j = Some r then None else repo_lookup (ns_repo s) j)" for j
    using drop_own_lookup [of "lib_do (close_calls x) s" r x x j] assms(1,2) by simp
  have "repo_lookup (ns_repo s) j \<noteq> Some r" if "j \<noteq> UserID x" for j
    using net_okD(2) [OF assms(1), of j r] assms(2) that by auto
  moreover have "let_go s r t" using True assms(3) by (auto simp: let_go_def)
  ultimately show ?thesis using d unfolding for_peer_def repo by auto
next
  case False
  then have "ns_repo t = ns_repo s" using assms(3) by (simp add: on_connection_state_def)
  then show ?thesis by (rule for_peer_same)
qed

lemma leaving_for_peer:
  assumes "net_ok s" "disconnect_turn r s = Some t"
  shows "\<exists>i. for_peer i s t"
proof -
  obtain x st where x: "ns_heap s r = Some x" "Leaving x = Some st"
    using assms(2) by (auto simp: disconnect_turn_def split: option.splits)
  show ?thesis
  proof (cases st)
    case (Deleting l)
    have "ns_repo t = ns_repo (drop_from_repo r x s)"
      using assms(2) x Deleting by (auto simp: disconnect_turn_def drop_from_repo_def set_session_def)
    moreover have "repo_lookup (ns_repo s) j \<noteq> Some r" if "j \<noteq> UserID x" for j
      using net_okD(2) [OF assms(1), of j r] x(1) that by auto
    moreover have "let_go s r t" using x Deleting by (auto simp: let_go_def)
    ultimately show ?thesis
      using drop_own_lookup [OF assms(1) x(1) refl] by (intro exI [of _ "UserID x"]) (auto simp: for_peer_def)
  next
    case (Telling l)
    then have "ns_repo t = ns_repo s"
      using assms(2) x by (auto simp: disconnect_turn_def Let_def set_session_def call_connection_def sig_request_def split: option.split)
    then show ?thesis by (auto intro: for_peer_same)
  qed
qed

lemma net_step_for_peer:
  assumes "net_step cr s t" "net_ok s"
  shows "(\<exists>r env. r \<in> set (ns_establishing s) \<and> establish_turn cr env r s = Some (Ok t)) \<or> (\<exists>i. for_peer i s t)"
proof -
  have same: ?thesis if "ns_repo t = ns_repo s" using for_peer_same [OF that] by blast
  from assms(1) show ?thesis
  proof (cases rule: net_step.cases)
  case (Ice r c)
  show ?thesis
  proof (cases "ns_heap s r")
    case None
    then have "t = s" using Ice by (auto simp: on_connection_state_def reset_session_def split: if_splits)
    then show ?thesis by (auto intro: for_peer_same)
  next
    case (Some x)
    then show ?thesis using state_for_peer [OF assms(2) Some Ice] by blast
  qed
next
  case (ReconnectTry rid env turn u)
  have "u = s \<or> (\<exists>env b res. create_and_establish env rid b s = (res, u))"
    using ReconnectTry(3) by (auto simp: reconnect_try_def Let_def split: if_splits prod.splits outcome.splits)
  then have "for_peer rid s t"
    using ReconnectTry(1) create_for_peer(2,3) [OF assms(2)] by (auto simp: for_peer_def)
  then show ?thesis by blast
next
  case (Candidate rid c)
  then show ?thesis by (intro same) (simp add: on_candidate_def sig_request_def split: option.split)
next
  case (EventWork k)
  then show ?thesis by (intro same) (simp add: run_spawned_def)
next
  case (Signal q)
  then show ?thesis by (intro same) (simp add: sig_request_def)
next
  case (Create env rid b res)
  then show ?thesis using create_for_peer(1) [OF assms(2)] by blast
next
  case (Sdp env i payload)
  then show ?thesis using handle_sdp_for_peer [OF assms(2)] by blast
next
  case (SdpGet env i got)
  then show ?thesis using get_session_for_peer(1) [OF assms(2)] by blast
next
  case (SdpWork r x i env payload)
  then show ?thesis using dispatch_for_peer [OF assms(2)] by blast
next
  case (Leaving r)
  then show ?thesis using leaving_for_peer [OF assms(2)] by blast
qed (use same in \<open>auto dest: turn_repo work_repo processor_repo begin_repo\<close>)
qed

section \<open>The refinement\<close>

lemma establish_event:
  assumes "net_ok s" "core_inv (core s)" "r \<in> set (ns_establishing s)" "establish_turn cr env r s = Some (Ok t)"
  shows "\<exists>e. spec_step (directory_of s) e (directory_of t) \<and> has_cause s e t"
proof -
  let ?m = "repo_lookup (ns_repo s)"
  have I: "core_inv (?m, ns_heap s, ns_next s, ns_establishing s, ns_phase s)" using assms(2) by (simp add: core_def)
  obtain x where x: "ns_heap s r = Some x" "in_stage (ns_phase s r) x" using core_invD(4) [OF I assms(3)] by blast
  have own: "?m j = Some r \<longleftrightarrow> j = UserID x \<and> ?m (UserID x) = Some r" for j
    using core_invD(1) [OF I, of j r] x(1) by auto
  have stay: "?thesis" if "directory_of t = directory_of s"
    unfolding that using Stays by (intro exI [of _ Stay]) (simp add: has_cause_def directory_of_def)
  from establish_shape [OF assms(1,3) x(1) assms(4)] show ?thesis
  proof (elim disjE)
    assume "advanced_core r x s t"
    then show ?thesis by (intro stay) (auto simp: advanced_core_def core_def directory_of_def)
  next
    assume j: "joined_core r x s t"
    then have d: "repo_lookup (ns_repo t) = ?m" "ns_next t = ns_next s"
      "ns_establishing t = filter (\<lambda>q. q \<noteq> r) (ns_establishing s)" "ns_heap t r = Some (ready_session x)"
      by (auto simp: joined_core_def core_def)
    have cause: "has_cause s (Settle i r) t" for i
      using j x(2) d(4) by (simp add: has_cause_def joined_core_def joined_session_def)
    show ?thesis
    proof (cases "?m (UserID x) = Some r")
      case True
      have "fst (directory_of t) = (fst (directory_of s))(UserID x \<mapsto> (r, PeerJoined))"
      proof
        fix i show "fst (directory_of t) i = ((fst (directory_of s))(UserID x \<mapsto> (r, PeerJoined))) i"
          using own [of i] True d by (cases "?m i") (auto simp: directory_of_def)
      qed
      moreover have "fst (directory_of s) (UserID x) = Some (r, PeerConnecting)" using True assms(3) by (simp add: directory_of_def)
      ultimately show ?thesis
        using Settles [of "fst (directory_of s)" "UserID x" r "ns_next s"] cause [of "UserID x"] d(2)
        by (intro exI [of _ "Settle (UserID x) r"]) (simp add: directory_of_def)
    next
      case False
      have "directory_of t = directory_of s"
        using own False d by (auto simp: directory_of_def fun_eq_iff intro!: option.map_cong)
      then show ?thesis by (rule stay)
    qed
  next
    assume g: "gave_up_core r s t"
    then have d: "repo_lookup (ns_repo t) = unmap r ?m" "ns_next t = ns_next s"
      "ns_establishing t = filter (\<lambda>q. q \<noteq> r) (ns_establishing s)" by (simp_all add: gave_up_core_def core_def)
    have cause: "has_cause s (Leave i r) t" for i
      using g assms(3) by (simp add: has_cause_def let_go_def gave_up_core_def)
    show ?thesis
    proof (cases "?m (UserID x) = Some r")
      case True
      have "fst (directory_of t) = (fst (directory_of s))(UserID x := None)"
      proof
        fix i show "fst (directory_of t) i = ((fst (directory_of s))(UserID x := None)) i"
          using own [of i] True d by (cases "?m i") (auto simp: directory_of_def unmap_def)
      qed
      moreover obtain p where "fst (directory_of s) (UserID x) = Some (r, p)" using True by (simp add: directory_of_def)
      ultimately show ?thesis
        using Leaves [of "fst (directory_of s)" "UserID x" r p "ns_next s"] cause [of "UserID x"] d(2)
        by (intro exI [of _ "Leave (UserID x) r"]) (simp add: directory_of_def)
    next
      case False
      have "directory_of t = directory_of s"
        using own False d by (auto simp: directory_of_def unmap_def fun_eq_iff intro!: option.map_cong)
      then show ?thesis by (rule stay)
    qed
  qed
qed

text \<open>
  C2: the service refines the abstract machine, step by step: a new service has no peers, and from a
  reachable state every step, an API call, a goroutine, a callback or a message of any peer, is exactly
  one event of the machine and touches one peer at most. A peer joins only by the session it is connecting
  by, when this session has connection, key and event stream and was announced; a session that takes
  an id is new, with a goroutine that waits for credentials; and a session leaves the store only because it is
  being disconnected, its goroutine failed, the ICE agent lost the peer, or it was connected and the
  peer sent new credentials.
\<close>

theorem service_refines_spec:
  assumes "reachable cr s" "net_step cr s t"
  shows "(\<exists>e. spec_step (directory_of s) e (directory_of t) \<and> has_cause s e t) \<and>
    directory_of (new_networking_serv i cfg new_session_repository) = (Map.empty, 0)"
proof -
  have s: "net_ok s" "core_inv (core s)" using reachable_inv [OF assms(1)] by simp_all
  have "\<exists>e. spec_step (directory_of s) e (directory_of t) \<and> has_cause s e t"
  proof (cases "\<exists>r env. r \<in> set (ns_establishing s) \<and> establish_turn cr env r s = Some (Ok t)")
    case True
    then show ?thesis using establish_event [OF s] by blast
  next
    case False
    then obtain u i where "step_over s u t" "for_peer i s t"
      using net_step_shape [OF assms(2) s(1)] net_step_for_peer [OF assms(2) s(1)] by blast
    then show ?thesis using quiet_event [OF s, of u t i] by (simp add: step_over_def)
  qed
  then show ?thesis by (simp add: directory_of_def new_networking_serv_def repo_defs fun_eq_iff)
qed

theorem service_refines_spec_witness:
  "\<exists>e. spec_step (directory_of reached_net) e
     (directory_of (snd (create_and_establish sample_create 5 True reached_net)))"
proof -
  obtain res t where c: "create_and_establish sample_create 5 True reached_net = (res, t)"
    by (cases "create_and_establish sample_create 5 True reached_net")
  from service_refines_spec [OF reached_net_reachable [of sample_crypto] net_step.Create [OF c]] c
  show ?thesis by auto
qed

section \<open>Sending in terms of the abstract machine\<close>

text \<open>
  Establishing failed after \<open>session.Conn\<close> was set: \<open>ReadyChan\<close> is closed, and the session still stored
  until it is reset.
\<close>

definition conn_to_reset :: "'c net \<Rightarrow> sref \<Rightarrow> bool" where
  "conn_to_reset s r \<longleftrightarrow> ns_phase s r = Resetting \<and> has_conn s r"

lemma stored_phase:
  assumes "reachable cr s" "repo_lookup (ns_repo s) i = Some r"
  shows "has_conn s r \<and> session_ready s r \<longleftrightarrow> r \<notin> set (ns_establishing s) \<or> conn_to_reset s r"
    "\<exists>x. ns_heap s r = Some x \<and> UserID x = i"
proof -
  have I: "core_inv (repo_lookup (ns_repo s), ns_heap s, ns_next s, ns_establishing s, ns_phase s)"
    using reachable_inv [OF assms(1)] by (simp add: core_def)
  from core_invD(1) [OF I assms(2)] obtain x where x: "ns_heap s r = Some x" "UserID x = i"
    "r \<in> set (ns_establishing s) \<or> joined_session x" by blast
  show "\<exists>x. ns_heap s r = Some x \<and> UserID x = i" using x by blast
  show "has_conn s r \<and> session_ready s r \<longleftrightarrow> r \<notin> set (ns_establishing s) \<or> conn_to_reset s r"
  proof (cases "r \<in> set (ns_establishing s)")
    case True
    have net: "net_ok s" using reachable_inv [OF assms(1)] by simp
    have "chan_recv (ReadyChan x) \<noteq> None \<longleftrightarrow> ns_phase s r = Resetting"
      using net_okD(6) [OF net True] net_okD(3) [OF net x(1)] x(1) by (auto simp: chan_recv_blocks_iff session_ok_def)
    then show ?thesis
      using True x(1) by (auto simp: conn_to_reset_def has_conn_def session_ready_def)
  next
    case False
    then show ?thesis using x by (simp add: joined_session_def has_conn_def session_ready_def chan_recv_blocks_iff)
  qed
qed

text \<open>
  C8: in a reachable state a chat message, a voice, webcam or screen frame is sent to every peer that
  joined, and to no other but those whose goroutine failed after the connection was set and has closed
  \<open>ReadyChan\<close>, but not reset the session yet; peers that are still connecting are passed over without
  an error.
\<close>

theorem send_reaches_joined:
  assumes "reachable cr s" "nw_DatagramLogTargetCount (ns_cfg s) \<noteq> 0" "ns_repo s \<noteq> []"
  shows "\<exists>rs. fst (api_send_message False msg s) = Ok rs \<and> fst (api_send_voice False frame s) = Ok rs \<and>
    fst (api_send_webcam False frame s) = Ok rs \<and> fst (api_send_screen False frame s) = Ok rs \<and>
    (\<lambda>r. UserID (the (ns_heap s r))) ` set rs = {i. spec_of s i = Some PeerJoined} \<union>
      {i. \<exists>r. repo_lookup (ns_repo s) i = Some r \<and> conn_to_reset s r}"
proof -
  define rs where "rs = filter (\<lambda>r. has_conn s r \<and> session_ready s r) (map snd (ns_repo s))"
  have v: "repo_valid (ns_repo s)" using reachable_inv [OF assms(1)] net_okD(1) by blast
  have mem: "r \<in> set rs \<longleftrightarrow> (\<exists>i. repo_lookup (ns_repo s) i = Some r \<and>
      (r \<notin> set (ns_establishing s) \<or> conn_to_reset s r))" for r
  proof -
    have "r \<in> set rs \<longleftrightarrow> (\<exists>i. repo_lookup (ns_repo s) i = Some r) \<and> has_conn s r \<and> session_ready s r"
      using v by (force simp: rs_def repo_lookup_def repo_valid_def)
    then show ?thesis using stored_phase(1) [OF assms(1)] by blast
  qed
  have user: "UserID (the (ns_heap s r)) = i" if "repo_lookup (ns_repo s) i = Some r" for i r
    using stored_phase(2) [OF assms(1) that] by auto
  have "(\<lambda>r. UserID (the (ns_heap s r))) ` set rs = {i. \<exists>r. repo_lookup (ns_repo s) i = Some r \<and>
      (r \<notin> set (ns_establishing s) \<or> conn_to_reset s r)}"
  proof (intro equalityI subsetI)
    fix i assume "i \<in> (\<lambda>r. UserID (the (ns_heap s r))) ` set rs"
    then obtain r where "r \<in> set rs" "i = UserID (the (ns_heap s r))" by blast
    then show "i \<in> {i. \<exists>r. repo_lookup (ns_repo s) i = Some r \<and> (r \<notin> set (ns_establishing s) \<or> conn_to_reset s r)}"
      using mem user by auto
  next
    fix i assume "i \<in> {i. \<exists>r. repo_lookup (ns_repo s) i = Some r \<and> (r \<notin> set (ns_establishing s) \<or> conn_to_reset s r)}"
    then obtain r where r: "repo_lookup (ns_repo s) i = Some r" "r \<in> set rs" using mem by blast
    then show "i \<in> (\<lambda>r. UserID (the (ns_heap s r))) ` set rs" using user [OF r(1)] by blast
  qed
  also have "\<dots> = {i. spec_of s i = Some PeerJoined} \<union>
      {i. \<exists>r. repo_lookup (ns_repo s) i = Some r \<and> conn_to_reset s r}"
    by (auto simp: spec_of_apply)
  finally show ?thesis
    using assms(3) by (simp add: api_send_message_def api_send_voice_def api_send_webcam_def
        api_send_screen_def split_beta send_in_stream_framed [OF assms(2)] rs_def)
qed

theorem send_reaches_joined_witness: "fst (api_send_message False [104, 105] reached_net) = Ok []"
proof -
  have "nw_DatagramLogTargetCount (ns_cfg reached_net) \<noteq> 0" "ns_repo reached_net \<noteq> []"
    by (simp_all add: reached_net_simps sample_cfg_def)
  from send_reaches_joined [OF reached_net_reachable [of sample_crypto] this, of "[104, 105]" "[]"]
  obtain rs where rs: "fst (api_send_message False [104, 105] reached_net) = Ok rs"
    "(\<lambda>r. UserID (the (ns_heap reached_net r))) ` set rs = {i. spec_of reached_net i = Some PeerJoined} \<union>
      {i. \<exists>r. repo_lookup (ns_repo reached_net) i = Some r \<and> conn_to_reset reached_net r}"
    by (elim exE conjE) (rule that)
  have "\<not> conn_to_reset reached_net 0" by (simp add: conn_to_reset_def reached_net_simps)
  then have "(\<lambda>r. UserID (the (ns_heap reached_net r))) ` set rs = {}"
    unfolding rs(2) by (auto simp: spec_of_apply reached_net_simps repo_lookup_def split: if_splits)
  then show ?thesis using rs(1) by simp
qed

section \<open>Types and identity of sessions\<close>

text \<open>
  C5: the parts of a session fit together in every reachable state: its JSON coders work on its own
  event stream and were made with its own key; the key is empty or has the 32 bytes of AES-256; there
  is no event stream without a key and no key without a connection. Every stored session belongs to
  the id it is stored under and was not disconnected, unless the call that does it is about to delete it. When its goroutine is through, it has connection,
  key and stream, with \<open>ReadyChan\<close> closed; while the goroutine is at work, it has as many of them as
  the phase says, with \<open>ReadyChan\<close> open; and after a failure it has no event stream.
\<close>

theorem sessions_well_typed:
  assumes "reachable cr s" "ns_heap s r = Some x"
  shows "EventDecoder x = map_option (\<lambda>e. (e, Key x)) (EventStream x) \<and>
    EventEncoder x = map_option (\<lambda>e. (e, Key x)) (EventStream x) \<and>
    (Key x = [] \<or> aes_key (Key x)) \<and> (EventStream x \<noteq> None \<longrightarrow> Key x \<noteq> []) \<and>
    (Key x \<noteq> [] \<longrightarrow> Conn x \<noteq> None) \<and>
    (repo_get False i (ns_repo s) = Ok r \<longrightarrow> UserID x = i \<and>
       (Closing x \<longrightarrow> (\<exists>l. Leaving x = Some (Deleting l))) \<and>
       (if r \<notin> set (ns_establishing s)
        then Conn x \<noteq> None \<and> aes_key (Key x) \<and> EventStream x \<noteq> None \<and> ch_closed (ReadyChan x)
        else if ns_phase s r = Resetting then EventStream x = None \<and> ch_closed (ReadyChan x)
        else (Conn x = None \<longleftrightarrow> ns_phase s r \<in> {AwaitCreds, Dialing}) \<and>
          (Key x = [] \<longleftrightarrow> ns_phase s r \<in> {AwaitCreds, Dialing, Exchanging}) \<and>
          (EventStream x = None \<longleftrightarrow> ns_phase s r \<in> {AwaitCreds, Dialing, Exchanging, Streaming}) \<and>
          \<not> ch_closed (ReadyChan x)))"
proof -
  have I: "core_inv (repo_lookup (ns_repo s), ns_heap s, ns_next s, ns_establishing s, ns_phase s)"
    using reachable_inv [OF assms(1)] by (simp add: core_def)
  have typed: "typed_session x" using core_invD(3) [OF I assms(2)] .
  have stored: "UserID x = i \<and> present x \<and> (if r \<in> set (ns_establishing s) then in_stage (ns_phase s r) x else joined_session x)"
    if "repo_get False i (ns_repo s) = Ok r"
    using core_invD(1) [OF I, of i r] core_invD(4) [OF I, of r] assms(2) that by (auto simp: sr.get_ok)
  have "ns_phase s r = Resetting \<and> EventStream x = None \<and> ch_closed (ReadyChan x) \<or>
      ns_phase s r \<noteq> Resetting \<and> (Conn x = None \<longleftrightarrow> ns_phase s r \<in> {AwaitCreds, Dialing}) \<and>
      (Key x = [] \<longleftrightarrow> ns_phase s r \<in> {AwaitCreds, Dialing, Exchanging}) \<and>
      (EventStream x = None \<longleftrightarrow> ns_phase s r \<in> {AwaitCreds, Dialing, Exchanging, Streaming}) \<and>
      \<not> ch_closed (ReadyChan x)" if "in_stage (ns_phase s r) x"
    using that by (cases "ns_phase s r") (auto simp: fresh_session_def)
  with typed stored show ?thesis
    by (auto simp: typed_session_def joined_session_def aes_key_def present_def split: if_splits)
qed

theorem sessions_well_typed_witness:
  "\<exists>x. ns_heap reached_net 0 = Some x \<and> UserID x = 8 \<and> EventDecoder x = None \<and> \<not> ch_closed (ReadyChan x)"
  using sessions_well_typed [OF reached_net_reachable [of sample_crypto],
      of 0 "new_session 8 4 True" 8]
  by (auto simp: reached_net_simps repo_get_def new_session_def make_chan_def)

definition grown :: "session \<Rightarrow> session \<Rightarrow> bool" where
  "grown x y \<longleftrightarrow>
     UserID y = UserID x \<and> IsInitiator y = IsInitiator x \<and> Agent y = Agent x \<and>
     (Closing x \<longrightarrow> Closing y) \<and>
     (ch_closed (ReadyChan x) \<longrightarrow> ch_closed (ReadyChan y) \<and> Conn y = Conn x \<and> Key y = Key x \<and>
        EventStream y = EventStream x \<and> EventDecoder y = EventDecoder x \<and> EventEncoder y = EventEncoder x)"

lemma grown_refl [simp]: "grown x x"
  by (simp add: grown_def)

lemma grown_trans: "grown x y \<Longrightarrow> grown y z \<Longrightarrow> grown x z"
  by (auto simp: grown_def)

lemma grown_steps:
  "same_control x y \<Longrightarrow> grown x y" "grown x (leaving_session st x)"
  "grown x (x\<lparr>Leaving := l\<rparr>)" "\<not> ch_closed (ReadyChan x) \<Longrightarrow> grown x (ready_session x)"
  by (simp add: grown_def same_controlD) (simp_all add: grown_def leaving_session_def closed_session_def)

lemma advance_grown:
  assumes "advance p q x y" "in_stage p x"
  shows "grown x y"
  using assms by (cases rule: advance.cases) (auto simp: grown_def fresh_session_def with_event_stream_def)

lemma effect_grown:
  assumes "effect c d" "core_inv c" "fst (snd c) r = Some x"
  shows "\<exists>y. fst (snd d) r = Some y \<and> grown x y"
  using assms(1)
proof (cases rule: effect.cases)
  case (Advance q es h z ph p y m n)
  have "in_stage (ph q) z" using core_invD(4) [OF assms(2) [unfolded Advance(1)] Advance(3)] Advance(4) by simp
  then show ?thesis using advance_grown [OF Advance(5)] Advance(1,2,4) assms(3) by auto
next
  case (Join q es h z ph m n)
  have "in_stage Finishing z" using core_invD(4) [OF assms(2) [unfolded Join(1)] Join(3)] Join(4,5) by auto
  then show ?thesis using Join assms(3) by (auto intro: grown_steps)
next
  case (Alloc m h n es rid agent b)
  then show ?thesis using assms(2,3) core_invD(2) [of m h n "fst es" "snd es" r x] by (cases es) auto
next
  case (Store m rid h n es ph agent b)
  then show ?thesis using assms(2,3) core_invD(2) [of m h n es ph r x] by auto
qed (use assms(3) in \<open>auto intro: grown_steps\<close>)

lemma effects_grown:
  "effects c d \<Longrightarrow> core_inv c \<Longrightarrow> fst (snd c) r = Some x \<Longrightarrow> \<exists>y. fst (snd d) r = Some y \<and> grown x y"
proof (induction rule: rtranclp_induct)
  case (step d e)
  then obtain y where y: "fst (snd d) r = Some y" "grown x y" by blast
  from effect_grown [OF step.hyps(2) effects_core_inv [OF step.hyps(1) step.prems(1)] y(1)] y(2)
  show ?case by (blast intro: grown_trans)
qed auto

lemma run_inv:
  "(net_step cr)\<^sup>*\<^sup>* s t \<Longrightarrow> net_ok s \<Longrightarrow> net_ok t \<and> effects (core s) (core t)"
  by (induction rule: rtranclp_induct) (auto dest: net_step_effects)

text \<open>
  C6: along any run of the service a session keeps its peer, its role and its ICE agent; once it was
  disconnected it stays so, and once its \<open>ReadyChan\<close> is closed its connection, its key, its event
  stream and its coders never change again. A caller that waited for \<open>ReadyChan\<close> may rely on them.
\<close>

theorem session_identity:
  assumes "reachable cr s" "(net_step cr)\<^sup>*\<^sup>* s t" "ns_heap s r = Some x"
  shows "\<exists>y. ns_heap t r = Some y \<and> UserID y = UserID x \<and> IsInitiator y = IsInitiator x \<and>
    Agent y = Agent x \<and> (Closing x \<longrightarrow> Closing y) \<and>
    (ch_closed (ReadyChan x) \<longrightarrow> ch_closed (ReadyChan y) \<and> Conn y = Conn x \<and> Key y = Key x \<and>
       EventStream y = EventStream x \<and> EventDecoder y = EventDecoder x \<and> EventEncoder y = EventEncoder x)"
proof -
  have s: "net_ok s" "core_inv (core s)" using reachable_inv [OF assms(1)] by simp_all
  have "effects (core s) (core t)" using run_inv [OF assms(2) s(1)] by simp
  from effects_grown [OF this s(2), of r x] assms(3) show ?thesis by (auto simp: core_def grown_def)
qed

theorem session_identity_witness:
  "\<exists>y. ns_heap (reached_net\<lparr>ns_closing := True\<rparr>) 0 = Some y \<and> UserID y = 8 \<and> IsInitiator y"
proof -
  have "(net_step sample_crypto)\<^sup>*\<^sup>* reached_net (reached_net\<lparr>ns_closing := True\<rparr>)"
    by (rule r_into_rtranclp) (rule net_step.Close)
  from session_identity [OF reached_net_reachable this, of 0 "new_session 8 4 True"]
  show ?thesis by (simp add: reached_net_simps)
qed

end
