(* ===== verification/Net_Closing.thy ===== *)
theory Net_Closing
  imports Net_Refine
begin

text \<open>
  Shutting down: when the service's context is cancelled, its goroutines end. In a run of the service the
  steps in which they end are told apart from all others; a measure bounds the former by the latter, and when
  none of them is left every goroutine has ended, every session that had joined is closed, and the store
  is empty.
\<close>

section \<open>The goroutines of a session\<close>







text \<open>What every effect keeps of a session.\<close>

definition settled_as :: "session \<Rightarrow> session \<Rightarrow> bool" where
  "settled_as x y \<longleftrightarrow> (ch_closed (ReadyChan x) \<longrightarrow> ch_closed (ReadyChan y)) \<and> (joined_session x \<longrightarrow> joined_session y)"

lemma settled_simps [simp]:
  "settled_as x x" "settled_as x (leaving_session st x)" "settled_as x (ready_session x)"
  "settled_as x (x\<lparr>Leaving := l\<rparr>)"
  by (auto simp: settled_as_def joined_session_def leaving_session_def closed_session_def)





lemma core_sel [simp]:
  "fst (core s) = repo_lookup (ns_repo s)" "fst (snd (core s)) = ns_heap s"
  "fst (snd (snd (core s))) = ns_next s" "fst (snd (snd (snd (core s)))) = ns_establishing s"
  by (simp_all add: core_def)






section \<open>The measure\<close>

text \<open>
  An establishing session counts the phases it may still go through and outweighs its six
  loops; a loop, a started event handler and each frame still buffered count one, a reconnect loop one or,
  when it waits for a session, two; a session counts the parts of its disconnect that are still to come.
\<close>

definition leave_weight :: "session \<Rightarrow> nat" where
  "leave_weight x =
     (case Leaving x of None \<Rightarrow> if Closing x then 0 else 3 | Some (Deleting l) \<Rightarrow> 2 | Some (Telling l) \<Rightarrow> 1)"

definition session_weight :: "session \<Rightarrow> nat" where
  "session_weight x = length (ch_buf (VoiceChan x)) + length (ch_buf (WebcamChan x)) + length (ch_buf (ScreenChan x)) +
     leave_weight x"

definition weight_at :: "(sref \<rightharpoonup> session) \<Rightarrow> sref \<Rightarrow> nat" where
  "weight_at h r = (case h r of None \<Rightarrow> 0 | Some x \<Rightarrow> session_weight x)"

definition carried_load :: "'c net \<Rightarrow> nat" where
  "carried_load s = (\<Sum>r<ns_next s. weight_at (ns_heap s) r)"

fun phase_weight :: "est_phase \<Rightarrow> nat" where
  "phase_weight AwaitCreds = 12"
| "phase_weight Dialing = 11"
| "phase_weight Exchanging = 10"
| "phase_weight Streaming = 9"
| "phase_weight Announcing = 8"
| "phase_weight Finishing = 7"
| "phase_weight Resetting = 1"

definition est_weight :: "sref list \<Rightarrow> (sref \<Rightarrow> est_phase) \<Rightarrow> nat" where
  "est_weight es ph = sum_list (map (\<lambda>r. phase_weight (ph r)) es)"

definition pending :: "'c net \<Rightarrow> nat" where
  "pending s = est_weight (ns_establishing s) (ns_phase s) + length (ns_spawned s)"




text \<open>The parts of the measure, and whether the service closes.\<close>

definition load :: "'c net \<Rightarrow> bool \<times> nat \<times> (sref \<times> session_loop) list \<times> (uuid \<times> sref option) list \<times> nat" where
  "load s = (ns_closing s, pending s, ns_handling s, ns_reconnecting s, carried_load s)"

lemma load_frame:
  "ns_closing t = ns_closing s \<Longrightarrow> ns_establishing t = ns_establishing s \<Longrightarrow> loops t = loops s \<Longrightarrow>
   ns_heap t = ns_heap s \<Longrightarrow> ns_next t = ns_next s \<Longrightarrow> ns_phase t = ns_phase s \<Longrightarrow>
   ns_spawned t = ns_spawned s \<Longrightarrow> load t = load s"
  by (simp add: load_def loops_def carried_load_def pending_def)

lemma load_calls [simp]:
  "load (call_data h i p s) = load s" "load (call_connection c i s) = load s"
  "load (sig_request q s) = load s" "load (lib_do qs s) = load s"
  by (rule load_frame; simp add: go_frame)+

lemma load_drop [simp]: "load (drop_from_repo r x s) = load s"
  by (rule load_frame) (simp_all, simp_all add: drop_from_repo_def)






section \<open>What the operations do to the measure\<close>





















section \<open>Winding down\<close>






section \<open>The other steps of a closing service\<close>

text \<open>Whatever else happens adds one unit at most.\<close>

lemma load_reconnecting [simp]:
  "load (s\<lparr>ns_reconnecting := l\<rparr>) = (ns_closing s, pending s, ns_handling s, l, carried_load s)"
  by (simp add: load_def pending_def carried_load_def)

lemma reset_loops [simp]:
  "ns_reconnecting (drop_from_repo r x s) = ns_reconnecting s" "ns_handling (drop_from_repo r x s) = ns_handling s"
  "pending (drop_from_repo r x s) = pending s" "carried_load (drop_from_repo r x s) = carried_load s"
  by (simp_all add: drop_from_repo_def pending_def carried_load_def)







section \<open>The goroutines in flight\<close>
















section \<open>Progress\<close>















end
