(* ===== verification/Signaling_Run.thy ===== *)
theory Signaling_Run
  imports Signaling_Props
begin

text \<open>
  The life of the signaling client: \<open>Run\<close> serves one connection after the other, each with its three
  workers, until the context is cancelled. A step is one atomic part of \<open>Run\<close>, of a worker, of a request or
  of \<open>Delete\<close>, in any order; \<open>stop_step\<close> are those by which the client comes to its end.
\<close>

section \<open>The state\<close>

text \<open>
  Where \<open>Run\<close> is: about to call \<open>serveConnection\<close>; in its \<open>select\<close>; past \<open>cancel\<close>, past
  \<open>clearPendingResponses\<close>, in \<open>wg.Wait\<close>, each with the error to return; waiting to serve again; returned.
\<close>

datatype serve_phase =
  ToServe | Serving | Cancelled go_error | Cleared go_error | Draining go_error | Waiting | RunEnded

text \<open>
  A reading worker is at the check of its context, past the check, in the blocking read, holds what it
  read, or has returned.
\<close>

datatype 'm reader = AtCheck | AtCall | Reading | Holding 'm | Ended

text \<open>
  \<open>sv_cancelled\<close>: \<open>cancel\<close> of \<open>connCtx\<close> was called. \<open>sv_send\<close>: \<open>sendMsg\<close> runs; between its turns it is at its
  \<open>select\<close>. \<open>sv_conns\<close> counts the connections served so far; \<open>sv_crashed\<close> records the panic of a worker.
\<close>

record client_run =
  sv_client :: sig_client
  sv_phase :: serve_phase
  sv_cancelled :: bool
  sv_errs :: "go_error list"
  sv_send :: bool
  sv_sdp :: "reply_message reader"
  sv_resp :: "(response_message \<times> cref) reader"
  sv_conns :: nat
  sv_crashed :: bool

definition conn_done :: "client_run \<Rightarrow> bool" where
  "conn_done s \<longleftrightarrow> sv_cancelled s \<or> sc_closing (sv_client s)"

definition start_client :: "sig_client \<Rightarrow> client_run" where
  "start_client c = \<lparr>sv_client = c, sv_phase = ToServe, sv_cancelled = True, sv_errs = [],
     sv_send = False, sv_sdp = Ended, sv_resp = Ended, sv_conns = 0, sv_crashed = False\<rparr>"

text \<open>Where \<open>Run\<close> goes when \<open>serveConnection\<close> returned.\<close>

definition after_serve :: "client_run \<Rightarrow> client_run" where
  "after_serve s = s\<lparr>sv_cancelled := True,
     sv_phase := if run_again (sc_closing (sv_client s)) False then Waiting else RunEnded\<rparr>"

definition sdp_ends :: "worker \<Rightarrow> client_run \<Rightarrow> client_run" where
  "sdp_ends w s = s\<lparr>sv_sdp := Ended, sv_errs := worker_report w (sv_errs s)\<rparr>"

definition resp_ends :: "worker \<Rightarrow> client_run \<Rightarrow> client_run" where
  "resp_ends w s = s\<lparr>sv_resp := Ended, sv_errs := worker_report w (sv_errs s)\<rparr>"

section \<open>Steps\<close>

text \<open>
  The argument \<open>live\<close> admits the steps that take the client further from its end: without it dialing and reading
  fail, as they do at some point once the context is cancelled and the connection closed, and \<open>sendMsg\<close>, whose
  \<open>select\<close> prefers neither case, does not take the zero message of a closed channel.
\<close>

inductive run_step :: "bool \<Rightarrow> client_run \<Rightarrow> client_run \<Rightarrow> bool" for live where
  RsServe: "live \<Longrightarrow> sv_phase s = ToServe \<Longrightarrow> serve_start dialed env (sv_client s) = (Ok (), c) \<Longrightarrow>
    run_step live s (s\<lparr>sv_client := c, sv_phase := Serving, sv_cancelled := False, sv_errs := [], sv_send := True,
      sv_sdp := AtCheck, sv_resp := AtCheck, sv_conns := Suc (sv_conns s)\<rparr>)"
| RsFail: "sv_phase s = ToServe \<Longrightarrow> serve_start dialed env (sv_client s) = (Err e, c) \<Longrightarrow>
    run_step live s (after_serve (s\<lparr>sv_client := c\<rparr>))"
| RsSelect: "sv_phase s = Serving \<Longrightarrow> serve_select k (sc_closing (sv_client s)) (sv_errs s) = Some e \<Longrightarrow>
    run_step live s (s\<lparr>sv_phase := Cancelled e, sv_cancelled := True\<rparr>)"
| RsClear: "sv_phase s = Cancelled e \<Longrightarrow> clear_pending_responses (sv_client s) = Ok c \<Longrightarrow>
    run_step live s (s\<lparr>sv_phase := Cleared e, sv_client := c\<rparr>)"
| RsClose: "sv_phase s = Cleared e \<Longrightarrow>
    run_step live s (s\<lparr>sv_phase := Draining e, sv_client := serve_close (sc_closing (sv_client s)) x y e (sv_client s)\<rparr>)"
| RsReturn: "sv_phase s = Draining e \<Longrightarrow> \<not> sv_send s \<Longrightarrow> sv_sdp s = Ended \<Longrightarrow> sv_resp s = Ended \<Longrightarrow>
    run_step live s (after_serve s)"
| RsWait: "sv_phase s = Waiting \<Longrightarrow> (d \<longrightarrow> sc_closing (sv_client s)) \<Longrightarrow>
    run_step live s (s\<lparr>sv_phase := if run_again False d then ToServe else RunEnded\<rparr>)"

inductive worker_step :: "bool \<Rightarrow> client_run \<Rightarrow> client_run \<Rightarrow> bool" for live where
  WsSend: "sv_send s \<Longrightarrow> live \<or> k = OnSendCtx \<or> ch_buf (sc_sendMsgs (sv_client s)) \<noteq> [] \<Longrightarrow>
    send_msg_turn k (conn_done s) encoded (sv_client s) = Some (Ok (w, m, c)) \<Longrightarrow>
    worker_step live s (s\<lparr>sv_client := c, sv_send := (w = GoesOn), sv_errs := worker_report w (sv_errs s)\<rparr>)"
| WsSendPanic: "sv_send s \<Longrightarrow> send_msg_turn k (conn_done s) encoded (sv_client s) = Some Panic \<Longrightarrow>
    worker_step live s (s\<lparr>sv_crashed := True\<rparr>)"
| WsSdpCheck: "sv_sdp s = AtCheck \<Longrightarrow>
    worker_step live s (case ctx_check (conn_done s) of Some w \<Rightarrow> sdp_ends w s | None \<Rightarrow> s\<lparr>sv_sdp := AtCall\<rparr>)"
| WsSdpCall: "sv_sdp s = AtCall \<Longrightarrow>
    worker_step live s (if sc_conn (sv_client s) = None then s\<lparr>sv_crashed := True\<rparr> else s\<lparr>sv_sdp := Reading\<rparr>)"
| WsSdpEnd: "sv_sdp s = Reading \<Longrightarrow> sdp_got read decoded = Ok (Inl w) \<Longrightarrow> worker_step live s (sdp_ends w s)"
| WsSdpRead: "live \<Longrightarrow> sv_sdp s = Reading \<Longrightarrow> sdp_got read decoded = Ok (Inr m) \<Longrightarrow>
    worker_step live s (s\<lparr>sv_sdp := Holding m\<rparr>)"
| WsSdpSend: "sv_sdp s = Holding m \<Longrightarrow> sdp_send m (sv_client s) = Some (Ok c) \<Longrightarrow>
    worker_step live s (s\<lparr>sv_client := c, sv_sdp := AtCheck\<rparr>)"
| WsSdpPanic: "sv_sdp s = Holding m \<Longrightarrow> sdp_send m (sv_client s) = Some Panic \<Longrightarrow>
    worker_step live s (s\<lparr>sv_crashed := True\<rparr>)"
| WsRespCheck: "sv_resp s = AtCheck \<Longrightarrow>
    worker_step live s (case ctx_check (conn_done s) of Some w \<Rightarrow> resp_ends w s | None \<Rightarrow> s\<lparr>sv_resp := AtCall\<rparr>)"
| WsRespCall: "sv_resp s = AtCall \<Longrightarrow>
    worker_step live s (if sc_coder (sv_client s) = None then s\<lparr>sv_crashed := True\<rparr> else s\<lparr>sv_resp := Reading\<rparr>)"
| WsRespEnd: "sv_resp s = Reading \<Longrightarrow> responses_got (Inl e) (sv_client s) = (w, None) \<Longrightarrow>
    worker_step live s (resp_ends w s)"
| WsRespRead: "live \<Longrightarrow> sv_resp s = Reading \<Longrightarrow> responses_got (Inr m) (sv_client s) = (GoesOn, fl) \<Longrightarrow>
    worker_step live s (s\<lparr>sv_resp := case fl of None \<Rightarrow> AtCheck | Some h \<Rightarrow> Holding h\<rparr>)"
| WsRespSend: "sv_resp s = Holding (m, r) \<Longrightarrow> response_send r m (sv_client s) = Some (Ok c) \<Longrightarrow>
    worker_step live s (s\<lparr>sv_client := c, sv_resp := AtCheck\<rparr>)"
| WsRespPanic: "sv_resp s = Holding (m, r) \<Longrightarrow> response_send r m (sv_client s) = Some Panic \<Longrightarrow>
    worker_step live s (s\<lparr>sv_crashed := True\<rparr>)"

text \<open>What goes on outside: requests, the reader of \<open>receiveSDPs\<close>, and the parts of \<open>Delete\<close>.\<close>

inductive outer_step :: "sig_client \<Rightarrow> sig_client \<Rightarrow> bool" where
  OsBegin: "request_begin q c = (Ok r, d) \<Longrightarrow> outer_step c d"
| OsQueue: "check_resp_send q k b c = Some (Ok (), d) \<Longrightarrow> outer_step c d"
| OsWait: "check_resp_wait q r k b c = Some (res, d) \<Longrightarrow> outer_step c d"
| OsEnd: "outer_step c (request_end q c)"
| OsReceive: "chan_recv (sc_receiveSDPs c) = Some (m, ch) \<Longrightarrow> outer_step c (c\<lparr>sc_receiveSDPs := ch\<rparr>)"
| OsCancel: "outer_step c (c\<lparr>sc_closing := True\<rparr>)"
| OsClose: "sc_closing c \<Longrightarrow> close_connection 0 ''close'' x y c = (res, d) \<Longrightarrow> outer_step c d"
| OsDelete: "sc_closing c \<Longrightarrow> chan_close (sc_sendMsgs c) = Ok ch \<Longrightarrow> chan_close (sc_receiveSDPs c) = Ok ch' \<Longrightarrow>
    outer_step c (c\<lparr>sc_sendMsgs := ch, sc_receiveSDPs := ch'\<rparr>)"

inductive client_step :: "client_run \<Rightarrow> client_run \<Rightarrow> bool" where
  CsRun: "\<not> sv_crashed s \<Longrightarrow> run_step True s t \<Longrightarrow> client_step s t"
| CsWorker: "\<not> sv_crashed s \<Longrightarrow> worker_step True s t \<Longrightarrow> client_step s t"
| CsOuter: "\<not> sv_crashed s \<Longrightarrow> outer_step (sv_client s) c \<Longrightarrow> client_step s (s\<lparr>sv_client := c\<rparr>)"

inductive client_reached :: "client_run \<Rightarrow> bool" where
  CrStart: "client_reached (start_client (new_signaling_client n m))"
| CrStep: "client_reached s \<Longrightarrow> client_step s t \<Longrightarrow> client_reached t"

section \<open>The invariant\<close>

text \<open>The table of requests: every entry has an open channel of its own.\<close>

definition table_ok :: "sig_client \<Rightarrow> bool" where
  "table_ok c \<longleftrightarrow>
     distinct (map fst (sc_pending c)) \<and> distinct (map snd (sc_pending c)) \<and>
     (\<forall>p \<in> set (sc_pending c). \<exists>ch. sc_chans c (snd p) = Some ch \<and> \<not> ch_closed ch) \<and>
     (\<forall>r. sc_chans c r \<noteq> None \<longrightarrow> r < sc_next c)"

text \<open>What every step but those of \<open>Run\<close> leaves of the client.\<close>

definition same_links :: "sig_client \<Rightarrow> sig_client \<Rightarrow> bool" where
  "same_links c d \<longleftrightarrow>
     sc_conn d = sc_conn c \<and> sc_ctrlStream d = sc_ctrlStream c \<and> sc_coder d = sc_coder c \<and>
     sc_isOnline d = sc_isOnline c \<and> (sc_closing c \<longrightarrow> sc_closing d) \<and>
     (\<forall>r ch. sc_chans c r = Some ch \<longrightarrow> (\<exists>ch'. sc_chans d r = Some ch' \<and> ch_closed ch' = ch_closed ch))"

lemma same_linksI:
  assumes "sc_conn d = sc_conn c" "sc_ctrlStream d = sc_ctrlStream c" "sc_coder d = sc_coder c"
    "sc_isOnline d = sc_isOnline c" "sc_closing c \<longrightarrow> sc_closing d" "sc_chans d = sc_chans c"
  shows "same_links c d"
  using assms by (simp add: same_links_def)

lemma table_ok_same: "same_table c d \<Longrightarrow> table_ok d = table_ok c"
  by (simp add: table_ok_def same_table_def)

lemma table_okI: "table_ok c \<Longrightarrow> same_table c d \<Longrightarrow> table_ok d"
  by (simp add: table_ok_same)

lemma table_ok_clear: "table_ok c \<Longrightarrow> clear_pending_responses c = Ok (cleared c)"
proof -
  assume ok: "table_ok c"
  have "filter (\<lambda>q. fst q \<notin> fst ` set (sc_pending c)) (sc_pending c) = []"
    by (simp add: filter_empty_conv)
  then show ?thesis
    using ok clear_entries_run [of "sc_pending c" c]
    by (simp add: clear_pending_responses_def cleared_def table_ok_def)
qed

lemma begin_keeps:
  assumes "table_ok c" "request_begin q c = (Ok r, d)"
  shows "table_ok d" "same_links c d"
proof -
  have d: "d = c\<lparr>sc_chans := (sc_chans c)(r \<mapsto> make_chan 1), sc_next := Suc r,
      sc_pending := (msg_Id (rq_msg q), r) # filter (\<lambda>p. fst p \<noteq> msg_Id (rq_msg q)) (sc_pending c)\<rparr>"
    and r: "r = sc_next c"
    using assms(2) by (auto simp: request_begin_def Let_def split: if_splits)
  have fresh: "sc_chans c r = None" using assms(1) by (auto simp: table_ok_def r)
  then have "\<forall>p \<in> set (sc_pending c). snd p \<noteq> r" using assms(1) by (fastforce simp: table_ok_def)
  then show "table_ok d"
    using assms(1) by (auto simp: table_ok_def d r distinct_map_filter less_Suc_eq image_iff)
  show "same_links c d" using fresh by (auto simp: same_links_def d)
qed

lemma chan_updated:
  assumes "table_ok c" "sc_chans c r = Some ch" "ch_closed ch' = ch_closed ch"
  shows "table_ok (c\<lparr>sc_chans := (sc_chans c)(r \<mapsto> ch')\<rparr>)" "same_links c (c\<lparr>sc_chans := (sc_chans c)(r \<mapsto> ch')\<rparr>)"
  using assms by (auto simp: table_ok_def same_links_def)

lemma wait_keeps:
  assumes "table_ok c" "check_resp_wait q r k b c = Some (res, d)"
  shows "table_ok d" "same_links c d"
proof -
  have "d = c \<or> (\<exists>ch m ch'. sc_chans c r = Some ch \<and> chan_recv ch = Some (Some m, ch') \<and>
      d = c\<lparr>sc_chans := (sc_chans c)(r \<mapsto> ch')\<rparr>)"
    using assms(2) by (cases k) (auto simp: check_resp_wait_def split: if_splits option.splits)
  moreover have "ch_closed ch' = ch_closed ch" if "chan_recv ch = Some (x, ch')" for ch ch' :: "response_message chan" and x
    using that by (auto simp: chan_recv_def split: list.splits if_splits)
  ultimately have "table_ok d \<and> same_links c d" using assms(1) chan_updated by (auto intro: same_linksI)
  then show "table_ok d" "same_links c d" by simp_all
qed

lemma close_connection_eq: "\<exists>qs. snd (close_connection n desc x y c) = c\<lparr>sc_lib := qs\<rparr>"
proof -
  have self: "c = c\<lparr>sc_lib := sc_lib c\<rparr>" by simp
  show ?thesis
    by (cases "sc_conn c"; cases "sc_ctrlStream c"; cases x; cases y)
      (auto simp: close_connection_def try_op_def sig_lib_def intro: self exI)
qed

lemma outer_keeps:
  assumes "outer_step c d" "table_ok c"
  shows "table_ok d" "same_links c d"
proof -
  from assms have "table_ok d \<and> same_links c d"
  proof (induction rule: outer_step.induct)
    case (OsBegin q c r d)
    then show ?case using begin_keeps by blast
  next
    case (OsQueue q k b c d)
    then have "d = c \<or> (\<exists>ch. d = c\<lparr>sc_sendMsgs := ch\<rparr>)"
      by (cases k) (auto simp: check_resp_send_def split: if_splits)
    then show ?case using OsQueue(2) by (auto simp: same_table_def intro: same_linksI table_okI [of c])
  next
    case (OsWait q r k b c res d)
    then show ?case using wait_keeps by blast
  next
    case (OsEnd c q)
    then show ?case by (auto simp: table_ok_def request_end_def distinct_map_filter intro: same_linksI)
  next
    case (OsClose c x y res d)
    obtain qs where "d = c\<lparr>sc_lib := qs\<rparr>" using OsClose(2) close_connection_eq [of 0 "''close''" x y c] by auto
    then show ?case using OsClose(3) by (auto simp: same_table_def intro: same_linksI table_okI [of c])
  qed (auto simp: same_table_def intro: same_linksI table_okI)
  then show "table_ok d" "same_links c d" by simp_all
qed

lemma send_msg_keeps:
  assumes "send_msg_turn k b encoded c = Some (Ok (w, m, d))" "table_ok c"
  shows "table_ok d" "same_links c d"
proof -
  have "\<exists>ch. d = c\<lparr>sc_sendMsgs := ch\<rparr>"
    using assms(1)
    by (cases k) (auto simp: send_msg_turn_def Let_def split: if_splits option.splits sum.splits
        intro: exI [of _ "sc_sendMsgs c"])
  then show "table_ok d" "same_links c d" using assms(2) by (auto simp: same_table_def intro: same_linksI table_okI [of c])
qed

lemma sdp_send_keeps:
  assumes "sdp_send m c = Some (Ok d)" "table_ok c"
  shows "table_ok d" "same_links c d"
  using assms by (auto simp: sdp_send_def same_table_def split: if_splits intro: same_linksI table_okI [of c])

lemma response_send_keeps:
  assumes "response_send r m c = Some (Ok d)" "table_ok c"
  shows "table_ok d" "same_links c d"
  using assms chan_updated by (auto simp: response_send_def split: option.splits if_splits)

lemma register_connect_cases:
  assumes "register_connect env c = (r, d)"
  shows "same_table c d \<and> sc_closing d = sc_closing c \<and> sc_conn d = sc_conn c \<and> sc_isOnline d = sc_isOnline c \<and>
    sc_sendMsgs d = sc_sendMsgs c \<and> r \<noteq> Panic \<and> (r = Ok () \<longrightarrow> sc_ctrlStream d \<noteq> None \<and> sc_coder d \<noteq> None)"
proof -
  have conv: "to_creds_message x \<noteq> Panic" for x by (simp add: to_creds_message_def split: sum.split)
  show ?thesis
    using assms conv [of "re_creds env"]
    by (cases "re_open env"; cases "re_encode env"; cases "re_decode env"; cases "to_creds_message (re_creds env)")
      (auto simp: register_connect_def try_op_def same_table_def Let_def split: if_splits prod.splits)
qed

lemma serve_start_cases:
  assumes "serve_start dialed env c = (r, d)"
  shows "same_table c d" "sc_closing d = sc_closing c" "r \<noteq> Panic"
    "r = Ok () \<Longrightarrow> sc_conn d \<noteq> None \<and> sc_ctrlStream d \<noteq> None \<and> sc_coder d \<noteq> None \<and> sc_isOnline d"
    "r \<noteq> Ok () \<Longrightarrow> sc_isOnline d = sc_isOnline c"
    "sc_sendMsgs d = sc_sendMsgs c"
proof -
  have "same_table c d \<and> sc_closing d = sc_closing c \<and> r \<noteq> Panic \<and>
    (r = Ok () \<longrightarrow> sc_conn d \<noteq> None \<and> sc_ctrlStream d \<noteq> None \<and> sc_coder d \<noteq> None \<and> sc_isOnline d) \<and>
    (r \<noteq> Ok () \<longrightarrow> sc_isOnline d = sc_isOnline c) \<and> sc_sendMsgs d = sc_sendMsgs c"
  proof (cases dialed)
    case (Inr n)
    obtain res e where reg: "register_connect env (c\<lparr>sc_conn := Some n\<rparr>) = (res, e)" by fastforce
    show ?thesis
      using assms register_connect_cases [OF reg]
      by (cases res) (auto simp: serve_start_def try_op_def reg Inr sig_lib_def same_table_def)
  qed (use assms in \<open>auto simp: serve_start_def try_op_def same_table_def\<close>)
  then show "same_table c d" "sc_closing d = sc_closing c" "r \<noteq> Panic"
    "r = Ok () \<Longrightarrow> sc_conn d \<noteq> None \<and> sc_ctrlStream d \<noteq> None \<and> sc_coder d \<noteq> None \<and> sc_isOnline d"
    "r \<noteq> Ok () \<Longrightarrow> sc_isOnline d = sc_isOnline c"
    "sc_sendMsgs d = sc_sendMsgs c"
    by blast+
qed

lemma serve_close_cases:
  "same_table c (serve_close b x y e c)" "sc_closing (serve_close b x y e c) = sc_closing c"
  "\<not> sc_isOnline (serve_close b x y e c)" "sc_sendMsgs (serve_close b x y e c) = sc_sendMsgs c"
  "\<not> b \<Longrightarrow> sc_conn c \<noteq> None \<Longrightarrow> sc_ctrlStream c \<noteq> None \<Longrightarrow>
     sc_conn (serve_close b x y e c) = None \<and> sc_coder (serve_close b x y e c) = None"
proof -
  obtain qs where qs: "snd (close_connection 0 ''conenction lost'' x y (c\<lparr>sc_isOnline := False\<rparr>)) =
      c\<lparr>sc_isOnline := False, sc_lib := qs\<rparr>"
    using close_connection_eq [of 0 "''conenction lost''" x y "c\<lparr>sc_isOnline := False\<rparr>"] by auto
  show "same_table c (serve_close b x y e c)" "sc_closing (serve_close b x y e c) = sc_closing c"
    "\<not> sc_isOnline (serve_close b x y e c)" "sc_sendMsgs (serve_close b x y e c) = sc_sendMsgs c"
    "\<not> b \<Longrightarrow> sc_conn c \<noteq> None \<Longrightarrow> sc_ctrlStream c \<noteq> None \<Longrightarrow>
     sc_conn (serve_close b x y e c) = None \<and> sc_coder (serve_close b x y e c) = None"
    using qs by (simp_all add: serve_close_def same_table_def Let_def split_beta)
qed

lemma cleared_keeps:
  "sc_conn (cleared c) = sc_conn c" "sc_ctrlStream (cleared c) = sc_ctrlStream c" "sc_coder (cleared c) = sc_coder c"
  "sc_isOnline (cleared c) = sc_isOnline c" "sc_closing (cleared c) = sc_closing c"
  "sc_sendMsgs (cleared c) = sc_sendMsgs c" "table_ok c \<Longrightarrow> table_ok (cleared c)"
  "sc_chans c r \<noteq> None \<Longrightarrow> sc_chans (cleared c) r \<noteq> None"
  by (auto simp: cleared_def table_ok_def)

text \<open>Where \<open>Run\<close> is decides what the client has and whether workers run.\<close>

definition phase_ok :: "serve_phase \<Rightarrow> sig_client \<Rightarrow> nat \<Rightarrow> bool \<Rightarrow> bool" where
  "phase_ok p c conns running \<longleftrightarrow>
     (case p of
        Serving \<Rightarrow> sc_conn c \<noteq> None \<and> sc_ctrlStream c \<noteq> None \<and> sc_coder c \<noteq> None \<and> sc_isOnline c \<and> 0 < conns
      | Cancelled e \<Rightarrow> sc_conn c \<noteq> None \<and> sc_ctrlStream c \<noteq> None \<and> sc_coder c \<noteq> None \<and> sc_isOnline c \<and> 0 < conns
      | Cleared e \<Rightarrow> sc_conn c \<noteq> None \<and> sc_ctrlStream c \<noteq> None \<and> sc_coder c \<noteq> None \<and> sc_isOnline c \<and> 0 < conns
      | Draining e \<Rightarrow> \<not> sc_isOnline c \<and> 0 < conns \<and>
          (\<not> sc_closing c \<longrightarrow> sc_conn c = None \<and> sc_coder c = None)
      | RunEnded \<Rightarrow> sc_closing c \<and> \<not> running \<and> (0 < conns \<longrightarrow> \<not> sc_isOnline c)
      | _ \<Rightarrow> \<not> running \<and> (0 < conns \<longrightarrow> \<not> sc_isOnline c))"

definition running :: "client_run \<Rightarrow> bool" where
  "running s \<longleftrightarrow> sv_send s \<or> sv_sdp s \<noteq> Ended \<or> sv_resp s \<noteq> Ended"

definition workers :: "client_run \<Rightarrow> nat" where
  "workers s = (if sv_send s then 1 else 0) + (if sv_sdp s = Ended then 0 else 1) + (if sv_resp s = Ended then 0 else 1)"

definition run_ok :: "client_run \<Rightarrow> bool" where
  "run_ok s \<longleftrightarrow>
     table_ok (sv_client s) \<and>
     phase_ok (sv_phase s) (sv_client s) (sv_conns s) (running s) \<and>
     (sv_cancelled s \<longleftrightarrow> sv_phase s \<noteq> Serving) \<and>
     length (sv_errs s) + workers s \<le> 3 \<and>
     (\<forall>m r. sv_resp s = Holding (m, r) \<longrightarrow>
        (\<exists>ch. sc_chans (sv_client s) r = Some ch \<and> (sv_phase s = Serving \<longrightarrow> \<not> ch_closed ch)))"

lemma phase_ok_links: "phase_ok p c n b \<Longrightarrow> same_links c d \<Longrightarrow> phase_ok p d n b"
  by (auto simp: phase_ok_def same_links_def split: serve_phase.splits)

lemma run_ok_client:
  assumes "run_ok s" "table_ok c" "same_links (sv_client s) c"
  shows "run_ok (s\<lparr>sv_client := c\<rparr>)"
proof -
  have "phase_ok (sv_phase s) c (sv_conns s) (running s)"
    using assms phase_ok_links unfolding run_ok_def by blast
  moreover have "\<exists>ch. sc_chans c r = Some ch \<and> (sv_phase s = Serving \<longrightarrow> \<not> ch_closed ch)"
    if "sv_resp s = Holding (m, r)" for m r
    using assms(1,3) that unfolding run_ok_def same_links_def by metis
  ultimately show ?thesis using assms(1,2) by (simp add: run_ok_def running_def workers_def)
qed

text \<open>A worker's step changes the client as one of the lemmas above says, and the worker itself.\<close>

lemma run_ok_errs:
  assumes "run_ok s" "workers t + length (sv_errs t) \<le> workers s + length (sv_errs s)" "running t \<longrightarrow> running s"
    "sv_client t = sv_client s" "sv_phase t = sv_phase s" "sv_cancelled t = sv_cancelled s" "sv_conns t = sv_conns s"
    "\<And>m r. sv_resp t = Holding (m, r) \<Longrightarrow>
       \<exists>ch. sc_chans (sv_client s) r = Some ch \<and> (sv_phase s = Serving \<longrightarrow> \<not> ch_closed ch)"
  shows "run_ok t"
proof -
  have "phase_ok (sv_phase s) (sv_client s) (sv_conns s) (running t)"
    using assms(1,3) unfolding run_ok_def phase_ok_def by (cases "sv_phase s") auto
  then show ?thesis using assms unfolding run_ok_def by auto
qed

lemma worker_report_length: "length (worker_report w es) \<le> Suc (length es)"
  by (auto simp: worker_report_def split: worker.split option.split)

lemma worker_report_goes_on: "worker_report GoesOn es = es"
  by (simp add: worker_report_def)

lemma loaded_channel:
  assumes "table_ok c" "responses_got d c = (w, Some (m, r))"
  shows "\<exists>ch. sc_chans c r = Some ch \<and> \<not> ch_closed ch"
proof -
  have "map_of (sc_pending c) (rm_MessageId m) = Some r"
    using assms(2) by (auto simp: responses_got_def response_load_def split: sum.splits)
  then show ?thesis using assms(1) by (auto simp: table_ok_def dest: map_of_SomeD)
qed

lemmas worker_simps = running_def workers_def sdp_ends_def resp_ends_def

lemma worker_step_ok: "worker_step live s t \<Longrightarrow> run_ok s \<Longrightarrow> run_ok t"
proof (induction rule: worker_step.induct)
  case (WsSend s k encoded w m c)
  let ?u = "s\<lparr>sv_client := c\<rparr>"
  have u: "run_ok ?u"
    using WsSend run_ok_client send_msg_keeps unfolding run_ok_def by blast
  show ?case
    by (rule run_ok_errs [OF u])
      (use u WsSend(1) worker_report_length [of w "sv_errs s"] in \<open>auto simp: worker_simps worker_report_goes_on run_ok_def\<close>)
next
  case (WsSdpSend s m c)
  let ?u = "s\<lparr>sv_client := c\<rparr>"
  have u: "run_ok ?u" using WsSdpSend run_ok_client sdp_send_keeps unfolding run_ok_def by blast
  show ?case by (rule run_ok_errs [OF u]) (use u WsSdpSend(1) in \<open>auto simp: worker_simps run_ok_def\<close>)
next
  case (WsRespSend s m r c)
  let ?u = "s\<lparr>sv_client := c\<rparr>"
  have u: "run_ok ?u" using WsRespSend run_ok_client response_send_keeps unfolding run_ok_def by blast
  show ?case by (rule run_ok_errs [OF u]) (use u WsRespSend(1) in \<open>auto simp: worker_simps run_ok_def\<close>)
next
  case (WsRespRead s m fl)
  have "\<exists>ch. sc_chans (sv_client s) r = Some ch \<and> \<not> ch_closed ch" if "fl = Some (m', r)" for m' r
    using WsRespRead(3,4) that loaded_channel unfolding run_ok_def by blast
  then show ?case
    by (intro run_ok_errs [OF WsRespRead(4)]) (use WsRespRead(2) in \<open>auto simp: worker_simps split: option.splits\<close>)
next
  case (WsSdpCheck s)
  have held: "sv_resp s = Holding (m, r) \<Longrightarrow> \<exists>ch. sc_chans (sv_client s) r = Some ch \<and>
      (sv_phase s = Serving \<longrightarrow> \<not> ch_closed ch)" for m r
    using WsSdpCheck(2) unfolding run_ok_def by blast
  show ?case
    by (rule run_ok_errs [OF WsSdpCheck(2)])
      (use WsSdpCheck(1) held worker_report_length [of "Stopped (Some CtxCanceled)" "sv_errs s"]
       in \<open>simp_all add: worker_simps ctx_check_def split: if_splits\<close>)
next
  case (WsRespCheck s)
  have held: "sv_resp s = Holding (m, r) \<Longrightarrow> \<exists>ch. sc_chans (sv_client s) r = Some ch \<and>
      (sv_phase s = Serving \<longrightarrow> \<not> ch_closed ch)" for m r
    using WsRespCheck(2) unfolding run_ok_def by blast
  show ?case
    by (rule run_ok_errs [OF WsRespCheck(2)])
      (use WsRespCheck(1) held worker_report_length [of "Stopped (Some CtxCanceled)" "sv_errs s"]
       in \<open>simp_all add: worker_simps ctx_check_def split: if_splits\<close>)
next
  case (WsSdpEnd s read decoded w)
  then show ?case
    by (intro run_ok_errs [OF WsSdpEnd(3)])
      (use worker_report_length [of w "sv_errs s"] in \<open>auto simp: worker_simps run_ok_def\<close>)
next
  case (WsRespEnd s e w)
  then show ?case
    by (intro run_ok_errs [OF WsRespEnd(3)])
      (use worker_report_length [of w "sv_errs s"] in \<open>auto simp: worker_simps run_ok_def\<close>)
qed (auto intro!: run_ok_errs simp: worker_simps run_ok_def split: if_splits)

lemma after_serve_simps:
  "sv_client (after_serve s) = sv_client s" "sv_cancelled (after_serve s)" "sv_errs (after_serve s) = sv_errs s"
  "sv_conns (after_serve s) = sv_conns s" "workers (after_serve s) = workers s" "running (after_serve s) = running s"
  "sv_send (after_serve s) = sv_send s" "sv_sdp (after_serve s) = sv_sdp s"
  "sv_resp (after_serve s) = sv_resp s" "sv_crashed (after_serve s) = sv_crashed s"
  "sv_phase (after_serve s) = (if sc_closing (sv_client s) then RunEnded else Waiting)"
  by (simp_all add: after_serve_def run_again_def workers_def running_def)

lemma phase_running: "phase_ok p c n b \<Longrightarrow> p = ToServe \<or> p = Waiting \<or> p = RunEnded \<Longrightarrow> \<not> b \<and> (0 < n \<longrightarrow> \<not> sc_isOnline c)"
  by (auto simp: phase_ok_def)

lemma run_step_ok: "run_step live s t \<Longrightarrow> run_ok s \<Longrightarrow> run_ok t"
proof (induction rule: run_step.induct)
  case (RsServe s dialed env c)
  note c = serve_start_cases [OF RsServe(3)]
  have "table_ok c" using RsServe(4) c(1) table_okI unfolding run_ok_def by blast
  then show ?case using c(4) by (simp add: run_ok_def phase_ok_def workers_def)
next
  case (RsFail s dialed env e c)
  note c = serve_start_cases [OF RsFail(2)]
  have "table_ok c" using RsFail(3) c(1) table_okI unfolding run_ok_def by blast
  moreover have "\<not> running s" "0 < sv_conns s \<longrightarrow> \<not> sc_isOnline c"
    using RsFail(1,3) c(5) by (auto simp: run_ok_def phase_ok_def)
  ultimately show ?case
    using RsFail(3) c(2) by (auto simp: run_ok_def phase_ok_def after_serve_simps running_def workers_def)
next
  case (RsSelect s k e)
  then show ?case by (auto simp: run_ok_def phase_ok_def workers_def running_def)
next
  case (RsClear s e c)
  have t: "table_ok (sv_client s)" using RsClear(3) by (simp add: run_ok_def)
  have c: "c = cleared (sv_client s)" using RsClear(2) table_ok_clear [OF t] by simp
  have held: "\<exists>ch. sc_chans c r = Some ch" if "sv_resp s = Holding (m, r)" for m r
    using RsClear(3) that cleared_keeps(8) [of "sv_client s" r] unfolding run_ok_def c by blast
  show ?case
    using RsClear(1,3) t held by (simp add: run_ok_def phase_ok_def workers_def running_def c cleared_keeps)
next
  case (RsClose s e x y)
  note k = serve_close_cases [where c = "sv_client s" and b = "sc_closing (sv_client s)" and x = x and y = y and e = e]
  have "table_ok (serve_close (sc_closing (sv_client s)) x y e (sv_client s))"
    using RsClose(2) k(1) table_okI unfolding run_ok_def by blast
  then show ?case
    using RsClose k by (auto simp: run_ok_def phase_ok_def workers_def running_def same_table_def)
next
  case (RsReturn s e)
  then show ?case by (auto simp: run_ok_def phase_ok_def after_serve_simps running_def)
next
  case (RsWait s d)
  then show ?case by (auto simp: run_ok_def phase_ok_def workers_def running_def run_again_def)
qed

lemma start_client_ok: "run_ok (start_client (new_signaling_client n m))"
  by (simp add: run_ok_def start_client_def table_ok_def new_signaling_client_def phase_ok_def running_def workers_def)

lemma client_reached_ok: "client_reached s \<Longrightarrow> run_ok s"
proof (induction rule: client_reached.induct)
  case (CrStart n m)
  show ?case by (rule start_client_ok)
next
  case (CrStep s t)
  from CrStep(2) CrStep.IH show ?case
  proof (cases rule: client_step.cases)
    case CsRun
    then show ?thesis using run_step_ok CrStep.IH by blast
  next
    case CsWorker
    then show ?thesis using worker_step_ok CrStep.IH by blast
  next
    case (CsOuter c)
    then show ?thesis using run_ok_client outer_keeps CrStep.IH unfolding run_ok_def by blast
  qed
qed

section \<open>What holds in every run\<close>

text \<open>
  C20: in every run of the client: while it serves a connection the connection, the decoder and the
  encoder are there; when it does not, no worker of an earlier connection runs; a client that has been
  connected is online only from the start of a connection to its closing; and \<open>errChan\<close> never holds more
  than it has room for, so that no worker waits to report its error.
\<close>

theorem client_lifecycle:
  assumes "client_reached s"
  shows "(sv_phase s = Serving \<longrightarrow> sc_conn (sv_client s) \<noteq> None \<and> sc_coder (sv_client s) \<noteq> None \<and> sc_isOnline (sv_client s)) \<and>
    (sv_phase s \<in> {ToServe, Waiting, RunEnded} \<longrightarrow> \<not> sv_send s \<and> sv_sdp s = Ended \<and> sv_resp s = Ended) \<and>
    (sc_isOnline (sv_client s) \<and> 0 < sv_conns s \<longrightarrow> sv_phase s = Serving \<or> (\<exists>e. sv_phase s = Cancelled e \<or> sv_phase s = Cleared e)) \<and>
    length (sv_errs s) \<le> 3"
  using client_reached_ok [OF assms] unfolding run_ok_def phase_ok_def running_def
  by (cases "sv_phase s") auto

text \<open>
  C21: while the client serves a connection none of its workers panics, unless \<open>Delete\<close> closed the channel of SDP
  messages.
\<close>

theorem serving_never_panics:
  assumes "client_reached s" "\<not> sv_crashed s" "sv_phase s = Serving" "worker_step True s t" "sv_crashed t"
  shows "ch_closed (sc_receiveSDPs (sv_client s))"
  using assms(4)
proof (cases rule: worker_step.cases)
  case (WsSendPanic k encoded)
  then show ?thesis
    using client_reached_ok [OF assms(1)] assms(3)
    by (cases k) (auto simp: send_msg_turn_def run_ok_def phase_ok_def Let_def split: if_splits option.splits sum.splits)
next
  case (WsRespPanic m r)
  then show ?thesis
    using client_reached_ok [OF assms(1)] assms(3)
    by (auto simp: response_send_def run_ok_def split: if_splits option.splits)
next
  case (WsSdpPanic m)
  then show ?thesis by (simp add: sdp_send_def split: if_splits)
qed (use assms(2,3,5) client_reached_ok [OF assms(1)] in
    \<open>auto simp: sdp_ends_def resp_ends_def ctx_check_def run_ok_def phase_ok_def split: if_splits option.splits\<close>)

text \<open>
  C22: after a connection was lost the encoder is gone before \<open>sendMsg\<close> has returned: if a request
  queued a message meanwhile, the \<open>select\<close> of \<open>sendMsg\<close> may take it in place of the cancelled context, and
  the call of the encoder panics.
\<close>

theorem send_after_loss_panics:
  assumes "client_reached s" "\<not> sv_crashed s" "sv_phase s = Draining e" "\<not> sc_closing (sv_client s)"
    and "sv_send s" "ch_buf (sc_sendMsgs (sv_client s)) \<noteq> []"
  shows "send_msg_turn OnMsg (conn_done s) encoded (sv_client s) = Some Panic \<and>
    client_step s (s\<lparr>sv_crashed := True\<rparr>)"
proof -
  have "sc_coder (sv_client s) = None"
    using client_reached_ok [OF assms(1)] assms(3,4) by (simp add: run_ok_def phase_ok_def)
  moreover obtain m ms where "ch_buf (sc_sendMsgs (sv_client s)) = m # ms" using assms(6) by (cases "ch_buf (sc_sendMsgs (sv_client s))") auto
  ultimately have "send_msg_turn OnMsg (conn_done s) encoded (sv_client s) = Some Panic"
    by (simp add: send_msg_turn_def chan_recv_def)
  then show ?thesis using CsWorker [OF assms(2) WsSendPanic [OF assms(5)]] by blast
qed

text \<open>
  The pending requests are cleared before the client is marked offline: a request that starts in between is
  accepted, and the closing does not answer it.
\<close>

lemma request_missed_by_close:
  assumes "client_reached s" "sv_phase s = Cleared e"
  shows "\<exists>r c. request_begin q (sv_client s) = (Ok r, c) \<and>
    map_of (sc_pending (serve_close b x y e c)) (msg_Id (rq_msg q)) = Some r \<and>
    check_resp_wait q r OnResp d (serve_close b x y e c) = None"
proof -
  have "sc_isOnline (sv_client s)"
    using client_reached_ok [OF assms(1)] assms(2) by (simp add: run_ok_def phase_ok_def)
  then obtain r c where c: "request_begin q (sv_client s) = (Ok r, c)" "sc_chans c r = Some (make_chan 1)"
    "map_of (sc_pending c) (msg_Id (rq_msg q)) = Some r"
    by (simp add: request_begin_def Let_def)
  have "sc_chans (serve_close b x y e c) = sc_chans c" "sc_pending (serve_close b x y e c) = sc_pending c"
    using serve_close_cases(1) [of c b x y e] by (simp_all add: same_table_def)
  then show ?thesis using c by (auto simp: check_resp_wait_def chan_recv_def make_chan_def)
qed

section \<open>Stopping\<close>

text \<open>
  The steps towards the end. In a run of a client whose context is cancelled they are counted against all
  others: a dial or a read that still succeeds, a message that is queued, a turn in which \<open>sendMsg\<close> takes
  the zero message, each of which costs six at most.
\<close>

inductive stop_step :: "client_run \<Rightarrow> client_run \<Rightarrow> bool" where
  SpRun: "\<not> sv_crashed s \<Longrightarrow> run_step False s t \<Longrightarrow> stop_step s t"
| SpWorker: "\<not> sv_crashed s \<Longrightarrow> worker_step False s t \<Longrightarrow> stop_step s t"

primrec phase_weight :: "serve_phase \<Rightarrow> nat" where
  "phase_weight Serving = 4"
| "phase_weight (Cancelled e) = 3"
| "phase_weight (Cleared e) = 2"
| "phase_weight (Draining e) = 1"
| "phase_weight Waiting = 2"
| "phase_weight ToServe = 1"
| "phase_weight RunEnded = 0"

primrec reader_weight :: "'m reader \<Rightarrow> nat" where
  "reader_weight Ended = 0"
| "reader_weight AtCheck = 1"
| "reader_weight Reading = 1"
| "reader_weight AtCall = 2"
| "reader_weight (Holding m) = 2"

definition stop_weight :: "client_run \<Rightarrow> nat" where
  "stop_weight s = (if sv_crashed s then 0 else 1) + phase_weight (sv_phase s) + reader_weight (sv_sdp s) +
     reader_weight (sv_resp s) + (if sv_send s then 1 else 0) + length (ch_buf (sc_sendMsgs (sv_client s)))"

lemma run_step_lighter:
  "run_step live s t \<Longrightarrow> \<not> live \<Longrightarrow> run_ok s \<Longrightarrow> sc_closing (sv_client s) \<Longrightarrow>
     stop_weight t < stop_weight s \<and> sc_closing (sv_client t) \<and> sv_crashed t = sv_crashed s"
proof (induction rule: run_step.induct)
  case (RsFail s dialed env e c)
  then show ?case using serve_start_cases(2,6) [OF RsFail(2)] by (simp add: stop_weight_def after_serve_simps)
next
  case (RsClear s e c)
  then have "c = cleared (sv_client s)" using table_ok_clear by (simp add: run_ok_def)
  then show ?case using RsClear by (simp add: stop_weight_def cleared_keeps)
qed (auto simp: stop_weight_def after_serve_simps run_again_def serve_close_cases)

lemma worker_step_lighter:
  "worker_step live s t \<Longrightarrow> \<not> live \<Longrightarrow> \<not> sv_crashed s \<Longrightarrow> sc_closing (sv_client s) \<Longrightarrow>
     stop_weight t < stop_weight s \<and> sc_closing (sv_client t)"
proof (induction rule: worker_step.induct)
  case (WsSend s k encoded w m c)
  then show ?case
    by (cases k; cases "sc_sendMsgs (sv_client s)")
      (auto simp: stop_weight_def send_msg_turn_def chan_recv_def Let_def
        split: if_splits list.splits sum.splits option.splits)
next
  case (WsSdpSend s m c)
  then show ?case by (auto simp: stop_weight_def sdp_send_def split: if_splits)
next
  case (WsRespSend s m r c)
  then show ?case by (auto simp: stop_weight_def response_send_def split: if_splits option.splits)
qed (auto simp: stop_weight_def sdp_ends_def resp_ends_def ctx_check_def conn_done_def split: if_splits)

lemma stop_step_keeps:
  assumes "stop_step s t" "run_ok s" "sc_closing (sv_client s)"
  shows "stop_weight t < stop_weight s" "run_ok t" "sc_closing (sv_client t)"
  using assms run_step_lighter [of False s t] worker_step_lighter [of False s t] run_step_ok [of False s t]
    worker_step_ok [of False s t]
  by (auto elim!: stop_step.cases)

lemma worker_step_heavier:
  "worker_step live s t \<Longrightarrow> run_ok s \<Longrightarrow>
     stop_weight t \<le> stop_weight s + 6 \<and> (sc_closing (sv_client s) \<longrightarrow> sc_closing (sv_client t))"
proof (induction rule: worker_step.induct)
  case (WsSend s k encoded w m c)
  then show ?case
    by (cases k; cases "sc_sendMsgs (sv_client s)")
      (auto simp: stop_weight_def send_msg_turn_def chan_recv_def Let_def
        split: if_splits list.splits sum.splits option.splits)
next
  case (WsSdpSend s m c)
  then show ?case by (auto simp: stop_weight_def sdp_send_def split: if_splits)
next
  case (WsRespSend s m r c)
  then show ?case by (auto simp: stop_weight_def response_send_def split: if_splits option.splits)
qed (auto simp: stop_weight_def sdp_ends_def resp_ends_def ctx_check_def conn_done_def split: if_splits option.splits)

lemma run_step_heavier:
  "run_step live s t \<Longrightarrow> run_ok s \<Longrightarrow> sc_closing (sv_client s) \<Longrightarrow>
     stop_weight t \<le> stop_weight s + 6 \<and> sc_closing (sv_client t)"
proof (induction rule: run_step.induct)
  case (RsServe s dialed env c)
  then have "\<not> running s" using phase_running [of ToServe "sv_client s" "sv_conns s" "running s"] by (simp add: run_ok_def)
  then show ?case using serve_start_cases(2,6) [OF RsServe(3)] RsServe by (simp add: stop_weight_def running_def)
next
  case (RsFail s dialed env e c)
  then show ?case using serve_start_cases(2,6) [OF RsFail(2)] by (simp add: stop_weight_def after_serve_simps)
next
  case (RsClear s e c)
  then have "c = cleared (sv_client s)" using table_ok_clear by (simp add: run_ok_def)
  then show ?case using RsClear by (simp add: stop_weight_def cleared_keeps)
qed (auto simp: stop_weight_def after_serve_simps run_again_def serve_close_cases)

lemma outer_step_sends:
  "outer_step c d \<Longrightarrow> length (ch_buf (sc_sendMsgs d)) \<le> length (ch_buf (sc_sendMsgs c)) + 1"
proof (induction rule: outer_step.induct)
  case (OsBegin q c r d)
  then show ?case by (auto simp: request_begin_def Let_def split: if_splits)
next
  case (OsQueue q k b c d)
  then show ?case by (cases k) (auto simp: check_resp_send_def split: if_splits)
next
  case (OsWait q r k b c res d)
  then show ?case by (cases k) (auto simp: check_resp_wait_def split: if_splits option.splits)
next
  case (OsClose c x y res d)
  then show ?case using close_connection_eq [of 0 "''close''" x y c] by auto
next
  case (OsDelete c ch ch')
  then show ?case by (auto simp: chan_close_def split: if_splits)
qed (simp_all add: request_end_def)

lemma client_step_heavier:
  assumes "client_step s t" "run_ok s" "sc_closing (sv_client s)"
  shows "run_ok t" "sc_closing (sv_client t)" "stop_weight t \<le> stop_weight s + 6"
proof -
  have "run_ok t \<and> sc_closing (sv_client t) \<and> stop_weight t \<le> stop_weight s + 6"
    using assms(1)
  proof (cases rule: client_step.cases)
    case CsRun
    then show ?thesis using run_step_ok run_step_heavier assms(2,3) by blast
  next
    case CsWorker
    then show ?thesis using worker_step_ok worker_step_heavier assms(2,3) by blast
  next
    case (CsOuter c)
    have "table_ok (sv_client s)" using assms(2) by (simp add: run_ok_def)
    note keeps = outer_keeps [OF CsOuter(3) this]
    show ?thesis
      using CsOuter(1) run_ok_client [OF assms(2)] keeps outer_step_sends [OF CsOuter(3)] assms(3)
      by (auto simp: stop_weight_def same_links_def)
  qed
  then show "run_ok t" "sc_closing (sv_client t)" "stop_weight t \<le> stop_weight s + 6" by simp_all
qed

abbreviation client_stop_run where
  "client_stop_run \<equiv> counted_run stop_step client_step"

interpretation client_closing: winding stop_step client_step "\<lambda>s. run_ok s \<and> sc_closing (sv_client s)" stop_weight 6
  by unfold_locales (use stop_step_keeps client_step_heavier in blast)+

text \<open>What a worker can be blocked on: a full channel with nobody who takes from it.\<close>

definition blocked :: "client_run \<Rightarrow> bool" where
  "blocked s \<longleftrightarrow> (\<exists>m. sv_sdp s = Holding m \<and> sdp_send m (sv_client s) = None) \<or>
     (\<exists>m r. sv_resp s = Holding (m, r) \<and> response_send r m (sv_client s) = None)"

lemma stuck_cases:
  assumes "run_ok s" "sc_closing (sv_client s)" "\<nexists>t. stop_step s t"
  shows "sv_crashed s \<or> blocked s \<or> sv_phase s = RunEnded \<and> \<not> running s"
proof (rule ccontr)
  assume "\<not> ?thesis"
  then have live: "\<not> sv_crashed s" "\<not> blocked s" "sv_phase s \<noteq> RunEnded \<or> running s" by auto
  have no: "\<not> worker_step False s t" "\<not> run_step False s t" for t
    using assms(3) live(1) SpRun SpWorker by blast+
  have "\<not> sv_send s"
    using no(1) WsSend [of s False OnSendCtx "Inr ()" "Stopped (Some CtxCanceled)" None "sv_client s"] assms(2)
    by (auto simp: send_msg_turn_def conn_done_def)
  moreover have "sv_sdp s = Ended"
  proof (cases "sv_sdp s")
    case Reading
    have "sdp_got (Inl CtxCanceled) d = Ok (Inl (worker_error ''signalingClient.receiveSDP'' CtxCanceled))" for d
      by (simp add: sdp_got_def)
    then show ?thesis using no(1) WsSdpEnd [OF Reading] by blast
  next
    case (Holding m)
    then obtain r where "sdp_send m (sv_client s) = Some r" using live(2) by (auto simp: blocked_def)
    moreover have "sdp_send m c \<noteq> Some (Err e)" for c e by (simp add: sdp_send_def)
    ultimately show ?thesis using no(1) WsSdpSend [OF Holding] WsSdpPanic [OF Holding] by (cases r) blast+
  qed (use no(1) WsSdpCheck WsSdpCall in blast)+
  moreover have "sv_resp s = Ended"
  proof (cases "sv_resp s")
    case Reading
    then show ?thesis using no(1) WsRespEnd [OF Reading, of CtxCanceled] by (auto simp: responses_got_def)
  next
    case (Holding h)
    obtain m c where h: "h = (m, c)" by (cases h)
    then obtain r where "response_send c m (sv_client s) = Some r" using live(2) Holding by (auto simp: blocked_def)
    moreover have "response_send c m d \<noteq> Some (Err e)" for d e by (simp add: response_send_def split: option.split)
    ultimately show ?thesis using no(1) WsRespSend [of s m c] WsRespPanic [of s m c] Holding h by (cases r) blast+
  qed (use no(1) WsRespCheck WsRespCall in blast)+
  ultimately have ended: "\<not> running s" "\<not> sv_send s" "sv_sdp s = Ended" "sv_resp s = Ended" by (simp_all add: running_def)
  show False
  proof (cases "sv_phase s")
    case ToServe
    have "\<exists>e c. serve_start (Inl CtxCanceled) env (sv_client s) = (Err e, c)" for env
      by (simp add: serve_start_def try_op_def)
    then show ?thesis using no(2) RsFail [OF ToServe] by blast
  next
    case Serving
    have "serve_select OnServeCtx (sc_closing (sv_client s)) (sv_errs s) = Some CtxCanceled"
      using assms(2) by (simp add: serve_select_def)
    then show ?thesis using no(2) RsSelect [OF Serving] by blast
  next
    case (Cancelled e)
    have "clear_pending_responses (sv_client s) = Ok (cleared (sv_client s))"
      using assms(1) table_ok_clear by (simp add: run_ok_def)
    then show ?thesis using no(2) RsClear [OF Cancelled] by blast
  next
    case (Cleared e)
    then show ?thesis using no(2) RsClose [OF Cleared] by blast
  next
    case (Draining e)
    then show ?thesis using no(2) RsReturn [OF Draining ended(2-4)] by blast
  next
    case Waiting
    then show ?thesis using no(2) RsWait [OF Waiting, of False] by blast
  next
    case RunEnded
    then show ?thesis using live(3) ended(1) by blast
  qed
qed

text \<open>
  Once the context is cancelled, \<open>Run\<close> and its workers stop: the steps towards the end are bounded by the
  others, and where none is left they have returned, unless one of them panicked or is blocked.
\<close>

lemma client_stops:
  assumes "client_reached s" "sc_closing (sv_client s)" "client_stop_run n k s t"
  shows "n \<le> stop_weight s + 6 * k \<and>
    ((\<nexists>u. stop_step t u) \<longrightarrow> sv_crashed t \<or> blocked t \<or> sv_phase t = RunEnded \<and> \<not> running t)"
proof -
  have "run_ok s \<and> sc_closing (sv_client s)" using client_reached_ok [OF assms(1)] assms(2) by simp
  from client_closing.bounded [OF assms(3) this] show ?thesis using stuck_cases [of t] by auto
qed

section \<open>Runs for the witnesses\<close>

definition sample_register :: register_env where
  "sample_register = \<lparr>re_open = Inr 0, re_encode = Inr (),
     re_decode = Inr \<lparr>rm_Code = 4, rm_MessageId = 1, rm_Payload = []\<rparr>, re_creds = Inr ([], [])\<rparr>"

definition served_client :: sig_client where
  "served_client = (new_signaling_client 5 5)\<lparr>sc_conn := Some 0, sc_ctrlStream := Some 0, sc_coder := Some 0\<rparr>"

definition serving_run :: client_run where
  "serving_run = \<lparr>sv_client = served_client, sv_phase = Serving, sv_cancelled = False, sv_errs = [], sv_send = True,
     sv_sdp = AtCheck, sv_resp = AtCheck, sv_conns = 1, sv_crashed = False\<rparr>"

lemma runs_on: "client_reached s \<Longrightarrow> \<not> sv_crashed s \<Longrightarrow> run_step True s t \<Longrightarrow> client_reached t"
  "client_reached s \<Longrightarrow> \<not> sv_crashed s \<Longrightarrow> worker_step True s u \<Longrightarrow> client_reached u"
  "client_reached s \<Longrightarrow> \<not> sv_crashed s \<Longrightarrow> outer_step (sv_client s) c \<Longrightarrow> client_reached (s\<lparr>sv_client := c\<rparr>)"
  using CrStep CsRun CsWorker CsOuter by blast+

lemma serving_step: "client_step (start_client (new_signaling_client 5 5)) serving_run"
proof -
  let ?s = "start_client (new_signaling_client 5 5)"
  have "serve_start (Inr 0) sample_register (sv_client ?s) = (Ok (), served_client)"
    by (simp add: serve_start_def register_connect_def try_op_def to_creds_message_def sample_register_def
        start_client_def served_client_def new_signaling_client_def)
  then have "run_step True ?s (?s\<lparr>sv_client := served_client, sv_phase := Serving,
      sv_cancelled := False, sv_errs := [], sv_send := True, sv_sdp := AtCheck, sv_resp := AtCheck,
      sv_conns := Suc (sv_conns ?s)\<rparr>)"
    by (intro RsServe) (simp_all add: start_client_def)
  then have "run_step True ?s serving_run" by (simp add: start_client_def serving_run_def)
  then show ?thesis by (rule CsRun [rotated]) (simp add: start_client_def)
qed

lemma serving_reached: "client_reached serving_run"
  by (rule CrStep [OF CrStart serving_step])

text \<open>A request queues its message and the connection fails: \<open>receiveResponses\<close> reports the error.\<close>

definition lost_run :: client_run where
  "lost_run = serving_run\<lparr>sv_client := served_client\<lparr>sc_sendMsgs := (make_chan 5)\<lparr>ch_buf := [rq_msg sample_request]\<rparr>\<rparr>\<rparr>"

lemma lost_reached: "client_reached lost_run"
proof -
  have "check_resp_send sample_request OnSend False (sv_client serving_run) = Some (Ok (), sv_client lost_run)"
    by (simp add: check_resp_send_def serving_run_def lost_run_def served_client_def new_signaling_client_def make_chan_def)
  from runs_on(3) [OF serving_reached _ OsQueue [OF this]] show ?thesis by (simp add: serving_run_def lost_run_def)
qed

lemma draining_reached:
  obtains s e where "client_reached s" "\<not> sv_crashed s" "sv_phase s = Draining e" "\<not> sc_closing (sv_client s)"
    "sv_send s" "ch_buf (sc_sendMsgs (sv_client s)) \<noteq> []"
proof -
  let ?e = "LibError ''quic'' []" and ?c = "sv_client lost_run"
  let ?w = "worker_error ''signalingClient.receiveResponses'' ?e"
  let ?s1 = "lost_run\<lparr>sv_resp := AtCall\<rparr>"
  have 1: "client_reached ?s1"
    using runs_on(2) [OF lost_reached _ WsRespCheck]
    by (simp add: lost_run_def serving_run_def served_client_def ctx_check_def conn_done_def new_signaling_client_def)
  have 2: "client_reached (?s1\<lparr>sv_resp := Reading\<rparr>)"
    using runs_on(2) [OF 1 _ WsRespCall] by (simp add: lost_run_def serving_run_def served_client_def)
  have "responses_got (Inl ?e) ?c = (?w, None)" by (simp add: responses_got_def)
  from runs_on(2) [OF 2 _ WsRespEnd] this
  have 3: "client_reached (resp_ends ?w (?s1\<lparr>sv_resp := Reading\<rparr>))" (is "client_reached ?s3")
    by (simp add: lost_run_def serving_run_def)
  have "\<exists>e. serve_select OnErr (sc_closing (sv_client ?s3)) (sv_errs ?s3) = Some e"
    by (simp add: serve_select_def resp_ends_def worker_report_def worker_error_def check_err_def lost_run_def serving_run_def)
  then obtain e where "serve_select OnErr (sc_closing (sv_client ?s3)) (sv_errs ?s3) = Some e" by blast
  from runs_on(1) [OF 3 _ RsSelect [OF _ this]]
  have 4: "client_reached (?s3\<lparr>sv_phase := Cancelled e, sv_cancelled := True\<rparr>)" (is "client_reached ?s4")
    by (simp add: lost_run_def serving_run_def resp_ends_def)
  have "clear_pending_responses (sv_client ?s4) = Ok ?c"
    by (simp add: resp_ends_def clear_pending_responses_def lost_run_def serving_run_def served_client_def new_signaling_client_def)
  from runs_on(1) [OF 4 _ RsClear [OF _ this]]
  have 5: "client_reached (?s4\<lparr>sv_phase := Cleared e, sv_client := ?c\<rparr>)" (is "client_reached ?s5")
    by (simp add: lost_run_def serving_run_def resp_ends_def)
  let ?d = "serve_close (sc_closing ?c) (Inr ()) (Inr ()) e ?c"
  from runs_on(1) [OF 5 _ RsClose [of _ e True "Inr ()" "Inr ()"]]
  have "client_reached (?s5\<lparr>sv_phase := Draining e, sv_client := ?d\<rparr>)"
    by (simp add: lost_run_def serving_run_def resp_ends_def)
  then show thesis
    by (rule that) (simp_all add: serve_close_cases resp_ends_def lost_run_def serving_run_def served_client_def new_signaling_client_def)
qed

theorem client_lifecycle_witness:
  "client_reached serving_run \<and> sv_phase serving_run = Serving \<and> sc_conn (sv_client serving_run) \<noteq> None \<and>
   sc_coder (sv_client serving_run) \<noteq> None \<and> sc_isOnline (sv_client serving_run)"
  using client_lifecycle [OF serving_reached] serving_reached by (simp add: serving_run_def)

theorem send_after_loss_panics_witness:
  "\<exists>s e. client_reached s \<and> sv_phase s = Draining e \<and> client_step s (s\<lparr>sv_crashed := True\<rparr>)"
proof -
  obtain s e where s: "client_reached s" "\<not> sv_crashed s" "sv_phase s = Draining e" "\<not> sc_closing (sv_client s)"
    "sv_send s" "ch_buf (sc_sendMsgs (sv_client s)) \<noteq> []"
    by (rule draining_reached)
  show ?thesis using send_after_loss_panics [OF s] s by blast
qed

text \<open>A worker holds an SDP message when \<open>Delete\<close> cancels the context and closes the channels.\<close>

definition holding_run :: client_run where
  "holding_run = serving_run\<lparr>sv_sdp := Holding \<lparr>Sender = 2, Payload = [0, 97]\<rparr>\<rparr>"

lemma holding_steps:
  "client_step serving_run (serving_run\<lparr>sv_sdp := AtCall\<rparr>)"
  "client_step (serving_run\<lparr>sv_sdp := AtCall\<rparr>) (serving_run\<lparr>sv_sdp := Reading\<rparr>)"
  "client_step (serving_run\<lparr>sv_sdp := Reading\<rparr>) holding_run"
proof -
  have alive: "\<not> sv_crashed serving_run" by (simp add: serving_run_def)
  have "worker_step True serving_run (serving_run\<lparr>sv_sdp := AtCall\<rparr>)"
    using WsSdpCheck [of serving_run True]
    by (simp add: serving_run_def served_client_def ctx_check_def conn_done_def new_signaling_client_def)
  then show "client_step serving_run (serving_run\<lparr>sv_sdp := AtCall\<rparr>)" by (rule CsWorker [OF alive])
  have "worker_step True (serving_run\<lparr>sv_sdp := AtCall\<rparr>) (serving_run\<lparr>sv_sdp := Reading\<rparr>)"
    using WsSdpCall [of "serving_run\<lparr>sv_sdp := AtCall\<rparr>" True] by (simp add: serving_run_def served_client_def)
  then show "client_step (serving_run\<lparr>sv_sdp := AtCall\<rparr>) (serving_run\<lparr>sv_sdp := Reading\<rparr>)"
    using alive by (intro CsWorker) simp_all
  have "sdp_got (Inr ()) (Inr m) = Ok (Inr m)" for m by (simp add: sdp_got_def to_reply_message_def)
  from WsSdpRead [of True "serving_run\<lparr>sv_sdp := Reading\<rparr>", OF _ _ this]
  have "worker_step True (serving_run\<lparr>sv_sdp := Reading\<rparr>) holding_run" by (simp add: holding_run_def)
  then show "client_step (serving_run\<lparr>sv_sdp := Reading\<rparr>) holding_run" using alive by (intro CsWorker) simp_all
qed

lemma holding_reached: "client_reached holding_run"
  by (rule CrStep [OF CrStep [OF CrStep [OF serving_reached holding_steps(1)] holding_steps(2)] holding_steps(3)])

definition cancelled_run :: client_run where
  "cancelled_run = holding_run\<lparr>sv_client := served_client\<lparr>sc_closing := True\<rparr>\<rparr>"

lemma cancelled_reached: "client_reached cancelled_run"
  using runs_on(3) [OF holding_reached _ OsCancel] by (simp add: holding_run_def serving_run_def cancelled_run_def)

theorem serving_never_panics_witness:
  "\<exists>s t. client_reached s \<and> sv_phase s = Serving \<and> worker_step True s t \<and> sv_crashed t \<and>
     ch_closed (sc_receiveSDPs (sv_client s))"
proof -
  let ?ch = "(make_chan 5)\<lparr>ch_closed := True\<rparr>"
  let ?s = "cancelled_run\<lparr>sv_client := (sv_client cancelled_run)\<lparr>sc_sendMsgs := ?ch, sc_receiveSDPs := ?ch\<rparr>\<rparr>"
  have "outer_step (sv_client cancelled_run) ((sv_client cancelled_run)\<lparr>sc_sendMsgs := ?ch, sc_receiveSDPs := ?ch\<rparr>)"
    by (rule OsDelete) (simp_all add: cancelled_run_def served_client_def new_signaling_client_def chan_close_def make_chan_def)
  from runs_on(3) [OF cancelled_reached _ this] have s: "client_reached ?s"
    by (simp add: cancelled_run_def holding_run_def serving_run_def)
  have "worker_step True ?s (?s\<lparr>sv_crashed := True\<rparr>)"
    by (rule WsSdpPanic) (auto simp: cancelled_run_def holding_run_def sdp_send_def)
  moreover have ph: "\<not> sv_crashed ?s" "sv_phase ?s = Serving" "sv_crashed (?s\<lparr>sv_crashed := True\<rparr>)"
    by (simp_all add: cancelled_run_def holding_run_def serving_run_def)
  ultimately show ?thesis using serving_never_panics [OF s ph(1,2) _ ph(3)] s ph(2,3) by blast
qed

end
