(* ===== verification/App_Run.thy ===== *)
theory App_Run
  imports Root_Api Net_Closing Signaling_Run
begin

text \<open>
  The whole process: the networking service, the signaling client and the goroutine
  \<open>receiveConnects\<close> between them, which takes the SDP messages the client received and starts a
  goroutine for each. A step is one atomic part of any of them, in any order.
\<close>

section \<open>receiveConnects\<close>

text \<open>
  One turn of the loop \<open>for sdp := range ns.receiveSDPs\<close>: \<open>None\<close> while it waits, otherwise the message a
  goroutine is started for, or the loop's return. Whether the service closes is asked only when a message
  came, which is then dropped.
\<close>

datatype connects_turn = ConnectsHandle reply_message | ConnectsReturn "go_error option"

definition receive_connects_turn ::
    "bool \<Rightarrow> reply_message chan \<Rightarrow> (connects_turn \<times> reply_message chan) option" where
  "receive_connects_turn closing ch =
     (case chan_recv ch of
        None \<Rightarrow> None
      | Some (None, c) \<Rightarrow> Some (ConnectsReturn None, c)
      | Some (Some sdp, c) \<Rightarrow>
          Some (if closing then ConnectsReturn (Some (app_closing ''networkingServ.receiveConnect''))
                else ConnectsHandle sdp, c))"

text \<open>The goroutine of \<open>NewNetworkingServ\<close> around it: an error cancels the service's context.\<close>

definition connects_returned :: "go_error option \<Rightarrow> 'c net \<Rightarrow> 'c net" where
  "connects_returned err s = (case err of Some e \<Rightarrow> s\<lparr>ns_closing := True\<rparr> | None \<Rightarrow> s)"

section \<open>The process\<close>

text \<open>
  \<open>pr_receiving\<close>: \<open>receiveConnects\<close> runs. \<open>pr_sdps\<close>: the messages whose goroutine has not finished. The
  last four fields are history: the messages the client received, those a goroutine was
  started for, those whose goroutine finished, and those the loop dropped.
\<close>

record 'c process =
  pr_net :: "'c net"
  pr_client :: client_run
  pr_receiving :: bool
  pr_sdps :: "reply_message list"
  pr_received :: "reply_message list"
  pr_started :: "reply_message list"
  pr_finished :: "reply_message list"
  pr_dropped :: "reply_message list"

abbreviation pr_sig :: "'c process \<Rightarrow> sig_client" where "pr_sig p \<equiv> sv_client (pr_client p)"

definition pr_app :: "'c process \<Rightarrow> 'c app" where
  "pr_app p = \<lparr>ap_net = pr_net p, ap_sig = pr_sig p\<rparr>"

definition with_client :: "sig_client \<Rightarrow> 'c process \<Rightarrow> 'c process" where
  "with_client c p = p\<lparr>pr_client := (pr_client p)\<lparr>sv_client := c\<rparr>\<rparr>"

definition with_channel :: "reply_message chan \<Rightarrow> 'c process \<Rightarrow> 'c process" where
  "with_channel ch p = with_client ((pr_sig p)\<lparr>sc_receiveSDPs := ch\<rparr>) p"

lemmas with_defs = with_client_def with_channel_def

definition start_process :: "'c app \<Rightarrow> 'c process" where
  "start_process a = \<lparr>pr_net = ap_net a, pr_client = start_client (ap_sig a), pr_receiving = True, pr_sdps = [],
     pr_received = [], pr_started = [], pr_finished = [], pr_dropped = []\<rparr>"

text \<open>
  A step of the client on its own moves no SDP message between it and \<open>receiveConnects\<close>. \<open>AsStop\<close> is
  \<open>Delete\<close> in one go; its parts are among the steps of the service and of the client. A panic ends the process.
\<close>

inductive app_step :: "crypto \<Rightarrow> 'c process \<Rightarrow> 'c process \<Rightarrow> bool" for cr where
  AsNet: "net_step cr (pr_net p) n \<Longrightarrow> app_step cr p (p\<lparr>pr_net := n\<rparr>)"
| AsClient: "client_step (pr_client p) k \<Longrightarrow>
    ch_buf (sc_receiveSDPs (sv_client k)) = ch_buf (sc_receiveSDPs (pr_sig p)) \<Longrightarrow>
    app_step cr p (p\<lparr>pr_client := k\<rparr>)"
| AsReceive: "sv_sdp (pr_client p) = Holding m \<Longrightarrow> sdp_send m (pr_sig p) = Some (Ok c) \<Longrightarrow>
    app_step cr p (p\<lparr>pr_client := (pr_client p)\<lparr>sv_client := c, sv_sdp := AtCheck\<rparr>, pr_received := pr_received p @ [m]\<rparr>)"
| AsConnect: "pr_receiving p \<Longrightarrow>
    receive_connects_turn (ns_closing (pr_net p)) (sc_receiveSDPs (pr_sig p)) = Some (ConnectsHandle m, ch) \<Longrightarrow>
    app_step cr p ((with_channel ch p)\<lparr>pr_sdps := pr_sdps p @ [m], pr_started := pr_started p @ [m]\<rparr>)"
| AsConnectEnd: "pr_receiving p \<Longrightarrow>
    receive_connects_turn (ns_closing (pr_net p)) (sc_receiveSDPs (pr_sig p)) = Some (ConnectsReturn e, ch) \<Longrightarrow>
    app_step cr p ((with_channel ch p)\<lparr>pr_net := connects_returned e (pr_net p), pr_receiving := False,
      pr_dropped := pr_dropped p @ take 1 (ch_buf (sc_receiveSDPs (pr_sig p)))\<rparr>)"
| AsHandle: "m \<in> set (pr_sdps p) \<Longrightarrow> handle_sdp env (Sender m) (Payload m) (pr_net p) = Ok n \<Longrightarrow>
    app_step cr p (p\<lparr>pr_net := n, pr_sdps := remove1 m (pr_sdps p), pr_finished := pr_finished p @ [m]\<rparr>)"
| AsStop: "permutes order \<Longrightarrow> app_stop order x y (pr_app p) = Ok a \<Longrightarrow>
    app_step cr p ((with_client (ap_sig a) p)\<lparr>pr_net := ap_net a\<rparr>)"

inductive app_run :: "crypto \<Rightarrow> 'c process \<Rightarrow> bool" for cr where
  Start: "app_init env i cfg = Ok a \<Longrightarrow> app_run cr (start_process a)"
| Step: "app_run cr p \<Longrightarrow> \<not> sv_crashed (pr_client p) \<Longrightarrow> app_step cr p q \<Longrightarrow> app_run cr q"

section \<open>The service in the process\<close>

lemma disconnect_all_reachable:
  "disconnect_all rs s = Ok t \<Longrightarrow> reachable cr s \<Longrightarrow> reachable cr t"
proof (induction rs arbitrary: s)
  case (Cons r rs)
  then obtain u where u: "disconnect_session r True s = Ok u" "disconnect_all rs u = Ok t"
    by (auto simp: go_bind_Ok_iff)
  then show ?case using Cons.IH steps_reachable [OF disconnect_run_steps [OF u(1)] Cons.prems(2)] by blast
qed simp

lemma disconnect_reachable:
  assumes "disconnect order s = (res, t)" "reachable cr s"
  shows "reachable cr t"
  using assms disconnect_all_reachable
  by (cases "repo_fetch False (ns_repo s)")
    (auto simp: disconnect_def try_op_def split: if_splits outcome.splits)

lemma app_stop_net:
  assumes "app_stop order x y a = Ok b" "reachable cr (ap_net a)"
  shows "reachable cr (ap_net b)"
    "ch_buf (sc_receiveSDPs (ap_sig b)) = ch_buf (sc_receiveSDPs (ap_sig a))"
proof -
  let ?n = "(ap_net a)\<lparr>ns_closing := True\<rparr>" and ?c = "(ap_sig a)\<lparr>sc_closing := True\<rparr>"
  obtain res n where d: "disconnect order ?n = (res, n)" by (cases "disconnect order ?n")
  obtain res' c where k: "close_connection 0 ''close'' x y ?c = (res', c)" by (cases "close_connection 0 ''close'' x y ?c")
  have r: "reachable cr ?n" by (rule reachable.Step [OF assms(2) net_step.Close])
  have b: "ap_net b = n" "ch_buf (sc_receiveSDPs (ap_sig b)) = ch_buf (sc_receiveSDPs c)"
    using assms(1) d k
    by (cases res; cases res'; auto simp: app_stop_def cancel_ctx_def Let_def go_bind_Ok_iff chan_close_def split: if_splits)+
  show "reachable cr (ap_net b)" using disconnect_reachable [OF d r] b(1) by simp
  show "ch_buf (sc_receiveSDPs (ap_sig b)) = ch_buf (sc_receiveSDPs (ap_sig a))"
    using close_connection_keeps [of 0 "''close''" x y ?c] k b(2) by simp
qed

lemma app_run_reachable: "app_run cr p \<Longrightarrow> reachable cr (pr_net p)"
proof (induction rule: app_run.induct)
  case (Start env i cfg a)
  then show ?case by (auto simp: app_init_cases start_process_def intro: reachable.Init split: if_splits)
next
  case (Step p q)
  from Step.hyps(3) Step.IH show ?case
  proof (cases rule: app_step.cases)
    case (AsNet n)
    then show ?thesis using Step.IH by (auto intro: reachable.Step)
  next
    case (AsConnectEnd e ch)
    then show ?thesis
      using Step.IH by (auto simp: connects_returned_def with_defs intro: reachable.Step net_step.Close split: option.split)
  next
    case (AsHandle m env n)
    then show ?thesis using Step.IH by (auto intro: reachable.Step net_step.Sdp)
  next
    case (AsStop order x y a)
    then show ?thesis using Step.IH app_stop_net(1) [OF AsStop(3)] by (simp add: pr_app_def with_defs)
  qed (simp_all add: with_defs)
qed

text \<open>The client in the process: \<open>Delete\<close> is three of the steps outside it.\<close>

lemma app_stop_client:
  assumes "app_stop order x y (pr_app p) = Ok a" "client_reached (pr_client p)" "\<not> sv_crashed (pr_client p)"
  shows "client_reached ((pr_client p)\<lparr>sv_client := ap_sig a\<rparr>)" "sc_closing (ap_sig a)"
proof -
  let ?n = "(pr_net p)\<lparr>ns_closing := True\<rparr>" and ?c = "(pr_sig p)\<lparr>sc_closing := True\<rparr>"
  obtain res n where d: "disconnect order ?n = (res, n)" by (cases "disconnect order ?n")
  obtain r c where k: "close_connection 0 ''close'' x y ?c = (r, c)" by (cases "close_connection 0 ''close'' x y ?c")
  obtain s1 s2 where ch: "chan_close (sc_sendMsgs c) = Ok s1" "chan_close (sc_receiveSDPs c) = Ok s2"
    and a: "ap_sig a = c\<lparr>sc_sendMsgs := s1, sc_receiveSDPs := s2\<rparr>"
    using assms(1) d k
    by (cases res; cases r) (auto simp: app_stop_def cancel_ctx_def pr_app_def Let_def go_bind_Ok_iff)
  obtain qs where c: "c = ?c\<lparr>sc_lib := qs\<rparr>" using k close_connection_eq [of 0 "''close''" x y ?c] by auto
  have 1: "client_reached ((pr_client p)\<lparr>sv_client := ?c\<rparr>)" by (rule runs_on(3) [OF assms(2,3) OsCancel])
  have 2: "client_reached ((pr_client p)\<lparr>sv_client := c\<rparr>)"
    using runs_on(3) [OF 1 _ OsClose [of _ x y r c]] assms(3) k by simp
  show "client_reached ((pr_client p)\<lparr>sv_client := ap_sig a\<rparr>)"
    using runs_on(3) [OF 2 _ OsDelete [of _ s1 s2]] assms(3) ch a c by simp
  show "sc_closing (ap_sig a)" by (simp add: a c)
qed

lemma app_run_client: "app_run cr p \<Longrightarrow> client_reached (pr_client p)"
proof (induction rule: app_run.induct)
  case (Start env i cfg a)
  then show ?case by (auto simp: app_init_cases start_process_def intro: CrStart split: if_splits)
next
  case (Step p q)
  note on = runs_on [OF Step.IH Step.hyps(2)]
  from Step.hyps(3) Step.IH show ?case
  proof (cases rule: app_step.cases)
    case (AsClient k)
    then show ?thesis using CrStep [OF Step.IH] by simp
  next
    case (AsReceive m c)
    then show ?thesis using on(2) [OF WsSdpSend] by simp
  next
    case (AsConnect m ch)
    then show ?thesis
      using on(3) [OF OsReceive] by (auto simp: with_defs receive_connects_turn_def split: option.splits if_splits)
  next
    case (AsConnectEnd e ch)
    then show ?thesis
      using on(3) [OF OsReceive] by (auto simp: with_defs receive_connects_turn_def split: option.splits if_splits)
  next
    case (AsStop order x y a)
    then show ?thesis using app_stop_client(1) [OF AsStop(3) Step.IH Step.hyps(2)] by (simp add: with_defs)
  qed simp_all
qed

section \<open>SDP messages between client and service\<close>

definition sdps_ok :: "'c process \<Rightarrow> bool" where
  "sdps_ok p \<longleftrightarrow>
     pr_received p = pr_started p @ pr_dropped p @ ch_buf (sc_receiveSDPs (pr_sig p)) \<and>
     mset (pr_started p) = mset (pr_finished p) + mset (pr_sdps p) \<and>
     length (pr_dropped p) \<le> 1 \<and>
     (pr_receiving p \<longrightarrow> pr_dropped p = [])"

lemma sdp_send_queues:
  "sdp_send m s = Some (Ok t) \<Longrightarrow> ch_buf (sc_receiveSDPs t) = ch_buf (sc_receiveSDPs s) @ [m]"
  by (auto simp: sdp_send_def split: if_splits)

lemma connects_turn_takes:
  "receive_connects_turn closing ch = Some (ConnectsHandle m, c) \<Longrightarrow> ch_buf ch = m # ch_buf c"
  "receive_connects_turn closing ch = Some (ConnectsReturn e, c) \<Longrightarrow>
     ch_buf ch = take 1 (ch_buf ch) @ ch_buf c"
  by (auto simp: receive_connects_turn_def chan_recv_def split: list.splits if_splits option.splits)

lemma app_run_sdps: "app_run cr p \<Longrightarrow> sdps_ok p"
proof (induction rule: app_run.induct)
  case (Start env i cfg a)
  then show ?case
    by (auto simp: app_init_cases start_process_def start_client_def sdps_ok_def new_signaling_client_def split: if_splits)
next
  case (Step p q)
  from Step.hyps(3) Step.IH show ?case
  proof (cases rule: app_step.cases)
    case (AsConnectEnd e ch)
    have "ch_buf (sc_receiveSDPs (pr_sig p)) = take 1 (ch_buf (sc_receiveSDPs (pr_sig p))) @ ch_buf ch"
      by (rule connects_turn_takes(2) [OF AsConnectEnd(3)])
    then show ?thesis using Step.IH AsConnectEnd(1,2) by (simp add: sdps_ok_def with_defs)
  next
    case (AsStop order x y a)
    then show ?thesis
      using Step.IH app_stop_net(2) [of order x y "pr_app p"] app_run_reachable [OF Step.hyps(1)]
      by (simp add: sdps_ok_def with_defs pr_app_def)
  qed (auto simp: sdps_ok_def with_defs dest!: sdp_send_queues connects_turn_takes(1))
qed

text \<open>
  C18: in every run of the process the messages the signaling client received are, in their order, the
  ones \<open>receiveConnects\<close> started a goroutine for, at most one it dropped when the service closed, and
  the ones still in the channel; each started one is handled exactly once, and handling it cannot
  panic.
\<close>

theorem sdp_messages_handled_once:
  assumes "app_run cr p"
  shows "pr_received p = pr_started p @ pr_dropped p @ ch_buf (sc_receiveSDPs (pr_sig p)) \<and>
    mset (pr_started p) = mset (pr_finished p) + mset (pr_sdps p) \<and> length (pr_dropped p) \<le> 1 \<and>
    (pr_receiving p \<longrightarrow> pr_dropped p = []) \<and>
    (\<forall>env m. \<exists>n. handle_sdp env (Sender m) (Payload m) (pr_net p) = Ok n)"
proof -
  have "net_ok (pr_net p)" using reachable_inv [OF app_run_reachable [OF assms]] by simp
  from handle_sdp_ok [OF this] have "\<exists>n. handle_sdp env (Sender m) (Payload m) (pr_net p) = Ok n" for env m
    by blast
  then show ?thesis using app_run_sdps [OF assms] unfolding sdps_ok_def by blast
qed

definition sample_config :: config where
  "sample_config =
     \<lparr>cfg_App = \<lparr>app_Name = ''aloh'', app_Version = ''1'', app_Env = ''prod'', app_ReceiveSDPSize = 5,
                 app_SendSDPSize = 5, app_LogPath = []\<rparr>,
      cfg_Signaling = \<lparr>sg_Address = ''server'', sg_Port = ''4242'', sg_MaxIdleTimeout = 1, sg_HandshakeTimeout = 1,
                 sg_KeepAlivePeriodTimeout = 1, sg_CloseTimeout = 1, sg_StartTimeout = 1, sg_NextProtos = [],
                 sg_MaxIncomingStreams = 1, sg_MaxIncomingUniStreams = 1, sg_RegTimeout = 1\<rparr>,
      cfg_Networking = sample_cfg,
      cfg_Handler = \<lparr>hd_SendVideoTimeout = 1, hd_SendChatTimeout = 1, hd_SendVoiceTimeout = 1,
                 hd_ConnectTimeout = 1, hd_DisonnectTimeout = 1, hd_FetchOnlineTimeout = 1\<rparr>\<rparr>"

definition sample_cert :: cert_env where
  "sample_cert = \<lparr>ce_GenerateKey = Inr [1], ce_CreateCertificate = (\<lambda>key. Inr (48 # key)),
     ce_X509KeyPair = (\<lambda>der key. Inr der)\<rparr>"

definition started_app :: "sample_call app" where
  "started_app = \<lparr>ap_net = new_networking_serv 1 sample_cfg new_session_repository, ap_sig = new_signaling_client 5 5\<rparr>"

definition sample_sdp_msg :: reply_message where
  "sample_sdp_msg = \<lparr>Sender = 2, Payload = [0, 97]\<rparr>"

lemma started_app_init:
  "app_init \<lparr>ie_executable = Inr [], ie_beside = Inr (), ie_here = Inr (), ie_log = Inr (), ie_cert = sample_cert\<rparr> 1 sample_config = Ok started_app"
  by (simp add: app_init_cases sample_config_def started_app_def generate_tls_config_def sample_cert_def)

lemma started_app_run: "app_run sample_crypto (start_process started_app)"
  by (rule app_run.Start [OF started_app_init])

text \<open>A process that received one message and started its goroutine.\<close>

lemma client_runs_on:
  assumes "app_run cr p" "\<not> sv_crashed (pr_client p)" "client_step (pr_client p) k"
    "ch_buf (sc_receiveSDPs (sv_client k)) = ch_buf (sc_receiveSDPs (pr_sig p))"
  shows "app_run cr (p\<lparr>pr_client := k\<rparr>)"
  using assms by (blast intro: app_run.Step AsClient)

definition holding_process :: "sample_call process" where
  "holding_process = (start_process started_app)\<lparr>pr_client := holding_run\<rparr>"

lemmas sample_process_defs = start_process_def started_app_def start_client_def serving_run_def served_client_def
  new_signaling_client_def

lemma holding_process_run: "app_run sample_crypto holding_process"
proof -
  let ?p = "start_process started_app"
  have c: "pr_client ?p = start_client (new_signaling_client 5 5)" by (simp add: start_process_def started_app_def)
  have "app_run sample_crypto (?p\<lparr>pr_client := serving_run\<rparr>)"
    by (rule client_runs_on [OF started_app_run], unfold c, simp add: start_client_def, rule serving_step)
      (simp add: sample_process_defs)
  then have "app_run sample_crypto (?p\<lparr>pr_client := serving_run\<lparr>sv_sdp := AtCall\<rparr>\<rparr>)"
    using client_runs_on [of _ "?p\<lparr>pr_client := serving_run\<rparr>", OF _ _ _] holding_steps(1)
    by (simp add: serving_run_def)
  then have "app_run sample_crypto (?p\<lparr>pr_client := serving_run\<lparr>sv_sdp := Reading\<rparr>\<rparr>)"
    using client_runs_on [of _ "?p\<lparr>pr_client := serving_run\<lparr>sv_sdp := AtCall\<rparr>\<rparr>"] holding_steps(2)
    by (simp add: serving_run_def)
  then show ?thesis
    using client_runs_on [of _ "?p\<lparr>pr_client := serving_run\<lparr>sv_sdp := Reading\<rparr>\<rparr>"] holding_steps(3)
    by (simp add: serving_run_def holding_run_def holding_process_def)
qed

lemma sample_run:
  "\<exists>p :: sample_call process. app_run sample_crypto p \<and> pr_received p = [sample_sdp_msg] \<and>
     pr_sdps p = [sample_sdp_msg] \<and> pr_receiving p"
proof -
  let ?h = holding_process
  note eqs = sample_process_defs holding_run_def holding_process_def
  let ?ch = "(make_chan 5)\<lparr>ch_buf := [sample_sdp_msg]\<rparr>"
  have "sdp_send sample_sdp_msg (pr_sig ?h) = Some (Ok ((pr_sig ?h)\<lparr>sc_receiveSDPs := ?ch\<rparr>))"
    by (simp add: sdp_send_def eqs make_chan_def)
  from app_run.Step [OF holding_process_run _ AsReceive [OF _ this]]
  have q: "app_run sample_crypto (?h\<lparr>pr_client := holding_run\<lparr>sv_client := (pr_sig ?h)\<lparr>sc_receiveSDPs := ?ch\<rparr>,
      sv_sdp := AtCheck\<rparr>, pr_received := [sample_sdp_msg]\<rparr>)" (is "app_run _ ?q")
    by (simp add: eqs sample_sdp_msg_def)
  have "receive_connects_turn (ns_closing (pr_net ?q)) (sc_receiveSDPs (pr_sig ?q)) =
      Some (ConnectsHandle sample_sdp_msg, make_chan 5)"
    by (simp add: receive_connects_turn_def holding_process_def start_process_def started_app_def
        new_networking_serv_def chan_recv_def make_chan_def)
  from app_run.Step [OF q _ AsConnect [OF _ this]]
  have "app_run sample_crypto ((with_channel (make_chan 5) ?q)
      \<lparr>pr_sdps := pr_sdps ?q @ [sample_sdp_msg], pr_started := pr_started ?q @ [sample_sdp_msg]\<rparr>)"
    by (simp add: eqs)
  then show ?thesis by (intro exI conjI, assumption) (simp_all add: with_defs holding_process_def start_process_def)
qed

theorem sdp_messages_handled_once_witness:
  "\<exists>p :: sample_call process. pr_received p = [sample_sdp_msg] \<and>
     pr_received p = pr_started p @ pr_dropped p @ ch_buf (sc_receiveSDPs (pr_sig p)) \<and>
     mset (pr_started p) = mset (pr_finished p) + mset (pr_sdps p)"
proof -
  obtain p :: "sample_call process" where p: "app_run sample_crypto p" "pr_received p = [sample_sdp_msg]"
    using sample_run by blast
  show ?thesis using sdp_messages_handled_once [OF p(1)] p(2) by blast
qed

section \<open>Deleting\<close>

text \<open>What \<open>Delete\<close> leaves: the service and the client from which the goroutines go on.\<close>

definition client_after :: "'c app \<Rightarrow> 'c process \<Rightarrow> client_run" where
  "client_after b p = (pr_client p)\<lparr>sv_client := ap_sig b\<rparr>"

lemma app_stop_runs:
  assumes "app_run cr p" "\<not> sv_crashed (pr_client p)" "permutes order"
    "\<not> ch_closed (sc_sendMsgs (pr_sig p))" "\<not> ch_closed (sc_receiveSDPs (pr_sig p))"
  obtains b where "app_stop order x y (pr_app p) = Ok b" "reachable cr (ap_net b)" "ns_closing (ap_net b)"
    "repo_lookup (ns_repo (ap_net b)) = Map.empty" "ch_closed (sc_receiveSDPs (ap_sig b))"
    "client_reached (client_after b p)" "sc_closing (sv_client (client_after b p))"
proof -
  have r: "reachable cr (ap_net (pr_app p))" using app_run_reachable [OF assms(1)] by (simp add: pr_app_def)
  have sig: "ap_sig (pr_app p) = pr_sig p" by (simp add: pr_app_def)
  obtain n c where n: "repo_lookup (ns_repo n) = Map.empty" "ns_closing n"
    and st: "app_stop order x y (pr_app p) =
      go_bind (chan_close (sc_sendMsgs (pr_sig p))) (\<lambda>send.
      go_bind (chan_close (sc_receiveSDPs (pr_sig p))) (\<lambda>receive.
        Ok ((pr_app p)\<lparr>ap_net := n, ap_sig := c\<lparr>sc_sendMsgs := send, sc_receiveSDPs := receive\<rparr>\<rparr>)))"
    using app_stop_eq [OF r assms(3), of x y, unfolded sig] by (elim exE conjE) (rule that, assumption+)
  obtain b where b: "app_stop order x y (pr_app p) = Ok b" "ap_net b = n" "ch_closed (sc_receiveSDPs (ap_sig b))"
    using st assms(4,5) by (auto simp: chan_close_def)
  have "client_reached (client_after b p)" "sc_closing (sv_client (client_after b p))"
    using app_stop_client [OF b(1) app_run_client [OF assms(1)] assms(2)] by (simp_all add: client_after_def)
  then show thesis using that b n app_stop_net(1) [OF b(1) r] by simp
qed




text \<open>
  C23: but \<open>Delete\<close> closes the channel of SDP messages without waiting for the client's worker: one that holds a
  message it has read then sends it on the closed channel, and the process panics.
\<close>

theorem sdp_after_delete_panics:
  assumes "app_run cr p" "\<not> sv_crashed (pr_client p)" "permutes order"
    and "\<not> ch_closed (sc_sendMsgs (pr_sig p))" "\<not> ch_closed (sc_receiveSDPs (pr_sig p))"
    and "sv_sdp (pr_client p) = Holding m"
  shows "\<exists>b. delete_networking True order x y (pr_app p) = Ok b \<and> sdp_send m (ap_sig b) = Some Panic \<and>
    client_step (client_after b p) ((client_after b p)\<lparr>sv_crashed := True\<rparr>)"
proof -
  obtain b where b: "app_stop order x y (pr_app p) = Ok b" "ch_closed (sc_receiveSDPs (ap_sig b))"
    using app_stop_runs [OF assms(1-5)] by blast
  then have panic: "sdp_send m (ap_sig b) = Some Panic" by (simp add: sdp_send_def)
  have "client_step (client_after b p) ((client_after b p)\<lparr>sv_crashed := True\<rparr>)"
    by (rule CsWorker, use assms(2) in \<open>simp add: client_after_def\<close>, rule WsSdpPanic [of _ m])
      (simp_all add: client_after_def assms(6) panic)
  then show ?thesis using b(1) panic by (simp add: delete_networking_def)
qed

theorem sdp_after_delete_panics_witness:
  "\<exists>b. delete_networking True rev (Inr ()) (Inr ()) (pr_app holding_process) = Ok b \<and>
    sdp_send sample_sdp_msg (ap_sig b) = Some Panic"
proof -
  have h: "\<not> sv_crashed (pr_client holding_process)" "permutes (rev :: sref list \<Rightarrow> sref list)"
    "\<not> ch_closed (sc_sendMsgs (pr_sig holding_process))" "\<not> ch_closed (sc_receiveSDPs (pr_sig holding_process))"
    "sv_sdp (pr_client holding_process) = Holding sample_sdp_msg"
    by (simp_all add: holding_process_def holding_run_def sample_sdp_msg_def permutes_def serving_run_def served_client_def
        new_signaling_client_def)
  show ?thesis using sdp_after_delete_panics [OF holding_process_run h, of "Inr ()" "Inr ()"] by blast
qed

end
