(* ===== verification/Fetch_Answers.thy ===== *)
theory Fetch_Answers
  imports Root_Api Signaling_Props
begin

text \<open>
  Fetching through all layers: the API's methods, the handler, the networking service, the request of the
  signaling client, and the JSON of the server's answer.
\<close>

section \<open>The answer the service gets\<close>

text \<open>What a method of the client returns, as the argument of the operation that called it.\<close>

primrec answer_of :: "'a res \<Rightarrow> 'a call" where
  "answer_of (Ok a) = Inr a"
| "answer_of (Err e) = Inl e"
| "answer_of Panic = Inl (LibError ''panic'' [])"

text \<open>How a request ends, by the case its \<open>select\<close> took.\<close>

lemma request_answered:
  assumes "sig_run rs ms fl c" "(q, ref) \<in> set rs" "check_resp_wait q ref k ctx_done c = Some (r, d)"
    and "\<forall>m \<in> set ms. rm_MessageId m = msg_Id (rq_msg q) \<longrightarrow> rm_Code m = rq_typee q \<and> rm_Payload m = payload"
  shows "k = OnResp \<and> r = Ok payload \<and> (\<exists>m \<in> set ms. rm_MessageId m = msg_Id (rq_msg q)) \<or>
    k = OnResp \<and> r = Err (Base ErrOfflineBase) \<or>
    k = OnRespCtx \<and> ctx_done \<and> r = Err (err_request_timeout (rq_op q)) \<or>
    k = OnClose \<and> sc_closing c \<and> r = Err (app_closing (rq_op q))"
proof (cases k)
  case OnResp
  obtain ch where ch: "sc_chans c ref = Some ch"
    and own: "\<forall>m \<in> set (ch_buf ch). m \<in> set ms \<and> rm_MessageId m = msg_Id (rq_msg q)"
    using sig_run_match [OF assms(1)] assms(2) chans_matchD by blast
  from assms(3) OnResp ch consider
      (closed) "r = Err (Base ErrOfflineBase)"
    | (got) m ch' where "chan_recv ch = Some (Some m, ch')"
        "r = (if rm_Code m \<noteq> rq_typee q then Err (code_to_error (rq_op q) (rm_Code m)) else Ok (rm_Payload m))"
    by (auto simp: check_resp_wait_def split: option.splits)
  then show ?thesis
  proof cases
    case closed
    then show ?thesis using OnResp by simp
  next
    case (got m ch')
    have "m \<in> set (ch_buf ch)" using got(1) by (auto simp: chan_recv_def split: list.splits if_splits)
    then show ?thesis using own got(2) assms(4) OnResp by auto
  qed
qed (use assms(3) in \<open>auto simp: check_resp_wait_def split: if_splits\<close>)

lemma fetch_with_Ok:
  assumes "nw_FetchLogTargetCount (ns_cfg s) \<noteq> 0" "decoded b = Inr a"
  shows "fst (fetch_with op q (Inr b) decoded n s) = Ok a"
  using assms by (simp add: fetch_with_def sparse_guard_def Let_def sig_request_def)

lemma fetch_with_Err:
  assumes "nw_FetchLogTargetCount (ns_cfg s) \<noteq> 0"
  shows "fst (fetch_with op q (Inl e) decoded n s) = Err (new_app_error op e)"
  using assms by (simp add: fetch_with_def sparse_guard_def Let_def sig_request_def)

lemma fetch_codes:
  assumes "nw_FetchLogTargetCount (ns_cfg s) \<noteq> 0"
  shows "api_result (fst (fetch_with op q (answer_of (request_result rq (Err e))) decoded n s)) = Err (process_error e)"
  by (simp add: fetch_with_Err [OF assms] request_result_def wrap_op_def new_app_error_def process_error_def)

section \<open>FetchOnline and FetchSessions\<close>

lemma fetch_ids:
  assumes "uuid_ok ul" "sig_run rs ms fl c" "(q, ref) \<in> set rs" "check_resp_wait q ref k ctx_done c = Some (r, d)"
    and "\<forall>m \<in> set ms. rm_MessageId m = msg_Id (rq_msg q) \<longrightarrow> rm_Code m = rq_typee q \<and> rm_Payload m = json_of_uuids ul us"
    and "nw_FetchLogTargetCount (ns_cfg s) \<noteq> 0"
    and res: "res = api_result (fst (fetch_with op call (answer_of (request_result q r)) (decode_uuids ul) n s))"
  shows "k = OnResp \<and> r = Ok (json_of_uuids ul us) \<and> res = Ok us \<and> (\<exists>m \<in> set ms. rm_MessageId m = msg_Id (rq_msg q)) \<or>
    k = OnResp \<and> r = Err (Base ErrOfflineBase) \<and> res = Err (new_error_message H_OFFLINE) \<or>
    k = OnRespCtx \<and> ctx_done \<and> res = Err (new_error_message H_REQUEST_TIMEOUT) \<or>
    k = OnClose \<and> sc_closing c \<and> res = Err (new_error_message H_INTERNAL_ERROR)"
proof -
  have ok: "res = Ok us" if "r = Ok (json_of_uuids ul us)"
    using that
    by (simp add: res request_result_def wrap_op_def fetch_with_Ok [OF assms(6), of "decode_uuids ul"] decode_encoded [OF assms(1)])
  have err: "res = Err (process_error e)" if "r = Err e" for e
    unfolding res that by (rule fetch_codes [OF assms(6)])
  have codes: "process_error (Base ErrOfflineBase) = new_error_message H_OFFLINE"
    "process_error (err_request_timeout o') = new_error_message H_REQUEST_TIMEOUT"
    "process_error (app_closing o') = new_error_message H_INTERNAL_ERROR" for o'
    by (simp_all add: process_error_def app_error_defs)
  from request_answered [OF assms(2-5)] show ?thesis using ok err codes by auto
qed

text \<open>
  C24: \<open>FetchOnline\<close> through the API returns the ids the server listed in its answer to this request, in
  their order and no others, whatever other requests and responses are under way; without an answer it returns the
  code for offline, a timeout, or closing, and nothing else.
\<close>

theorem fetch_online_answered:
  assumes "uuid_ok ul" "sig_run rs ms fl c" "(request_of GetOnline i, ref) \<in> set rs"
    and "check_resp_wait (request_of GetOnline i) ref k ctx_done c = Some (r, d)"
    and "\<forall>m \<in> set ms. rm_MessageId m = i \<longrightarrow>
      rm_Code m = sig_code_num PAYLOAD_SUCCESS \<and> rm_Payload m = json_of_uuids ul us"
    and "nw_FetchLogTargetCount (ns_cfg (ap_net a)) \<noteq> 0"
  shows "\<exists>res. fst (networking_fetch_online ul (answer_of (request_result (request_of GetOnline i) r)) n a) = res \<and>
    (k = OnResp \<and> r = Ok (json_of_uuids ul us) \<and> res = Ok us \<and> (\<exists>m \<in> set ms. rm_MessageId m = i) \<or>
     k = OnResp \<and> r = Err (Base ErrOfflineBase) \<and> res = Err (new_error_message H_OFFLINE) \<or>
     k = OnRespCtx \<and> ctx_done \<and> res = Err (new_error_message H_REQUEST_TIMEOUT) \<or>
     k = OnClose \<and> sc_closing c \<and> res = Err (new_error_message H_INTERNAL_ERROR))"
proof -
  have q: "msg_Id (rq_msg (request_of GetOnline i)) = i" "rq_typee (request_of GetOnline i) = sig_code_num PAYLOAD_SUCCESS"
    by (simp_all add: get_payload_def)
  let ?res = "api_result (fst (fetch_with ''networkingServ.FetchOnline'' GetOnline
    (answer_of (request_result (request_of GetOnline i) r)) (decode_uuids ul) n (ap_net a)))"
  have "fst (networking_fetch_online ul (answer_of (request_result (request_of GetOnline i) r)) n a) = ?res"
    by (simp add: networking_fetch_online_def with_net_def api_fetch_online_def fetch_online_def split_beta Let_def)
  then show ?thesis using fetch_ids [OF assms(1-4) _ assms(6) refl] assms(5) q by auto
qed

theorem fetch_online_answered_witness:
  "\<exists>s t. check_resp_wait (request_of GetOnline 11) 0 OnResp False s =
       Some (Ok (json_of_uuids canonical_uuid [2, 3]), t) \<and>
     fst (networking_fetch_online canonical_uuid
       (answer_of (request_result (request_of GetOnline 11) (Ok (json_of_uuids canonical_uuid [2, 3])))) 1 sample_app) =
     Ok [2, 3]"
proof -
  let ?m = "\<lparr>rm_Code = 4, rm_MessageId = 11, rm_Payload = json_of_uuids canonical_uuid [2, 3]\<rparr>"
  have q: "request_of GetOnline 11 = sample_request" by (simp only: sample_request_def)
  have flight: "sig_run [(sample_request, 0)] [?m] (Some (?m, 0)) begun"
    by (rule sig_run.Take [OF begun_run]) (simp add: responses_got_def response_load_def begun_eq)
  obtain s where s: "response_send 0 ?m begun = Some (Ok s)" "sc_chans s = [0 \<mapsto> (make_chan 1)\<lparr>ch_buf := [?m]\<rparr>]"
    by (simp add: response_send_def begun_eq)
  have run: "sig_run [(request_of GetOnline 11, 0)] [?m] None s"
    unfolding q by (rule sig_run.Deliver [OF flight s(1)])
  obtain t where t: "check_resp_wait (request_of GetOnline 11) 0 OnResp False s = Some (Ok (rm_Payload ?m), t)"
    by (simp add: check_resp_wait_def s(2) chan_recv_def get_payload_def)
  have cfg: "nw_FetchLogTargetCount (ns_cfg (ap_net sample_app)) \<noteq> 0"
    by (simp add: sample_app_def reached_net_simps sample_cfg_def)
  have ms: "\<forall>m \<in> set [?m]. rm_MessageId m = 11 \<longrightarrow>
      rm_Code m = sig_code_num PAYLOAD_SUCCESS \<and> rm_Payload m = json_of_uuids canonical_uuid [2, 3]" by simp
  have mem: "(request_of GetOnline 11, 0) \<in> set [(request_of GetOnline 11, 0 :: cref)]" by simp
  from fetch_online_answered [OF canonical_uuid_ok run mem t ms cfg, of 1] t show ?thesis by auto
qed

text \<open>The same for the sessions of a user.\<close>

lemma fetch_sessions_answered:
  assumes "uuid_ok ul" "sig_run rs ms fl c" "(request_of (GetSessionsById j) i, ref) \<in> set rs"
    and "check_resp_wait (request_of (GetSessionsById j) i) ref OnResp ctx_done c = Some (Ok b, d)"
    and "\<forall>m \<in> set ms. rm_MessageId m = i \<longrightarrow>
      rm_Code m = sig_code_num PAYLOAD_SUCCESS \<and> rm_Payload m = json_of_uuids ul us"
    and "nw_FetchLogTargetCount (ns_cfg (ap_net a)) \<noteq> 0"
  shows "fst (networking_fetch_sessions ul j (Inr b) n a) = Ok us"
proof -
  have q: "msg_Id (rq_msg (request_of (GetSessionsById j) i)) = i"
    "rq_typee (request_of (GetSessionsById j) i) = sig_code_num PAYLOAD_SUCCESS"
    by (simp_all add: get_payload_def)
  have "b = json_of_uuids ul us" using request_answered [OF assms(2-4)] assms(5) q by auto
  then show ?thesis
    by (simp add: fetch_with_Ok [OF assms(6), of "decode_uuids ul"] decode_encoded [OF assms(1)] networking_fetch_sessions_def with_net_def api_fetch_sessions_def fetch_sessions_by_id_def split_beta Let_def)
qed

end
