(* ===== verification/Packet_Conn.thy ===== *)
theory Packet_Conn
  imports Go_Errors Config_Model
begin

text \<open>
  The packet connection QUIC runs on (\<open>services/networking/wrapper.go\<close>): a fixed remote address on
  top of an ICE connection. The methods of \<open>ice.Conn\<close> are a parameter, a record of functions on a
  state of any type.
\<close>

record 's ice_conn =
  ice_Read :: "nat \<Rightarrow> 's \<Rightarrow> bytes res \<times> 's"
  ice_Write :: "bytes \<Rightarrow> 's \<Rightarrow> nat res \<times> 's"
  ice_Close :: "'s \<Rightarrow> unit res \<times> 's"
  ice_LocalAddr :: string
  ice_SetDeadline :: "duration \<Rightarrow> 's \<Rightarrow> unit res \<times> 's"
  ice_SetReadDeadline :: "duration \<Rightarrow> 's \<Rightarrow> unit res \<times> 's"
  ice_SetWriteDeadline :: "duration \<Rightarrow> 's \<Rightarrow> unit res \<times> 's"

record 's packet_conn =
  pc_Conn :: "'s ice_conn"
  pc_FixedAddr :: string

definition pc_read_from :: "'s packet_conn \<Rightarrow> nat \<Rightarrow> 's \<Rightarrow> (bytes res \<times> string) \<times> 's" where
  "pc_read_from c n s = (let (r, t) = ice_Read (pc_Conn c) n s in ((r, pc_FixedAddr c), t))"

definition pc_write_to :: "'s packet_conn \<Rightarrow> bytes \<Rightarrow> string \<Rightarrow> 's \<Rightarrow> nat res \<times> 's" where
  "pc_write_to c p addr s = ice_Write (pc_Conn c) p s"

definition pc_close :: "'s packet_conn \<Rightarrow> 's \<Rightarrow> unit res \<times> 's" where
  "pc_close c s = ice_Close (pc_Conn c) s"

definition pc_local_addr :: "'s packet_conn \<Rightarrow> string" where
  "pc_local_addr c = ice_LocalAddr (pc_Conn c)"

definition pc_set_deadline :: "'s packet_conn \<Rightarrow> duration \<Rightarrow> 's \<Rightarrow> unit res \<times> 's" where
  "pc_set_deadline c d s = ice_SetDeadline (pc_Conn c) d s"

definition pc_set_read_deadline :: "'s packet_conn \<Rightarrow> duration \<Rightarrow> 's \<Rightarrow> unit res \<times> 's" where
  "pc_set_read_deadline c d s = ice_SetDeadline (pc_Conn c) d s"

definition pc_set_write_deadline :: "'s packet_conn \<Rightarrow> duration \<Rightarrow> 's \<Rightarrow> unit res \<times> 's" where
  "pc_set_write_deadline c d s = ice_SetWriteDeadline (pc_Conn c) d s"

lemmas packet_conn_defs [go_defs] =
  pc_read_from_def pc_write_to_def pc_close_def pc_local_addr_def pc_set_deadline_def
  pc_set_read_deadline_def pc_set_write_deadline_def

text \<open>
  A packet is written to the same ICE connection whatever address QUIC names, and every packet is
  read as coming from the fixed one. Setting a read deadline sets the deadline of both directions.
\<close>

lemma packet_conn_address:
  "pc_write_to c p addr s = pc_write_to c p addr' s \<and> snd (fst (pc_read_from c n s)) = pc_FixedAddr c"
  by (simp add: packet_conn_defs split_beta)

lemma read_deadline_sets_both: "pc_set_read_deadline c d s = pc_set_deadline c d s"
  by (simp add: packet_conn_defs)

end
