(* ===== verification/Net_Sdp.thy ===== *)
theory Net_Sdp
  imports Net_Refine
begin

text \<open>
  Incoming SDP messages in detail: what a successful \<open>createSession\<close> does, step by step; that
  sharing one \<open>getSession\<close> call between the messages of a sender (\<open>singleflight\<close>) is the same as
  handling them one after the other while the session has no connection.
\<close>

section \<open>A successful createSession\<close>

text \<open>The state after \<open>createAndEstablish\<close>, when every call it makes succeeds.\<close>

definition dialed ::
    "uuid \<Rightarrow> bool \<Rightarrow> agent_id \<Rightarrow> string \<Rightarrow> string \<Rightarrow> bytes \<Rightarrow> bytes \<Rightarrow> 'c net \<Rightarrow> 'c net" where
  "dialed rid b agent user pass frag pwd s =
     s\<lparr>ns_repo := (rid, ns_next s) # ns_repo s,
       ns_heap := (ns_heap s)(ns_next s \<mapsto> new_session rid agent b),
       ns_next := Suc (ns_next s),
       ns_sig := ns_sig s @ [AddInSession rid, NewSDP (creds_sdp frag pwd) [rid]],
       ns_lib := ns_lib s @ [AgentNew agent (stun_uris (ns_cfg s) user pass) (nw_DisconnectedTimeout (ns_cfg s)),
                             AgentGather agent],
       ns_establishing := ns_establishing s @ [ns_next s]\<rparr>"

lemma create_and_establish_run:
  assumes "create_goes_well env" "\<not> ns_closing s" "repo_lookup (ns_repo s) rid = None"
    and "ce_creds env = Inr (user, pass)" "ce_agent env = Inr agent" "ce_local env = Inr (frag, pwd)"
  shows "create_and_establish env rid b s = (Ok (ns_next s), dialed rid b agent user pass frag pwd s)"
proof -
  have "ce_add_in_session env = Inr ()" "ce_new_sdp env = Inr ()" "ce_on_state env = Inr ()"
    using assms(1) by (cases "ce_add_in_session env"; cases "ce_new_sdp env"; cases "ce_on_state env";
        simp add: create_goes_well_def)+
  then show ?thesis
    using assms
    by (simp add: create_goes_well_def create_and_establish_def create_session_def entry_select_def
        alloc_session_def sig_request_def lib_do_def repo_add_def repo_lookup_def dialed_def Let_def)
qed

lemma create_keeps_closing:
  "create_and_establish env rid b s = (res, t) \<Longrightarrow> ns_closing t = ns_closing s"
  by (auto simp: create_and_establish_def create_session_def entry_select_def alloc_session_def
      sig_request_def lib_do_def Let_def try_op_def split: outcome.splits prod.splits if_splits)

section \<open>Sharing a getSession call\<close>

fun handle_sdp_each :: "uuid \<Rightarrow> (sdp_env \<times> bytes) list \<Rightarrow> 'c net \<Rightarrow> 'c net res" where
  "handle_sdp_each sender [] s = Ok s"
| "handle_sdp_each sender (m # ms) s =
     go_bind (handle_sdp (fst m) sender (snd m) s) (handle_sdp_each sender ms)"

lemma get_session_stored:
  assumes "net_ok s" "get_session env i s = (Ok r, t)"
  shows "repo_lookup (ns_repo t) i = Some r \<and> ns_closing t = ns_closing s \<and> \<not> ns_closing s"
proof -
  obtain c u where cu: "create_and_establish (ge_create env) i False s = (c, u)"
    by (cases "create_and_establish (ge_create env) i False s")
  note made = create_and_establish_ok(3) [OF assms(1) cu] create_keeps_closing [OF cu]
  have "t = s \<and> repo_lookup (ns_repo s) i = Some r \<or> c = Ok r \<and> t = u"
    using assms(2) cu
    by (cases c) (auto simp: get_session_def entry_select_def repo_get_def repo_lookup_def Let_def
        split: if_splits option.splits)
  moreover have "\<not> ns_closing s"
    using assms(2) cu made(2)
    by (auto simp: get_session_def entry_select_def Let_def create_and_establish_def create_session_def
        split: if_splits)
  ultimately show ?thesis using made(1) [of r] made(2) by auto
qed

lemma set_remote_keeps:
  "set_remote_credentials env u p r s = Ok t \<Longrightarrow> ns_closing t = ns_closing s"
  by (cases "ns_heap s r")
    (auto simp: set_remote_credentials_def go_bind_Ok_iff split: option.splits sum.splits)

text \<open>A message for a session without a connection leaves store and connection as they are.\<close>

lemma sdp_dispatch_unconnected:
  assumes "net_ok s" "ns_heap s r = Some x" "Conn x = None"
  shows "\<exists>t y. sdp_dispatch env i payload r s = Ok t \<and> net_ok t \<and> ns_repo t = ns_repo s \<and>
    ns_closing t = ns_closing s \<and> ns_heap t r = Some y \<and> Conn y = None"
proof (cases "hd payload = sdp_byte CREDS")
  case True
  show ?thesis
  proof (cases "parse_creds payload")
    case None
    then show ?thesis using True assms by (auto simp: sdp_dispatch_def)
  next
    case (Some up)
    obtain u p where up: "up = (u, p)" by (cases up)
    obtain t c where t: "set_remote_credentials env u p r s = Ok t" "net_ok t" "ns_repo t = ns_repo s"
      "ns_heap t r = Some (x\<lparr>CredsChan := c\<rparr>)"
      using set_remote_credentials_ok [OF assms(1,2), of env u p] by blast
    then show ?thesis using True Some up assms set_remote_keeps [OF t(1)] by (simp add: sdp_dispatch_def)
  qed
next
  case False
  obtain agent where "Agent x = Some agent" using net_okD(3) [OF assms(1,2)] by (auto simp: session_ok_def)
  then show ?thesis
    using False assms
    by (cases "hd payload = sdp_byte CANDIDATE"; cases "se_unmarshal env"; cases "se_add_candidate env")
      (auto simp: sdp_dispatch_def)
qed

lemma dispatch_all_each:
  assumes "net_ok s" "ns_heap s r = Some x" "Conn x = None" "repo_lookup (ns_repo s) i = Some r"
    and "\<not> ns_closing s"
    and "list_all (\<lambda>m. 2 \<le> length (snd m) \<and> \<not> ge_ctx_done (se_get (fst m)) \<and>
           \<not> ge_ctx_done_get (se_get (fst m))) msgs"
  shows "sdp_dispatch_all i msgs r s = handle_sdp_each i msgs s"
  using assms
proof (induction msgs arbitrary: s x)
  case (Cons m ms)
  obtain t y where t: "sdp_dispatch (fst m) i (snd m) r s = Ok t" "net_ok t" "ns_repo t = ns_repo s"
    "ns_closing t = ns_closing s" "ns_heap t r = Some y" "Conn y = None"
    using sdp_dispatch_unconnected [OF Cons.prems(1-3), of "fst m" i "snd m"] by blast
  have "get_session (se_get (fst m)) i s = (Ok r, s)"
    using Cons.prems(4-6) by (intro get_session_found) simp_all
  then have "handle_sdp (fst m) i (snd m) s = Ok t"
    using t(1) Cons.prems(6) by (simp add: handle_sdp_def)
  then show ?case using t Cons.prems(4-6) Cons.IH [OF t(2,5,6)] by simp
qed simp

text \<open>
  C10: as long as a peer has no session with a connection, it makes no difference whether the goroutines
  of its SDP messages share one \<open>getSession\<close> call through \<open>singleflight\<close> or make a call each: credentials
  and candidates reach the same session, with the same effects.
\<close>

theorem singleflight_equivalent:
  assumes "reachable cr s" "\<forall>q. repo_lookup (ns_repo s) i = Some q \<longrightarrow> \<not> has_conn s q"
    and "get_session (se_get env) i s = (Ok r, s1)"
    and "list_all (\<lambda>m. 2 \<le> length (snd m) \<and> \<not> ge_ctx_done (se_get (fst m)) \<and>
           \<not> ge_ctx_done_get (se_get (fst m))) ((env, payload) # msgs)"
  shows "handle_sdp_group (se_get env) i ((env, payload) # msgs) s =
         handle_sdp_each i ((env, payload) # msgs) s"
proof -
  have s: "net_ok s" using reachable_inv [OF assms(1)] by simp
  note g = get_session_ok [OF s assms(3)]
  have st: "repo_lookup (ns_repo s1) i = Some r" "ns_closing s1 = ns_closing s" "\<not> ns_closing s"
    using get_session_stored [OF s assms(3)] by simp_all
  obtain x where x: "ns_heap s1 r = Some x" using g(4) by blast
  have un: "Conn x = None"
  proof (cases "repo_lookup (ns_repo s) i")
    case None
    obtain c u where cu: "create_and_establish (ge_create (se_get env)) i False s = (c, u)"
      by (cases "create_and_establish (ge_create (se_get env)) i False s")
    have "c = Ok r" "s1 = u"
      using assms(3) cu None
      by (cases c; auto simp: get_session_def entry_select_def repo_get_def repo_lookup_def Let_def
          err_not_found_def split: if_splits)+
    then show ?thesis using create_and_establish_ok(3) [OF s cu] x by (auto simp: new_session_def)
  next
    case (Some q)
    then have "get_session (se_get env) i s = (Ok q, s)"
      using assms(4) st(3) by (intro get_session_found) simp_all
    then show ?thesis using assms(2,3) Some x by (simp add: has_conn_def)
  qed
  let ?msgs = "(env, payload) # msgs"
  have live: "filter (\<lambda>m. \<not> length (snd m) < 2) ?msgs = ?msgs"
    using assms(4) by (auto simp: filter_id_conv list_all_iff)
  have "handle_sdp_group (se_get env) i ?msgs s = sdp_dispatch_all i ?msgs r s1"
    unfolding handle_sdp_group_def live using assms(3) by (simp add: Let_def)
  moreover obtain t y where t: "sdp_dispatch env i payload r s1 = Ok t" "net_ok t" "ns_repo t = ns_repo s1"
    "ns_closing t = ns_closing s1" "ns_heap t r = Some y" "Conn y = None"
    using sdp_dispatch_unconnected [OF g(1) x un, of env i payload] by blast
  moreover have "handle_sdp env i payload s = Ok t"
    using assms(3,4) t(1) by (simp add: handle_sdp_def)
  moreover have "sdp_dispatch_all i msgs r t = handle_sdp_each i msgs t"
    using t st assms(4) by (intro dispatch_all_each) simp_all
  ultimately show ?thesis by simp
qed

theorem singleflight_equivalent_witness:
  "handle_sdp_group (se_get sample_sdp) 8 [(sample_sdp, [0, 97, 32, 98]), (sample_sdp, [1, 5])] reached_net =
   handle_sdp_each 8 [(sample_sdp, [0, 97, 32, 98]), (sample_sdp, [1, 5])] reached_net"
proof -
  have "\<forall>q. repo_lookup (ns_repo reached_net) 8 = Some q \<longrightarrow> \<not> has_conn reached_net q"
    by (simp add: reached_net_simps repo_lookup_def has_conn_def new_session_def)
  moreover have "get_session (se_get sample_sdp) 8 reached_net = (Ok 0, reached_net)"
    by (rule get_session_found) (simp_all add: reached_net_simps repo_lookup_def sample_sdp_def)
  ultimately show ?thesis
    by (intro singleflight_equivalent [OF reached_net_reachable [of sample_crypto]])
      (simp_all add: sample_sdp_def)
qed

end
