(* ===== verification/Handshake.thy ===== *)
theory Handshake
  imports Net_Sdp
begin

text \<open>
  Two services: one dials the other, the server relays the credentials both announce, both
  establish their connection. Every call of a library succeeds and each side reads the public key
  the other one wrote; then both have joined, with the same key.
\<close>

section \<open>Credentials and establishing, step by step\<close>

definition credited :: "uuid \<Rightarrow> agent_id \<Rightarrow> bool \<Rightarrow> session" where
  "credited i g b = (new_session i g b)\<lparr>CredsChan := (make_chan 1)\<lparr>ch_buf := [()]\<rparr>\<rparr>"

lemma credentials_arrive:
  assumes "ns_heap s r = Some (new_session i g b)" "se_set_remote env = Inr ()"
    "space_byte \<notin> set u" "space_byte \<notin> set p"
  shows "sdp_dispatch env i (creds_sdp u p) r s =
    Ok (set_session r (credited i g b) (lib_do [AgentSetRemote g u p] s))"
  using assms parse_creds_sdp [OF assms(3,4)]
  by (simp add: sdp_dispatch_def)
    (simp add: creds_sdp_def set_remote_credentials_def new_session_def try_send_def make_chan_def credited_def)

text \<open>Every call of \<open>establishConnection\<close> and \<open>initEventStream\<close> succeeds.\<close>

definition est_goes_well :: "est_env \<Rightarrow> bool" where
  "est_goes_well env \<longleftrightarrow>
     \<not> isl (ev_remote env) \<and> \<not> isl (ev_ice env) \<and> \<not> isl (ev_listen env) \<and> \<not> isl (ev_quic env) \<and>
     \<not> isl (ev_stream env) \<and> \<not> isl (ev_handshake env)"

lemma not_isl: "\<not> isl c \<Longrightarrow> \<exists>v. c = Inr v"
  by (cases c) simp_all

lemma est_values:
  assumes "est_goes_well env"
  obtains c e v where "ev_quic env = Inr c" "ev_stream env = Inr e" "ev_remote env = Inr v"
    "ev_ice env = Inr ()" "ev_listen env = Inr ()" "ev_handshake env = Inr ()"
proof -
  have "\<exists>u. ev_ice env = Inr u" "\<exists>u. ev_listen env = Inr u" "\<exists>u. ev_handshake env = Inr u"
    "\<exists>c. ev_quic env = Inr c" "\<exists>e. ev_stream env = Inr e" "\<exists>v. ev_remote env = Inr v"
    using assms unfolding est_goes_well_def by (blast dest: not_isl)+
  then show thesis using that by auto
qed

lemma establish_joins:
  assumes "ns_heap s r = Some (credited i g b)" "\<not> ns_closing s" "est_goes_well env"
    "snd (setup_e2ee cr (ev_rnd env) (ev_e2ee env)) = Ok k"
  shows "\<exists>t c e. establish_goroutine cr env r s = Some (Ok t) \<and>
    ns_heap t r = Some (ready_session (with_event_stream e
       ((new_session i g b)\<lparr>Conn := Some c, Key := k\<rparr>))) \<and>
    ns_repo t = ns_repo s \<and> ns_establishing t = filter (\<lambda>q. q \<noteq> r) (ns_establishing s) \<and>
    ns_closing t = ns_closing s \<and>
    ns_calls t = ns_calls s @ (case onPeerConnectedHandler (ns_handlers s) of None \<Rightarrow> [] | Some f \<Rightarrow> f i)"
proof -
  obtain c e v where env: "ev_quic env = Inr c" "ev_stream env = Inr e" "ev_remote env = Inr v"
    and more: "ev_ice env = Inr ()" "ev_listen env = Inr ()" "ev_handshake env = Inr ()"
    using est_values [OF assms(3)] .
  have k: "length k = 32" by (rule setup_e2ee_length [OF assms(4)])
  define x where "x = new_session i g b"
  define s1 where "s1 = set_session r x s"
  have recv: "chan_recv (CredsChan (credited i g b)) = Some (Some (), make_chan 1)"
    by (simp add: credited_def chan_recv_def make_chan_def)
  have x1: "(credited i g b)\<lparr>CredsChan := make_chan 1\<rparr> = x"
    by (simp add: credited_def x_def new_session_def)
  have run: "establish_connection cr env r s = Some (establish_run cr env r s1)"
    using assms(1,2) recv x1 by (simp add: establish_connection_def await_creds_def s1_def)
  define y where "y = with_event_stream e (x\<lparr>Conn := Some c, Key := k\<rparr>)"
  define qs where "qs = (if IsInitiator x then [StreamHandshake e] else [])"
  define u where "u = call_connection (onPeerConnectedHandler (ns_handlers s)) i
      (set_session r y (lib_do qs s1))"
  define t1 where "t1 = set_session r (ready_session y) (handle_connection r u)"
  have dial: "dial_peer env r s1 = (Ok (), set_session r (x\<lparr>Conn := Some c\<rparr>) s1)"
    using env more by (cases v) (simp add: dial_peer_def s1_def)
  have keys: "exchange_keys cr env r (set_session r (x\<lparr>Conn := Some c\<rparr>) s1) =
      (Ok (), set_session r (x\<lparr>Conn := Some c, Key := k\<rparr>) s1)"
    using assms(4) by (simp add: exchange_keys_def)
  have stream: "open_event_stream env r (set_session r (x\<lparr>Conn := Some c, Key := k\<rparr>) s1) =
      (Ok (), set_session r y (lib_do qs s1))"
    using env more k by (simp add: open_event_stream_def init_event_stream_def new_aescm_key aes_key_def y_def qs_def
        with_event_stream_def set_session_lib)
  have y: "UserID y = i" "\<not> ch_closed (ReadyChan y)"
    by (simp_all add: y_def x_def with_event_stream_def new_session_def make_chan_def)
  have announce: "announce_peer r (set_session r y (lib_do qs s1)) = (Ok (), u)"
    using y(1) by (simp add: announce_peer_def u_def s1_def)
  have "ns_heap u r = Some y" by (simp add: u_def)
  then have start: "start_handling r u = (Ok (), t1)"
    using start_handling_eq [of u r y] y(2) by (simp add: t1_def ready_session_def)
  have "establish_run cr env r s1 = (Ok (), t1)"
    using dial keys stream announce start by (simp add: establish_run_def)
  then have "establish_goroutine cr env r s = Some (Ok (established r t1))"
    using run by (simp add: establish_goroutine_def)
  moreover have "ns_heap (established r t1) r = Some (ready_session y)" by (simp add: t1_def)
  moreover have "ns_repo (established r t1) = ns_repo s" "ns_establishing (established r t1) =
      filter (\<lambda>q. q \<noteq> r) (ns_establishing s)" "ns_closing (established r t1) = ns_closing s"
    by (simp_all add: t1_def handle_connection_def u_def s1_def)
  moreover have "ns_calls (established r t1) = ns_calls s @
      (case onPeerConnectedHandler (ns_handlers s) of None \<Rightarrow> [] | Some f \<Rightarrow> f i)"
    by (auto simp: t1_def handle_connection_def u_def s1_def call_connection_def lib_do_def split: option.split)
  ultimately show ?thesis by (auto simp: y_def x_def)
qed

section \<open>Both sides\<close>

text \<open>Each side reads the public key the other one wrote, and X25519 accepts it.\<close>

definition keys_exchanged :: "crypto \<Rightarrow> est_env \<Rightarrow> est_env \<Rightarrow> bool" where
  "keys_exchanged cr va vb \<longleftrightarrow>
     32 \<le> length (ev_rnd va) \<and> 32 \<le> length (ev_rnd vb) \<and>
     ev_e2ee va = e2ee_env_of (x25519_public cr (take 32 (ev_rnd vb))) \<and>
     ev_e2ee vb = e2ee_env_of (x25519_public cr (take 32 (ev_rnd va))) \<and>
     x25519_ecdh cr (take 32 (ev_rnd va)) (x25519_public cr (take 32 (ev_rnd vb))) \<noteq> None"

lemma keys_exchanged_agree:
  assumes "x25519_ok cr" "keys_exchanged cr va vb"
  obtains k where "snd (setup_e2ee cr (ev_rnd va) (ev_e2ee va)) = Ok k"
    "snd (setup_e2ee cr (ev_rnd vb) (ev_e2ee vb)) = Ok k" "length k = 32"
proof -
  let ?a = "take 32 (ev_rnd va)" and ?b = "take 32 (ev_rnd vb)"
  obtain secret where s: "x25519_ecdh cr ?a (x25519_public cr ?b) = Some secret"
    using assms(2) by (auto simp: keys_exchanged_def)
  then have s': "x25519_ecdh cr ?b (x25519_public cr ?a) = Some secret"
    using assms(1) by (simp add: x25519_ok_def)
  have len: "length (x25519_public cr q) = 32" "32 \<le> length (hkdf_sha256 cr secret)" for q
    using assms(1) by (simp_all add: x25519_ok_def)
  have "snd (setup_e2ee cr (ev_rnd va) (ev_e2ee va)) = Ok (take 32 (hkdf_sha256 cr secret))"
    "snd (setup_e2ee cr (ev_rnd vb) (ev_e2ee vb)) = Ok (take 32 (hkdf_sha256 cr secret))"
    using assms(2) setup_e2ee_Ok [of "ev_rnd va" "ev_e2ee va" _ cr] setup_e2ee_Ok [of "ev_rnd vb" "ev_e2ee vb" _ cr]
      new_master_key_Ok [OF assms(1) len(1) s] new_master_key_Ok [OF assms(1) len(1) s']
    by (simp_all add: keys_exchanged_def e2ee_env_of_def)
  then show thesis using len(2) by (intro that [of "take 32 (hkdf_sha256 cr secret)"]) simp_all
qed

text \<open>What one side does: its services are reachable, and it knows nothing of the peer yet.\<close>

definition fresh_peer :: "crypto \<Rightarrow> 'c net \<Rightarrow> uuid \<Rightarrow> bool" where
  "fresh_peer cr s i \<longleftrightarrow> reachable cr s \<and> \<not> ns_closing s \<and> spec_of s i = None"

lemma fresh_peerD:
  assumes "fresh_peer cr s i"
  shows "reachable cr s" "net_ok s" "\<not> ns_closing s" "repo_lookup (ns_repo s) i = None"
    "ns_phase s (ns_next s) = AwaitCreds"
proof -
  show s: "net_ok s" using assms reachable_inv [of cr s] by (auto simp: fresh_peer_def)
  show "ns_phase s (ns_next s) = AwaitCreds"
    using net_okD(6) [OF s, of "ns_next s"] net_okD(4) [OF s, of "ns_next s"] net_okD(7) [OF s, of "ns_next s"] by blast
qed (use assms in \<open>auto simp: fresh_peer_def spec_of_apply\<close>)

lemma created_values:
  assumes "create_goes_well env"
  obtains user pass agent frag pwd where "ce_creds env = Inr (user, pass)" "ce_agent env = Inr agent"
    "ce_local env = Inr (frag, pwd)"
  using assms by (cases "ce_creds env"; cases "ce_agent env"; cases "ce_local env")
    (auto simp: create_goes_well_def)

text \<open>The local credentials an environment announces contain no space, as ICE's alphabet has none.\<close>

definition plain_local :: "create_env \<Rightarrow> bool" where
  "plain_local env = (case ce_local env of Inl e \<Rightarrow> True
     | Inr (frag, pwd) \<Rightarrow> space_byte \<notin> set frag \<and> space_byte \<notin> set pwd)"

lemma dialed_simps [simp]:
  "ns_heap (dialed rid b g us pa f w s) (ns_next s) = Some (new_session rid g b)"
  "repo_lookup (ns_repo (dialed rid b g us pa f w s)) rid = Some (ns_next s)"
  "ns_closing (dialed rid b g us pa f w s) = ns_closing s"
  "last (ns_sig (dialed rid b g us pa f w s)) = NewSDP (creds_sdp f w) [rid]"
  "ns_establishing (dialed rid b g us pa f w s) = ns_establishing s @ [ns_next s]"
  "ns_phase (dialed rid b g us pa f w s) = ns_phase s"
  "ns_calls (dialed rid b g us pa f w s) = ns_calls s"
  "ns_handlers (dialed rid b g us pa f w s) = ns_handlers s"
  by (simp_all add: dialed_def repo_lookup_def)

text \<open>The side that is dialed: its session is made when the credentials arrive.\<close>

lemma answer_dial:
  assumes "fresh_peer cr s i" "\<not> ge_ctx_done (se_get env)" "\<not> ge_ctx_done_get (se_get env)"
    "create_goes_well (ge_create (se_get env))" "plain_local (ge_create (se_get env))"
    "se_set_remote env = Inr ()" "space_byte \<notin> set u" "space_byte \<notin> set p"
  shows "\<exists>t g f w. handle_sdp env i (creds_sdp u p) s = Ok t \<and> reachable cr t \<and> \<not> ns_closing t \<and>
    ns_heap t (ns_next s) = Some (credited i g False) \<and> repo_lookup (ns_repo t) i = Some (ns_next s) \<and>
    ns_next s \<in> set (ns_establishing t) \<and> ns_phase t (ns_next s) = AwaitCreds \<and> last (ns_sig t) = NewSDP (creds_sdp f w) [i] \<and>
    space_byte \<notin> set f \<and> space_byte \<notin> set w \<and> ns_calls t = ns_calls s \<and> ns_handlers t = ns_handlers s"
proof -
  note s = fresh_peerD [OF assms(1)]
  obtain us pa g f w where v: "ce_creds (ge_create (se_get env)) = Inr (us, pa)"
    "ce_agent (ge_create (se_get env)) = Inr g" "ce_local (ge_create (se_get env)) = Inr (f, w)"
    using created_values [OF assms(4)] .
  let ?d = "dialed i False g us pa f w s"
  let ?t = "set_session (ns_next s) (credited i g False) (lib_do [AgentSetRemote g u p] ?d)"
  have get: "get_session (se_get env) i s = (Ok (ns_next s), ?d)"
    using assms(2,3) s(3,4) create_and_establish_run [OF assms(4) s(3,4) v]
    by (simp add: get_session_def entry_select_def repo_get_def repo_lookup_def err_not_found_def)
  have "sdp_dispatch env i (creds_sdp u p) (ns_next s) ?d = Ok ?t"
    using assms(6-8) by (intro credentials_arrive) simp_all
  then have h: "handle_sdp env i (creds_sdp u p) s = Ok ?t"
    using get by (simp add: handle_sdp_def creds_sdp_def set_first_byte_def)
  moreover have "reachable cr ?t" by (rule reachable.Step [OF s(1) net_step.Sdp [OF h]])
  moreover have "space_byte \<notin> set f" "space_byte \<notin> set w" using assms(5) v by (simp_all add: plain_local_def)
  ultimately show ?thesis using s(3,5) by (auto simp: lib_do_def)
qed

text \<open>The side that dials: its session waits for the credentials.\<close>

lemma dial_answered:
  assumes "fresh_peer cr s i" "create_goes_well env" "plain_local env"
    "\<not> ge_ctx_done (se_get sdp)" "\<not> ge_ctx_done_get (se_get sdp)" "se_set_remote sdp = Inr ()"
  shows "\<exists>s1 f w. create_and_establish env i True s = (Ok (ns_next s), s1) \<and> reachable cr s1 \<and>
    last (ns_sig s1) = NewSDP (creds_sdp f w) [i] \<and> space_byte \<notin> set f \<and> space_byte \<notin> set w \<and>
    (\<forall>u p. space_byte \<notin> set u \<longrightarrow> space_byte \<notin> set p \<longrightarrow>
      (\<exists>t g. handle_sdp sdp i (creds_sdp u p) s1 = Ok t \<and> reachable cr t \<and> \<not> ns_closing t \<and>
         ns_heap t (ns_next s) = Some (credited i g True) \<and> repo_lookup (ns_repo t) i = Some (ns_next s) \<and>
         ns_next s \<in> set (ns_establishing t) \<and> ns_phase t (ns_next s) = AwaitCreds \<and> ns_calls t = ns_calls s \<and> ns_handlers t = ns_handlers s))"
proof -
  note s = fresh_peerD [OF assms(1)]
  obtain us pa g f w where v: "ce_creds env = Inr (us, pa)" "ce_agent env = Inr g" "ce_local env = Inr (f, w)"
    using created_values [OF assms(2)] .
  let ?d = "dialed i True g us pa f w s"
  have made: "create_and_establish env i True s = (Ok (ns_next s), ?d)"
    by (rule create_and_establish_run [OF assms(2) s(3,4) v])
  have r: "reachable cr ?d" by (rule reachable.Step [OF s(1) net_step.Create [OF made]])
  have get: "get_session (se_get sdp) i ?d = (Ok (ns_next s), ?d)"
    using assms(4,5) s(3) by (intro get_session_found) simp_all
  have "\<exists>t g. handle_sdp sdp i (creds_sdp u p) ?d = Ok t \<and> reachable cr t \<and> \<not> ns_closing t \<and>
         ns_heap t (ns_next s) = Some (credited i g True) \<and> repo_lookup (ns_repo t) i = Some (ns_next s) \<and>
         ns_next s \<in> set (ns_establishing t) \<and> ns_phase t (ns_next s) = AwaitCreds \<and> ns_calls t = ns_calls s \<and> ns_handlers t = ns_handlers s"
    if up: "space_byte \<notin> set u" "space_byte \<notin> set p" for u p
  proof -
    let ?t = "set_session (ns_next s) (credited i g True) (lib_do [AgentSetRemote g u p] ?d)"
    have "sdp_dispatch sdp i (creds_sdp u p) (ns_next s) ?d = Ok ?t"
      using assms(6) up by (intro credentials_arrive) simp_all
    then have h: "handle_sdp sdp i (creds_sdp u p) ?d = Ok ?t"
      using get by (simp add: handle_sdp_def creds_sdp_def set_first_byte_def)
    have "reachable cr ?t" by (rule reachable.Step [OF r net_step.Sdp [OF h]])
    then show ?thesis using h s(3,5) by (auto simp: lib_do_def)
  qed
  moreover have "space_byte \<notin> set f" "space_byte \<notin> set w" using assms(3) v by (simp_all add: plain_local_def)
  ultimately show ?thesis
    using made r by (intro exI [of _ ?d] exI [of _ f] exI [of _ w]) simp
qed

text \<open>A credited session establishes: it has joined in the end.\<close>

lemma credited_joins:
  assumes "reachable cr s" "ns_heap s r = Some (credited i g b)" "\<not> ns_closing s"
    "repo_lookup (ns_repo s) i = Some r" "r \<in> set (ns_establishing s)" "ns_phase s r = AwaitCreds" "est_goes_well env"
    "snd (setup_e2ee cr (ev_rnd env) (ev_e2ee env)) = Ok k"
  shows "\<exists>t x. establish_goroutine cr env r s = Some (Ok t) \<and> reachable cr t \<and>
    spec_of t i = Some PeerJoined \<and> ns_heap t r = Some x \<and> UserID x = i \<and> IsInitiator x = b \<and>
    Key x = k \<and> Agent x = Some g \<and> Conn x \<noteq> None \<and> ns_closing t = ns_closing s \<and> repo_lookup (ns_repo t) i = Some r \<and> session_ready t r \<and> \<not> session_ready s r \<and>
    ns_calls t = ns_calls s @ (case onPeerConnectedHandler (ns_handlers s) of None \<Rightarrow> [] | Some f \<Rightarrow> f i)"
proof -
  obtain t c e where t: "establish_goroutine cr env r s = Some (Ok t)"
    "ns_heap t r = Some (ready_session (with_event_stream e ((new_session i g b)\<lparr>Conn := Some c, Key := k\<rparr>)))"
    "ns_repo t = ns_repo s" "ns_establishing t = filter (\<lambda>q. q \<noteq> r) (ns_establishing s)"
    "ns_closing t = ns_closing s"
    "ns_calls t = ns_calls s @ (case onPeerConnectedHandler (ns_handlers s) of None \<Rightarrow> [] | Some f \<Rightarrow> f i)"
    using establish_joins [OF assms(2,3,7,8)] by (elim exE conjE) (rule that)
  moreover have "reachable cr t"
  proof -
    have "live r s" using assms(2,5) by (simp add: live_def credited_def new_session_def make_chan_def)
    from turns_run [OF goroutine_turns [OF this assms(6) t(1)]] show ?thesis
      using assms(1) by (rule steps_reachable)
  qed
  moreover have "spec_of t i = Some PeerJoined" using t(3,4) assms(4) by (simp add: spec_of_apply)
  moreover have "session_ready t r" using t(2) by (simp add: session_ready_def chan_recv_blocks_iff)
  moreover have "\<not> session_ready s r"
    using assms(2) by (simp add: session_ready_def credited_def chan_recv_def make_chan_def)
  ultimately show ?thesis using assms(4) by (auto simp: with_event_stream_def new_session_def)
qed

text \<open>
  C3: one user connects to another by id. The first service announces its credentials, the other one answers
  them with its own session and its own credentials, and both goroutines establish. Then \<open>ConnectById\<close>,
  which has waited until there, returns without an error; each side's store has the other one as joined, one
  as the initiator and one not; both sessions have the same AES-256 key; and each user's peer-connected
  handler was called once with the other one's id.
\<close>

theorem handshake_joins_both:
  assumes "x25519_ok cr" "fresh_peer cr a ib" "fresh_peer cr b ia" "ib \<noteq> ns_id a"
    and "create_goes_well ea" "plain_local ea"
    and "create_goes_well (ge_create (se_get sb))" "plain_local (ge_create (se_get sb))"
    and "\<not> ge_ctx_done (se_get sa)" "\<not> ge_ctx_done_get (se_get sa)" "se_set_remote sa = Inr ()"
    and "\<not> ge_ctx_done (se_get sb)" "\<not> ge_ctx_done_get (se_get sb)" "se_set_remote sb = Inr ()"
    and "keys_exchanged cr va vb" "est_goes_well va" "est_goes_well vb"
  shows "\<exists>wait a1 sdpA b1 sdpB a2 a3 b2 ra rb xa xb.
    connect_by_id ea ib a = (wait, a1) \<and> last (ns_sig a1) = NewSDP sdpA [ib] \<and>
    handle_sdp sb ia sdpA b = Ok b1 \<and> last (ns_sig b1) = NewSDP sdpB [ia] \<and>
    handle_sdp sa ib sdpB a1 = Ok a2 \<and> wait_ready wait a2 = None \<and>
    establish_goroutine cr va ra a2 = Some (Ok a3) \<and> establish_goroutine cr vb rb b1 = Some (Ok b2) \<and>
    wait_ready wait a3 = Some (Ok ()) \<and> reachable cr a3 \<and> reachable cr b2 \<and>
    spec_of a3 ib = Some PeerJoined \<and> spec_of b2 ia = Some PeerJoined \<and>
    repo_get False ib (ns_repo a3) = Ok ra \<and> ns_heap a3 ra = Some xa \<and> IsInitiator xa \<and>
    repo_get False ia (ns_repo b2) = Ok rb \<and> ns_heap b2 rb = Some xb \<and> \<not> IsInitiator xb \<and>
    Key xa = Key xb \<and> length (Key xa) = 32 \<and>
    ns_calls a3 = ns_calls a @ (case onPeerConnectedHandler (ns_handlers a) of None \<Rightarrow> [] | Some f \<Rightarrow> f ib) \<and>
    ns_calls b2 = ns_calls b @ (case onPeerConnectedHandler (ns_handlers b) of None \<Rightarrow> [] | Some f \<Rightarrow> f ia)"
proof -
  obtain a1 f w where a1: "create_and_establish ea ib True a = (Ok (ns_next a), a1)"
    "last (ns_sig a1) = NewSDP (creds_sdp f w) [ib]" "space_byte \<notin> set f" "space_byte \<notin> set w"
    and answered: "\<forall>u p. space_byte \<notin> set u \<longrightarrow> space_byte \<notin> set p \<longrightarrow>
      (\<exists>t g. handle_sdp sa ib (creds_sdp u p) a1 = Ok t \<and> reachable cr t \<and> \<not> ns_closing t \<and>
         ns_heap t (ns_next a) = Some (credited ib g True) \<and> repo_lookup (ns_repo t) ib = Some (ns_next a) \<and>
         ns_next a \<in> set (ns_establishing t) \<and> ns_phase t (ns_next a) = AwaitCreds \<and> ns_calls t = ns_calls a \<and> ns_handlers t = ns_handlers a)"
    using dial_answered [OF assms(2,5,6,9-11)] by (elim exE conjE) (rule that)
  have conn: "connect_by_id ea ib a = (Waiting [ns_next a] None, a1)"
    using a1(1) assms(4) by (simp add: connect_by_id_def)
  obtain b1 g' f' w' where b1: "handle_sdp sb ia (creds_sdp f w) b = Ok b1" "reachable cr b1"
    "\<not> ns_closing b1" "ns_heap b1 (ns_next b) = Some (credited ia g' False)"
    "repo_lookup (ns_repo b1) ia = Some (ns_next b)" "ns_next b \<in> set (ns_establishing b1)" "ns_phase b1 (ns_next b) = AwaitCreds"
    "last (ns_sig b1) = NewSDP (creds_sdp f' w') [ia]" "space_byte \<notin> set f'" "space_byte \<notin> set w'"
    "ns_calls b1 = ns_calls b" "ns_handlers b1 = ns_handlers b"
    using answer_dial [OF assms(3,12,13,7,8,14) a1(3,4)] by (elim exE conjE) (rule that)
  obtain a2 g where a2: "handle_sdp sa ib (creds_sdp f' w') a1 = Ok a2" "reachable cr a2" "\<not> ns_closing a2"
    "ns_heap a2 (ns_next a) = Some (credited ib g True)" "repo_lookup (ns_repo a2) ib = Some (ns_next a)"
    "ns_next a \<in> set (ns_establishing a2)" "ns_phase a2 (ns_next a) = AwaitCreds" "ns_calls a2 = ns_calls a" "ns_handlers a2 = ns_handlers a"
    using answered [rule_format, OF b1(9,10)] by (elim exE conjE) (rule that)
  obtain k where k: "snd (setup_e2ee cr (ev_rnd va) (ev_e2ee va)) = Ok k"
    "snd (setup_e2ee cr (ev_rnd vb) (ev_e2ee vb)) = Ok k" "length k = 32"
    using keys_exchanged_agree [OF assms(1,15)] .
  obtain a3 xa where a3: "establish_goroutine cr va (ns_next a) a2 = Some (Ok a3)" "reachable cr a3"
    "spec_of a3 ib = Some PeerJoined" "ns_heap a3 (ns_next a) = Some xa" "IsInitiator xa = True" "Key xa = k"
    "Agent xa = Some g" "Conn xa \<noteq> None" "ns_closing a3 = ns_closing a2"
    "repo_lookup (ns_repo a3) ib = Some (ns_next a)" "session_ready a3 (ns_next a)"
    "\<not> session_ready a2 (ns_next a)"
    "ns_calls a3 = ns_calls a2 @ (case onPeerConnectedHandler (ns_handlers a2) of None \<Rightarrow> [] | Some f \<Rightarrow> f ib)"
    using credited_joins [OF a2(2,4,3,5,6,7) assms(16) k(1)] by (elim exE conjE) (rule that)
  obtain b2 xb where b2: "establish_goroutine cr vb (ns_next b) b1 = Some (Ok b2)" "reachable cr b2"
    "spec_of b2 ia = Some PeerJoined" "ns_heap b2 (ns_next b) = Some xb" "IsInitiator xb = False" "Key xb = k"
    "Agent xb = Some g'" "Conn xb \<noteq> None" "ns_closing b2 = ns_closing b1"
    "repo_lookup (ns_repo b2) ia = Some (ns_next b)"
    "ns_calls b2 = ns_calls b1 @ (case onPeerConnectedHandler (ns_handlers b1) of None \<Rightarrow> [] | Some f \<Rightarrow> f ia)"
    using credited_joins [OF b1(2,4,3,5,6,7) assms(17) k(2)] by (elim exE conjE) (rule that)
  have "wait_ready (Waiting [ns_next a] None) a2 = None" "wait_ready (Waiting [ns_next a] None) a3 = Some (Ok ())"
    using a3(11,12) by (simp_all add: wait_ready_def)
  with conn a1 b1 a2 a3 b2 k(3) show ?thesis
    by (intro exI [of _ "Waiting [ns_next a] None"] exI [of _ a1] exI [of _ "creds_sdp f w"] exI [of _ b1]
        exI [of _ "creds_sdp f' w'"] exI [of _ a2] exI [of _ a3] exI [of _ b2] exI [of _ "ns_next a"]
        exI [of _ "ns_next b"] exI [of _ xa] exI [of _ xb]) (simp add: sr.get_ok)
qed

text \<open>Two new services and their environments, for the witnesses.\<close>

definition started :: "uuid \<Rightarrow> sample_call net" where
  "started i = new_networking_serv i sample_cfg new_session_repository"

definition est_of :: "8 word \<Rightarrow> 8 word \<Rightarrow> est_env" where
  "est_of own other = (sample_est (replicate 32 other))\<lparr>ev_rnd := replicate 32 own\<rparr>"

lemma started_fresh: "fresh_peer cr (started i) j"
  unfolding started_def fresh_peer_def
  by (simp add: reachable.Init spec_of_apply) (simp add: new_networking_serv_def repo_defs)

lemma sample_env_simps:
  "create_goes_well sample_create" "plain_local sample_create"
  "se_get sample_sdp = \<lparr>ge_ctx_done = False, ge_pick_ctx = False, ge_ctx_done_get = False, ge_create = sample_create\<rparr>"
  "se_set_remote sample_sdp = Inr ()" "se_recreate sample_sdp = sample_create"
  by (simp_all add: create_goes_well_def plain_local_def sample_create_def sample_sdp_def space_byte_def)

lemma est_of_well: "est_goes_well (est_of x y)" "keys_exchanged sample_crypto (est_of x y) (est_of y x)"
  by (simp_all add: est_goes_well_def est_of_def sample_est_def keys_exchanged_def sample_crypto_def pad32_def)

theorem handshake_joins_both_witness:
  "\<exists>(a3 :: sample_call net) (b2 :: sample_call net). reachable sample_crypto a3 \<and> reachable sample_crypto b2 \<and>
     spec_of a3 2 = Some PeerJoined \<and> spec_of b2 1 = Some PeerJoined"
  using handshake_joins_both [OF sample_x25519_ok started_fresh [where i = 1 and j = 2] started_fresh [where i = 2 and j = 1],
      of sample_create sample_sdp sample_sdp "est_of 5 6" "est_of 6 5"]
  by (simp add: sample_env_simps est_of_well started_def new_networking_serv_def [of 1]) blast

text \<open>Reachable services: one whose session has its credentials, and one with a joined peer.\<close>

lemma credited_example:
  "\<exists>(s :: sample_call net) g k. reachable sample_crypto s \<and> \<not> ns_closing s \<and> ns_heap s 0 = Some (credited 1 g False) \<and>
     repo_lookup (ns_repo s) 1 = Some 0 \<and> 0 \<in> set (ns_establishing s) \<and> ns_phase s 0 = AwaitCreds \<and>
     snd (setup_e2ee sample_crypto (ev_rnd (est_of 5 6)) (ev_e2ee (est_of 5 6))) = Ok k"
proof -
  have p: "\<not> ge_ctx_done (se_get sample_sdp)" "\<not> ge_ctx_done_get (se_get sample_sdp)"
    "create_goes_well (ge_create (se_get sample_sdp))" "plain_local (ge_create (se_get sample_sdp))"
    "se_set_remote sample_sdp = Inr ()" "space_byte \<notin> set []" "space_byte \<notin> set []"
    by (simp_all add: sample_env_simps)
  have n: "ns_next (started 2 :: sample_call net) = 0" by (simp add: started_def new_networking_serv_def)
  obtain k where k: "snd (setup_e2ee sample_crypto (ev_rnd (est_of 5 6)) (ev_e2ee (est_of 5 6))) = Ok k"
    using keys_exchanged_agree [OF sample_x25519_ok est_of_well(2)] .
  from answer_dial [OF started_fresh [where cr = sample_crypto and i = 2 and j = 1] p] k show ?thesis
    unfolding n by blast
qed

lemma joined_example:
  "\<exists>(s :: sample_call net) x a. reachable sample_crypto s \<and> \<not> ns_closing s \<and> repo_lookup (ns_repo s) 1 = Some 0 \<and>
     ns_heap s 0 = Some x \<and> Conn x \<noteq> None \<and> Agent x = Some a"
proof -
  obtain s :: "sample_call net" and g k where s: "reachable sample_crypto s" "\<not> ns_closing s"
    "ns_heap s 0 = Some (credited 1 g False)" "repo_lookup (ns_repo s) 1 = Some 0" "0 \<in> set (ns_establishing s)"
    "ns_phase s 0 = AwaitCreds" "snd (setup_e2ee sample_crypto (ev_rnd (est_of 5 6)) (ev_e2ee (est_of 5 6))) = Ok k"
    using credited_example by (elim exE conjE) (rule that)
  from credited_joins [OF s(1,3,2,4,5,6) est_of_well(1) s(7)] s(2) show ?thesis by auto
qed



text \<open>
  C12: for a joined peer it does make a difference. When the peer reconnects, its new credentials and
  a candidate may arrive together; sharing the call, both goroutines hold the old session. The
  credentials replace it, and the candidate is added to the old session's agent, after it was told to close:
  the new session, whose agent is another, never learns of the candidate.
\<close>

theorem shared_candidate_is_lost:
  assumes "reachable cr s" "\<not> ns_closing s" "repo_lookup (ns_repo s) i = Some r" "ns_heap s r = Some x"
    and "Conn x \<noteq> None" "Agent x = Some a" "a' \<noteq> a"
    and "\<not> ge_ctx_done (se_get env)" "\<not> ge_ctx_done_get (se_get env)" "create_goes_well (se_recreate env)"
    and "ce_creds (se_recreate env) = Inr (user, pass)" "ce_agent (se_recreate env) = Inr a'"
    and "ce_local (se_recreate env) = Inr (frag, pwd)" "se_set_remote env = Inr ()"
    and "se_unmarshal env = Inr c" "se_add_candidate env = Inr ()" "cand \<noteq> []"
    and "space_byte \<notin> set u" "space_byte \<notin> set p"
  shows "\<exists>t. handle_sdp_group (se_get env) i [(env, creds_sdp u p), (env, candidate_sdp cand)] s = Ok t \<and>
    (\<exists>r' y. repo_lookup (ns_repo t) i = Some r' \<and> r' \<noteq> r \<and> ns_heap t r' = Some y \<and> Agent y = Some a') \<and>
    ns_lib t = ns_lib s @ close_calls x @
      [AgentNew a' (stun_uris (ns_cfg s) user pass) (nw_DisconnectedTimeout (ns_cfg s)),
       AgentGather a', AgentSetRemote a' u p, AgentAddCandidate a c] \<and>
    AgentGracefulClose a \<in> set (close_calls x)"
proof -
  have s: "net_ok s" using reachable_inv [OF assms(1)] by simp
  have id: "UserID x = i" using net_okD(2) [OF s assms(3)] assms(4) by auto
  define s2 where "s2 = drop_from_repo r x (lib_do (close_calls x) s)"
  define s3 where "s3 = dialed i False a' user pass frag pwd s2"
  define r' where "r' = ns_next s"
  have look2: "repo_lookup (ns_repo s2) i = None"
    using net_okD(1) [OF s] id assms(3) by (simp add: s2_def drop_lookup)
  have same2: "ns_closing s2 = ns_closing s" "ns_next s2 = ns_next s" "ns_heap s2 = ns_heap s"
    "ns_lib s2 = ns_lib s @ close_calls x" "ns_cfg s2 = ns_cfg s"
    by (simp_all add: s2_def drop_from_repo_def lib_do_def)
  have ne: "r' \<noteq> r" using net_okD(4) [OF s assms(4)] by (simp add: r'_def)
  have reset: "reset_session r s = Ok s2" using assms(4) by (simp add: reset_session_def s2_def)
  have made: "create_and_establish (se_recreate env) i False s2 = (Ok r', s3)"
    using create_and_establish_run [OF assms(10) _ look2 assms(11-13)] assms(2) same2
    by (simp add: s3_def r'_def)
  have heap3: "ns_heap s3 r' = Some (new_session i a' False)" "ns_heap s3 r = Some x"
    "repo_lookup (ns_repo s3) i = Some r'"
    using ne assms(4) by (simp_all add: s3_def dialed_def same2 r'_def repo_lookup_def)
  define t where "t = set_session r' ((new_session i a' False)\<lparr>CredsChan := (make_chan 1)\<lparr>ch_buf := [()]\<rparr>\<rparr>)
      (lib_do [AgentSetRemote a' u p] s3)"
  have remote: "set_remote_credentials env u p r' s3 = Ok t"
    using heap3 assms(14) by (simp add: set_remote_credentials_def t_def new_session_def try_send_def make_chan_def)
  have creds: "sdp_dispatch env i (creds_sdp u p) r s = Ok t"
    using parse_creds_sdp [OF assms(18,19)] assms(4,5) reset made remote
    by (simp add: sdp_dispatch_def) (simp add: creds_sdp_def)
  have old: "ns_heap t r = Some x" using heap3 ne by (simp add: t_def)
  have cand: "sdp_dispatch env i (candidate_sdp cand) r t = Ok (lib_do [AgentAddCandidate a c] t)"
    using old assms(6,15,16) by (simp add: sdp_dispatch_def candidate_sdp_def set_first_byte_def)
  have "get_session (se_get env) i s = (Ok r, s)"
    using assms(2,3,8,9) by (intro get_session_found) simp_all
  then have "handle_sdp_group (se_get env) i [(env, creds_sdp u p), (env, candidate_sdp cand)] s =
      Ok (lib_do [AgentAddCandidate a c] t)"
    using creds cand assms(17)
    by (cases cand) (simp_all add: handle_sdp_group_def Let_def creds_sdp_def candidate_sdp_def set_first_byte_def)
  moreover have "repo_lookup (ns_repo (lib_do [AgentAddCandidate a c] t)) i = Some r'"
    using heap3 by (simp add: t_def)
  moreover have "\<exists>y. ns_heap (lib_do [AgentAddCandidate a c] t) r' = Some y \<and> Agent y = Some a'"
    by (simp add: t_def new_session_def)
  moreover have "ns_lib (lib_do [AgentAddCandidate a c] t) = ns_lib s @ close_calls x @
      [AgentNew a' (stun_uris (ns_cfg s) user pass) (nw_DisconnectedTimeout (ns_cfg s)),
       AgentGather a', AgentSetRemote a' u p, AgentAddCandidate a c]"
    by (simp add: t_def s3_def dialed_def same2 lib_do_def)
  moreover have "AgentGracefulClose a \<in> set (close_calls x)" using assms(6) by (simp add: close_calls_def)
  ultimately show ?thesis using ne by blast
qed

theorem shared_candidate_is_lost_witness:
  "\<exists>(s :: sample_call net) (t :: sample_call net) x a r' y. reachable sample_crypto s \<and> repo_lookup (ns_repo s) 1 = Some 0 \<and>
     ns_heap s 0 = Some x \<and> Agent x = Some a \<and> r' \<noteq> 0 \<and> repo_lookup (ns_repo t) 1 = Some r' \<and>
     ns_heap t r' = Some y \<and> Agent y = Some (Suc a) \<and> last (ns_lib t) = AgentAddCandidate a []"
proof -
  obtain s :: "sample_call net" and x a where s: "reachable sample_crypto s" "\<not> ns_closing s"
    "repo_lookup (ns_repo s) 1 = Some 0" "ns_heap s 0 = Some x" "Conn x \<noteq> None" "Agent x = Some a"
    using joined_example by (elim exE conjE) (rule that)
  let ?env = "sample_sdp\<lparr>se_recreate := sample_create\<lparr>ce_agent := Inr (Suc a)\<rparr>\<rparr>"
  have e: "Suc a \<noteq> a" "\<not> ge_ctx_done (se_get ?env)" "\<not> ge_ctx_done_get (se_get ?env)"
    "create_goes_well (se_recreate ?env)" "ce_creds (se_recreate ?env) = Inr (''u'', ''p'')"
    "ce_agent (se_recreate ?env) = Inr (Suc a)" "ce_local (se_recreate ?env) = Inr ([97], [98])"
    "se_set_remote ?env = Inr ()" "se_unmarshal ?env = Inr []" "se_add_candidate ?env = Inr ()"
    "[0 :: 8 word] \<noteq> []" "space_byte \<notin> set []" "space_byte \<notin> set []"
    by (simp_all add: sample_sdp_def sample_create_def create_goes_well_def)
  from shared_candidate_is_lost [OF s e] obtain t :: "sample_call net" and r' y
    where t: "repo_lookup (ns_repo t) 1 = Some r'" "r' \<noteq> 0" "ns_heap t r' = Some y" "Agent y = Some (Suc a)"
      and lib: "ns_lib t = ns_lib s @ close_calls x @
        [AgentNew (Suc a) (stun_uris (ns_cfg s) ''u'' ''p'') (nw_DisconnectedTimeout (ns_cfg s)),
         AgentGather (Suc a), AgentSetRemote (Suc a) [] [], AgentAddCandidate a []]"
    by (elim exE conjE) (rule that)
  have "last (ns_lib t) = AgentAddCandidate a []" by (simp add: lib)
  then show ?thesis
    using s(1,3,4,6) t
    by (intro exI [of _ s] exI [of _ t] exI [of _ x] exI [of _ a] exI [of _ r'] exI [of _ y] conjI)
qed

end
