(* ===== verification/Event_Stream.thy ===== *)
theory Event_Stream
  imports Handler_Api "HOL-Library.Multiset"
begin

text \<open>
  The event stream between two services: the goroutines of \<open>SendInEventStream\<close>, which encode events
  as JSON onto the session's stream, and the loop of \<open>proccessEventStream\<close>, which decodes them from
  whatever chunks arrive. Events arrive as they were sent; what is on the wire is their JSON text.
\<close>

section \<open>Sending\<close>

text \<open>
  The goroutine \<open>SendInEventStream\<close> starts for a session: \<open>EventEncoder.Encode(e)\<close> marshals the event,
  adds a line break and writes both to the secure stream at once; an error is logged.
\<close>

definition event_to :: "event \<Rightarrow> quic_stream \<Rightarrow> sref \<Rightarrow> 'c net \<Rightarrow> quic_stream res" where
  "event_to e stream r s =
     with_session r s (\<lambda>session.
       case EventEncoder session of
         None \<Rightarrow> Panic
       | Some (_, key) \<Rightarrow>
           Ok (ss_stream (snd (ss_write (json_of_event e @ [10]) \<lparr>ss_stream = stream, ss_aead = key\<rparr>))))"

fun events_to :: "event list \<Rightarrow> quic_stream \<Rightarrow> sref \<Rightarrow> 'c net \<Rightarrow> quic_stream res" where
  "events_to [] stream r s = Ok stream"
| "events_to (e # es) stream r s = go_bind (event_to e stream r s) (\<lambda>stream'. events_to es stream' r s)"

section \<open>Receiving\<close>

text \<open>Turns of the loop for values the decoder has found complete.\<close>

fun event_values ::
    "'c event_handler option \<Rightarrow> sref \<Rightarrow> json list \<Rightarrow> 'c net \<Rightarrow> ('c net \<times> bool) res" where
  "event_values h r [] s = Ok (s, True)"
| "event_values h r (v # vs) s =
     go_bind (process_event_turn h r (of_call (decode_event v)) s) (\<lambda>(t, go).
       if go then event_values h r vs t else Ok (t, False))"

text \<open>What the loop does with a chunk the stream's \<open>Read\<close> returned; malformed JSON ends it.\<close>

definition event_chunk ::
    "'c event_handler option \<Rightarrow> sref \<Rightarrow> bytes \<Rightarrow> json_state \<Rightarrow> 'c net \<Rightarrow> (json_state \<times> 'c net \<times> bool) res" where
  "event_chunk h r chunk js s =
     (case json_feed js chunk of
        (m, st, vs) \<Rightarrow>
          go_bind (event_values h r vs s) (\<lambda>(t, go).
            if \<not> go then Ok ((m, st, []), t, False)
            else if m = JBad
            then go_bind (process_event_turn h r (Err json_error) t) (\<lambda>(u, go'). Ok ((m, st, []), u, go'))
            else Ok ((m, st, []), t, True)))"

fun event_loop ::
    "'c event_handler option \<Rightarrow> sref \<Rightarrow> bytes list \<Rightarrow> json_state \<Rightarrow> 'c net \<Rightarrow> (json_state \<times> 'c net \<times> bool) res" where
  "event_loop h r [] js s = Ok (js, s, True)"
| "event_loop h r (chunk # chunks) js s =
     go_bind (event_chunk h r chunk js s) (\<lambda>(js', t, go).
       if go then event_loop h r chunks js' t else Ok (js', t, False))"

section \<open>The scanner and chunks\<close>

text \<open>Values that are complete do not matter to the scanner.\<close>

definition after_values :: "json list \<Rightarrow> json_state \<Rightarrow> json_state" where
  "after_values vs s = (case s of (m, st, ws) \<Rightarrow> (m, st, vs @ ws))"

lemma after_complete: "json_complete v st (vs @ ws) = after_values vs (json_complete v st ws)"
  by (cases "(v, st, ws)" rule: json_complete.cases) (simp_all add: after_values_def)

lemma after_next: "json_next c st (vs @ ws) = after_values vs (json_next c st ws)"
  by (cases "(c, st, ws)" rule: json_next.cases) (simp_all add: after_complete, simp_all add: after_values_def)

lemma after_begin: "json_begin c st (vs @ ws) = after_values vs (json_begin c st ws)"
  by (simp add: json_begin_def after_values_def)

lemma after_string: "json_string_end k x st (vs @ ws) = after_values vs (json_string_end k x st ws)"
  by (auto simp: json_string_end_def after_complete split: list.split json_frame.split) (simp_all add: after_values_def)

lemma after_byte: "json_byte (m, st, vs @ ws) c = after_values vs (json_byte (m, st, ws) c)"
  by (cases m)
    (simp_all add: after_begin after_next after_string after_complete split: list.split,
     simp_all add: after_values_def)

lemma after_step: "json_step (after_values vs s) c = after_values vs (json_step s c)"
proof -
  obtain m st ws where s: "s = (m, st, ws)" by (cases s)
  have b: "json_byte (after_values vs q) c = after_values vs (json_byte q c)" for q
    using after_byte [of _ _ vs _ c] by (cases q) (simp add: after_values_def)
  show ?thesis
  proof (cases m)
    case (JInNum n acc)
    then show ?thesis
      using b by (simp add: s json_step_def after_values_def [of vs "(JInNum _ _, _)"] after_complete split: option.split)
        (simp add: after_values_def)
  qed (use after_byte [of m st vs ws c] in \<open>simp_all add: s json_step_def after_values_def [of vs "(_, _, ws)"]\<close>)
qed

lemma after_feed: "json_feed (after_values vs s) bs = after_values vs (json_feed s bs)"
  by (induction bs arbitrary: s) (simp_all add: after_step)

lemma feed_bad: "json_feed (JBad, st, vs) bs = (JBad, st, vs)"
  by (induction bs) (simp_all add: json_step_def)

text \<open>Starting the handler for each event.\<close>

fun spawn_events :: "'c event_handler option \<Rightarrow> uuid \<Rightarrow> event list \<Rightarrow> 'c net \<Rightarrow> 'c net" where
  "spawn_events h i [] s = s"
| "spawn_events h i (e # es) s = spawn_events h i es (spawn_event h i e s)"

lemma spawn_events_append: "spawn_events h i (es @ fs) s = spawn_events h i fs (spawn_events h i es s)"
  by (induction es arbitrary: s) simp_all

lemma spawn_events_heap [simp]: "ns_heap (spawn_events h i es s) = ns_heap s"
  by (induction es arbitrary: s) (simp_all add: spawn_event_def split: option.split)

lemma spawn_events_started:
  "ns_spawned (spawn_events (Some f) i es s) = ns_spawned s @ map (f i) es"
  "ns_calls (spawn_events (Some f) i es s) = ns_calls s"
  by (induction es arbitrary: s) (simp_all add: spawn_event_def)

lemma event_values_ok:
  assumes "ns_heap s r = Some x" "map decode_event vs = map Inr es"
  shows "event_values h r vs s = Ok (spawn_events h (UserID x) es s, True)"
  using assms
proof (induction vs arbitrary: es s)
  case (Cons v vs)
  then obtain e es' where es: "es = e # es'" "decode_event v = Inr e" "map decode_event vs = map Inr es'"
    by (cases es) auto
  have "ns_heap (spawn_event h (UserID x) e s) r = Some x"
    using Cons.prems(1) by (simp add: spawn_event_def split: option.split)
  from Cons.IH [OF this es(3)] show ?case
    using Cons.prems(1) es by (simp add: process_event_turn_def)
qed simp

text \<open>The loop hands on the values in order, however the bytes are split into chunks.\<close>

lemma event_loop_chunks:
  assumes "json_feed (m, st, []) (concat chunks) = (m', st', vs)" "m' \<noteq> JBad"
    and "ns_heap s r = Some x" "map decode_event vs = map Inr es"
  shows "event_loop h r chunks (m, st, []) s = Ok ((m', st', []), spawn_events h (UserID x) es s, True)"
  using assms
proof (induction chunks arbitrary: m st s vs es)
  case (Cons chunk chunks)
  obtain m1 st1 vs1 where one: "json_feed (m, st, []) chunk = (m1, st1, vs1)" by (cases "json_feed (m, st, []) chunk")
  obtain m2 st2 vs2 where two: "json_feed (m1, st1, []) (concat chunks) = (m2, st2, vs2)"
    by (cases "json_feed (m1, st1, []) (concat chunks)")
  have "json_feed (m1, st1, vs1) (concat chunks) = (m2, st2, vs1 @ vs2)"
    using after_feed [of vs1 "(m1, st1, [])" "concat chunks"] two by (simp add: after_values_def)
  then have eq: "m2 = m'" "st2 = st'" "vs = vs1 @ vs2" using Cons.prems(1) one by simp_all
  have good: "m1 \<noteq> JBad" using two eq(1) Cons.prems(2) feed_bad by auto
  obtain es1 es2 where es: "es = es1 @ es2" "map decode_event vs1 = map Inr es1" "map decode_event vs2 = map Inr es2"
    using Cons.prems(4) eq(3) by (auto simp: append_eq_map_conv)
  have "event_chunk h r chunk (m, st, []) s = Ok ((m1, st1, []), spawn_events h (UserID x) es1 s, True)"
    using one good event_values_ok [OF Cons.prems(3) es(2)] by (simp add: event_chunk_def)
  moreover have "event_loop h r chunks (m1, st1, []) (spawn_events h (UserID x) es1 s) =
      Ok ((m', st', []), spawn_events h (UserID x) es2 (spawn_events h (UserID x) es1 s), True)"
    using Cons.IH [of m1 st1 vs2 "spawn_events h (UserID x) es1 s" es2] two eq Cons.prems(2,3) es(3) by simp
  ultimately show ?case using es(1) by (simp add: spawn_events_append)
qed simp

section \<open>The goroutines of the handler\<close>

text \<open>The goroutines that were started run in any order, and in every order.\<close>

abbreviation run_all :: "nat list \<Rightarrow> 'c net \<Rightarrow> 'c net" where
  "run_all ks s \<equiv> fold run_spawned ks s"

lemma run_spawned_one:
  assumes "k < length (ns_spawned s)"
  shows "ns_calls (run_spawned k s) = ns_calls s @ ns_spawned s ! k"
    "add_mset (ns_spawned s ! k) (mset (ns_spawned (run_spawned k s))) = mset (ns_spawned s)"
proof -
  show "ns_calls (run_spawned k s) = ns_calls s @ ns_spawned s ! k" using assms by (simp add: run_spawned_def)
  have "mset (ns_spawned s) = mset (take k (ns_spawned s) @ ns_spawned s ! k # drop (Suc k) (ns_spawned s))"
    using id_take_nth_drop [OF assms] by simp
  then show "add_mset (ns_spawned s ! k) (mset (ns_spawned (run_spawned k s))) = mset (ns_spawned s)"
    using assms by (simp add: run_spawned_def)
qed

lemma run_all_once:
  "\<exists>ds. mset (ns_spawned s) = mset ds + mset (ns_spawned (run_all ks s)) \<and>
     ns_calls (run_all ks s) = ns_calls s @ concat ds"
proof (induction ks arbitrary: s)
  case (Cons k ks)
  show ?case
  proof (cases "k < length (ns_spawned s)")
    case True
    obtain ds where ds: "mset (ns_spawned (run_spawned k s)) = mset ds + mset (ns_spawned (run_all ks (run_spawned k s)))"
      "ns_calls (run_all ks (run_spawned k s)) = ns_calls (run_spawned k s) @ concat ds" using Cons.IH by blast
    then show ?thesis
      using run_spawned_one [OF True] by (intro exI [of _ "ns_spawned s ! k # ds"]) auto
  next
    case False
    then show ?thesis using Cons.IH [of s] by (simp add: run_spawned_def)
  qed
qed simp

lemma run_all_any:
  "mset ds = mset (ns_spawned s) \<Longrightarrow>
     \<exists>ks. ns_spawned (run_all ks s) = [] \<and> ns_calls (run_all ks s) = ns_calls s @ concat ds"
proof (induction ds arbitrary: s)
  case Nil
  then show ?case by (intro exI [of _ "[]"]) simp
next
  case (Cons d ds)
  then have "d \<in> set (ns_spawned s)" by (metis list.set_intros(1) set_mset_mset)
  then obtain k where k: "k < length (ns_spawned s)" "ns_spawned s ! k = d" by (auto simp: in_set_conv_nth)
  have "mset ds = mset (ns_spawned (run_spawned k s))"
    using run_spawned_one(2) [OF k(1)] Cons.prems k(2) by (metis add_mset_add_mset_same_iff mset.simps(2))
  from Cons.IH [OF this] obtain ks where "ns_spawned (run_all ks (run_spawned k s)) = []"
    "ns_calls (run_all ks (run_spawned k s)) = ns_calls (run_spawned k s) @ concat ds" by blast
  then show ?case using run_spawned_one(1) [OF k(1)] k(2) by (intro exI [of _ "k # ks"]) simp
qed

lemma run_all_orders:
  "(\<exists>ks. ns_spawned (run_all ks s) = [] \<and> ns_calls (run_all ks s) = cs) \<longleftrightarrow>
     (\<exists>ds. mset ds = mset (ns_spawned s) \<and> cs = ns_calls s @ concat ds)" (is "?L \<longleftrightarrow> ?R")
proof
  assume ?L
  then obtain ks where ks: "ns_spawned (run_all ks s) = []" "ns_calls (run_all ks s) = cs" by blast
  from run_all_once [of s ks] show ?R using ks by auto
next
  assume ?R
  then show ?L using run_all_any [of _ s] by blast
qed

section \<open>Both sides\<close>

text \<open>The text of events: each with the line break the encoder adds.\<close>

definition event_text :: "event list \<Rightarrow> bytes" where
  "event_text es = concat (map (\<lambda>e. json_of_event e @ [10]) es)"

lemma feed_events: "json_feed (JWant, [], vs) (event_text es) = (JWant, [], vs @ map event_value es)"
proof (induction es arbitrary: vs)
  case (Cons e es)
  have "json_step (JWant, [], ws) 10 = (JWant, [], ws)" for ws by (simp add: json_step_def json_space_def)
  then show ?case using Cons by (simp add: event_text_def feed_event)
qed (simp add: event_text_def)

lemma events_to_text:
  assumes "ns_heap a ra = Some xa" "EventEncoder xa \<noteq> None" "is_writer out" "qs_write_err out = None"
  shows "events_to es out ra a = Ok (out\<lparr>qs_out := qs_out out @ event_text es\<rparr>)"
  using assms(3,4)
proof (induction es arbitrary: out)
  case (Cons e es)
  let ?out = "out\<lparr>qs_out := qs_out out @ json_of_event e @ [10]\<rparr>"
  have "event_to e out ra a = Ok ?out"
    using assms(1,2) Cons.prems by (auto simp: event_to_def ss_write_def stream_write_def)
  moreover have "events_to es ?out ra a = Ok (?out\<lparr>qs_out := qs_out ?out @ event_text es\<rparr>)"
    using Cons.prems by (intro Cons.IH) (simp_all add: is_writer_def)
  ultimately show ?case by (simp add: event_text_def)
qed (simp add: event_text_def)

lemma event_values_decode: "list_all event_ok es \<Longrightarrow> map decode_event (map event_value es) = map Inr es"
  by (induction es) (simp_all add: event_value_decodes)

lemma mset_map_order: "mset ds = image_mset g (mset es) \<Longrightarrow> \<exists>fs. mset fs = mset es \<and> ds = map g fs"
proof (induction ds arbitrary: es)
  case (Cons d ds)
  then have "d \<in> g ` set es" by (metis list.set_intros(1) set_image_mset set_mset_mset)
  then obtain e where e: "e \<in> set es" "d = g e" by blast
  have "mset es = add_mset e (mset (remove1 e es))" using e(1) by simp
  then have "add_mset (g e) (mset ds) = add_mset (g e) (image_mset g (mset (remove1 e es)))"
    using Cons.prems e(2) by (metis image_mset_add_mset mset.simps(2))
  then have "mset ds = image_mset g (mset (remove1 e es))" by simp
  from Cons.IH [OF this] obtain fs where "mset fs = mset (remove1 e es)" "ds = map g fs" by blast
  then show ?case using e by (intro exI [of _ "e # fs"]) simp
qed simp

lemma handlers_orders:
  assumes "ns_spawned b = map g es" "ns_calls b = cs"
  shows "{ns_calls (run_all ks b) |ks. ns_spawned (run_all ks b) = []} =
    {cs @ concat (map g fs) |fs. mset fs = mset es}"
proof -
  have perm: "(\<exists>ds. mset ds = mset (map g es) \<and> c = cs @ concat ds) \<longleftrightarrow>
      (\<exists>fs. mset fs = mset es \<and> c = cs @ concat (map g fs))" for c
  proof
    assume "\<exists>ds. mset ds = mset (map g es) \<and> c = cs @ concat ds"
    then obtain ds where ds: "mset ds = image_mset g (mset es)" "c = cs @ concat ds" by auto
    then obtain fs where "mset fs = mset es" "ds = map g fs" using mset_map_order by blast
    then show "\<exists>fs. mset fs = mset es \<and> c = cs @ concat (map g fs)" using ds(2) by blast
  next
    assume "\<exists>fs. mset fs = mset es \<and> c = cs @ concat (map g fs)"
    then obtain fs where "mset fs = mset es" "c = cs @ concat (map g fs)" by blast
    then show "\<exists>ds. mset ds = mset (map g es) \<and> c = cs @ concat ds" by (intro exI [of _ "map g fs"]) simp
  qed
  have "(\<exists>ks. ns_spawned (run_all ks b) = [] \<and> ns_calls (run_all ks b) = c) \<longleftrightarrow>
      (\<exists>fs. mset fs = mset es \<and> c = cs @ concat (map g fs))" for c
    unfolding run_all_orders assms(2) using perm assms(1) by simp
  then show ?thesis by (intro equalityI subsetI; simp; metis)
qed

text \<open>
  C9: events sent through the API reach the peer's event callback, each once and unchanged, however the stream
  splits the bytes into chunks: the loop starts one goroutine per event, in the order the events were
  written, and goes on. What the callbacks do in the end is what they do for these events in some order,
  and every order is possible: the order of the events is not kept.
\<close>

theorem event_end_to_end:
  assumes "repo_lookup (ns_repo a) i = Some ra" "ns_heap a ra = Some xa" "Conn xa \<noteq> None"
    and "EventStream xa \<noteq> None" "EventEncoder xa \<noteq> None"
    and "is_writer out" "qs_out out = []" "qs_write_err out = None" "list_all event_ok es"
    and "ns_heap b rb = Some xb" "ns_spawned b = []"
  shows "\<exists>rs out'. api_send_event False a = Ok rs \<and> ra \<in> set rs \<and> events_to es out ra a = Ok out' \<and>
    (\<forall>chunks. concat chunks = qs_out out' \<longrightarrow>
       (\<exists>js b'. event_loop (Some f) rb chunks json_start b = Ok (js, b', True) \<and>
          ns_spawned b' = map (f (UserID xb)) es \<and>
          {ns_calls (run_all ks b') |ks. ns_spawned (run_all ks b') = []} =
            {ns_calls b @ concat (map (f (UserID xb)) fs) |fs. mset fs = mset es}))"
proof -
  have mem: "(i, ra) \<in> set (ns_repo a)" using assms(1) by (simp add: repo_lookup_def map_of_SomeD)
  then have ne: "ns_repo a \<noteq> []" by auto
  have "has_conn a ra \<and> has_event_stream a ra" using assms(2-4) by (simp add: has_conn_def has_event_stream_def)
  moreover have "api_send_event False a = Ok (filter (\<lambda>r. has_conn a r \<and> has_event_stream a r) (map snd (ns_repo a)))"
    using ne by (simp add: api_send_event_def send_in_event_stream_def stored_sessions_def repo_fetch_map api_result_def)
  moreover have "ra \<in> set (map snd (ns_repo a))" using mem by force
  moreover have "events_to es out ra a = Ok (out\<lparr>qs_out := event_text es\<rparr>)"
    using events_to_text [OF assms(2,5,6,8)] assms(7) by simp
  moreover have "event_loop (Some f) rb chunks json_start b =
      Ok ((JWant, [], []), spawn_events (Some f) (UserID xb) es b, True)" if "concat chunks = event_text es" for chunks
    using event_loop_chunks [OF _ _ assms(10) event_values_decode [OF assms(9)]] feed_events [of "[]" es] that
    by (simp add: json_start_def)
  moreover have "{ns_calls (run_all ks b') |ks. ns_spawned (run_all ks b') = []} =
      {ns_calls b @ concat (map (f (UserID xb)) fs) |fs. mset fs = mset es}"
    if "ns_spawned b' = map (f (UserID xb)) es" "ns_calls b' = ns_calls b" for b'
    by (rule handlers_orders [OF that])
  ultimately show ?thesis using assms(11) by (auto simp: spawn_events_started)
qed

text \<open>
  C39: the session's key has no part in it. Whatever key the session has, the bytes \<open>SendInEventStream\<close> puts on
  the stream are the same, and a decoder without any key reads the events from them; only the QUIC
  connection, whose certificates are not verified, hides them.
\<close>

theorem events_readable_without_key:
  assumes "ns_heap a ra = Some xa" "EventEncoder xa = Some (e0, key)" "is_writer out" "qs_out out = []"
    and "qs_write_err out = None" "list_all event_ok es"
  shows "\<exists>out'. events_to es out ra a = Ok out' \<and>
    events_to es out ra (set_session ra (xa\<lparr>EventEncoder := Some (e0, key')\<rparr>) a) = Ok out' \<and>
    (\<exists>vs. json_feed json_start (qs_out out') = (JWant, [], vs) \<and> map decode_event vs = map Inr es)"
proof -
  have "events_to es out ra a = Ok (out\<lparr>qs_out := event_text es\<rparr>)"
    using events_to_text [OF assms(1) _ assms(3,5)] assms(2,4) by simp
  moreover have "events_to es out ra (set_session ra (xa\<lparr>EventEncoder := Some (e0, key')\<rparr>) a) =
      Ok (out\<lparr>qs_out := event_text es\<rparr>)"
    using events_to_text [of "set_session ra (xa\<lparr>EventEncoder := Some (e0, key')\<rparr>) a" ra _ out es] assms(3-5) by simp
  moreover have "json_feed json_start (event_text es) = (JWant, [], map event_value es)"
    using feed_events [of "[]" es] by (simp add: json_start_def)
  ultimately show ?thesis using event_values_decode [OF assms(6)] by simp
qed

text \<open>A service with a joined peer, as sender and as receiver.\<close>

definition event_session :: session where
  "event_session = sample_session\<lparr>EventStream := Some 3, EventEncoder := Some (3, Key sample_session),
     EventDecoder := Some (3, Key sample_session), ReadyChan := (make_chan 1)\<lparr>ch_closed := True\<rparr>\<rparr>"

definition event_net :: "sample_call net" where
  "event_net = set_session 0 event_session sample_net"

definition two_events :: "event list" where
  "two_events = [mute_mic_event 1700000000 True, webcam_key_frame_event 1700000001]"

lemma event_net_simps:
  "repo_lookup (ns_repo event_net) 7 = Some 0" "ns_heap event_net 0 = Some event_session"
  "Conn event_session \<noteq> None" "EventStream event_session \<noteq> None" "EventEncoder event_session \<noteq> None"
  "is_writer (sample_stream BidiStream [])" "qs_out (sample_stream BidiStream []) = []"
  "qs_write_err (sample_stream BidiStream []) = None" "list_all event_ok two_events"
  by (simp_all add: event_net_def event_session_def sample_session_def sample_net_def new_networking_serv_def
      repo_lookup_def is_writer_def sample_stream_def two_events_def event_ok_def mute_mic_event_def
      state_event_def webcam_key_frame_event_def)

lemma event_net_spawned: "ns_spawned event_net = []"
  by (simp add: event_net_def sample_net_def new_networking_serv_def)

theorem event_end_to_end_witness:
  "\<exists>rs out'. api_send_event False event_net = Ok rs \<and> 0 \<in> set rs \<and>
    events_to two_events (sample_stream BidiStream []) 0 event_net = Ok out' \<and>
    (\<forall>chunks. concat chunks = qs_out out' \<longrightarrow>
       (\<exists>js b'. event_loop (Some (\<lambda>i e. [GotChat i (Data e)])) 0 chunks json_start event_net = Ok (js, b', True) \<and>
          ns_spawned b' = map (\<lambda>e. [GotChat (UserID event_session) (Data e)]) two_events \<and>
          {ns_calls (run_all ks b') |ks. ns_spawned (run_all ks b') = []} =
            {ns_calls event_net @ concat (map (\<lambda>e. [GotChat (UserID event_session) (Data e)]) fs) |fs.
               mset fs = mset two_events}))"
  by (rule event_end_to_end [OF event_net_simps event_net_simps(2) event_net_spawned])

theorem events_readable_without_key_witness:
  "\<exists>out'. events_to two_events (sample_stream BidiStream []) 0 event_net = Ok out' \<and>
    events_to two_events (sample_stream BidiStream []) 0
      (set_session 0 (event_session\<lparr>EventEncoder := Some (3, [])\<rparr>) event_net) = Ok out' \<and>
    (\<exists>vs. json_feed json_start (qs_out out') = (JWant, [], vs) \<and> map decode_event vs = map Inr two_events)"
proof -
  have "EventEncoder event_session = Some (3, Key sample_session)" by (simp add: event_session_def)
  from events_readable_without_key [OF event_net_simps(2) this event_net_simps(6-9)] show ?thesis .
qed

end
