(* ===== verification/Spec2Isabelle.thy ===== *)
theory Spec2Isabelle
  imports App_Run Fetch_Answers Packet_Conn Handshake Event_Stream
begin

text \<open>
  A model of the peer-to-peer networking library aloh-networking and the theorems that make it
  correct.

  \<^bold>\<open>The program.\<close> A user's process holds one \<open>Netwoking\<close> object (root package). Its methods go through
  the handler (\<open>internal/handlers\<close>), which frames data and turns errors into codes, to the networking
  service (\<open>internal/domain/services/networking\<close>). The service keeps one session per peer in a store
  (\<open>internal/domain/repository\<close>), connects through ICE and QUIC, encrypts with the session's key
  (\<open>internal/domain/e2ee\<close>) and talks to the signaling server through a client (\<open>internal/client\<close>) that
  serves and renews its own connection. \<open>internal/app\<close> wires the parts together with one context and
  two channels.

  \<^bold>\<open>The theories\<close>, in the order of their imports.
  \<^item> \<open>Go_Prelude\<close>, \<open>Go_Errors\<close>, \<open>Go_Chan\<close>: machine types; the outcome of a Go call (value, error, panic);
    \<open>pkg/errs\<close> and \<open>CheckErr\<close>; buffered channels, with the contract of a bounded queue as the locale
    \<open>bounded_queue\<close>, interpreted on the channel.
  \<^item> \<open>Sparse_Log\<close>, \<open>Config_Model\<close>, \<open>Wire\<close>: \<open>pkg/logger\<close>; \<open>config\<close> and the TLS and QUIC parameters made
    from it; the bytes peers exchange.
  \<^item> \<open>Json\<close>, \<open>Json_Codec\<close>: what the program uses of \<open>encoding/json\<close>: the scanner as a state machine over
    bytes, strings, integers, base64, and the decoding of an object into a struct.
  \<^item> \<open>Json_Ids\<close>: the JSON of user ids in the server's answers. How one id is written is \<open>google/uuid\<close>'s,
    the record \<open>uuid_lib\<close> with its documented law \<open>uuid_ok\<close>, which the canonical form meets.
  \<^item> \<open>E2EE\<close>: \<open>e2ee.go\<close>, \<open>secure-stream.go\<close>, \<open>secure-datagram.go\<close> and \<open>setupE2EE\<close>. The cryptographic
    primitives are the record \<open>crypto\<close>; \<open>gcm_ok\<close> and \<open>x25519_ok\<close> state what their documentation promises.
    Round trips, authenticity, key agreement, and where deciphering panics.
  \<^item> \<open>Session_Repo\<close>: \<open>session.go\<close>, \<open>session-repo.go\<close>. The store maps ids to references; the interface
    \<open>SessionRepository\<close> is the locale \<open>session_store\<close>, interpreted on the store; the store refines a
    partial map.
  \<^item> \<open>Net_State\<close>, \<open>Net_Session\<close>, \<open>Net_Connect\<close>, \<open>Net_Service\<close>: the state of \<open>networkingServ\<close>; what
    happens to one session (\<open>processData\<close>, the processors, the receiving loops turn by turn,
    \<open>disconnectSession\<close>, \<open>resetSession\<close>); how a session comes to be (\<open>createSession\<close>,
    \<open>establishConnection\<close>, \<open>receiveConnects\<close> with its \<open>singleflight\<close> group, reconnecting); the
    operations of \<open>network-serv.go\<close>. The goroutine that establishes a session is modelled in turns, one
    from each program point (\<open>est_phase\<close>) to the next, so that anything may happen between the connection
    being set, the keys being exchanged, the event stream, the user's handler, the closing of \<open>ReadyChan\<close>
    and the reset after a failure; \<open>establish_goroutine\<close> is the same code run without interruption.
  \<^item> \<open>Net_Session_Props\<close>, \<open>Net_Connect_Props\<close>, \<open>Net_Establish\<close>, \<open>Net_Service_Props\<close>: their properties.
    \<open>net_ok\<close> is the invariant of a service.
  \<^item> \<open>Net_Turns\<close>: a goroutine that runs on its own goes through its turns, and no turn panics.
  \<^item> \<open>Net_Effects\<close>, \<open>Net_Run\<close>: the effect of every operation on the part of the state that decides who
    is connected, and the service as a step relation (one atomic part of a call, goroutine or callback
    per step, in any order) with its reachable states.
  \<^item> \<open>Net_Refine\<close>, \<open>Net_Sdp\<close>, \<open>Handshake\<close>, \<open>Net_Closing\<close>: every step of the service is a sequence of steps
    of an abstract directory of peers; messages that share a \<open>singleflight\<close> call and messages handled one by one
    come to the same; two services that connect to each other; after the context is cancelled the
    goroutines of the service end.
  \<^item> \<open>Packet_Conn\<close>: \<open>wrapper.go\<close>, over a parameter for \<open>ice.Conn\<close>.
  \<^item> \<open>Signaling_Client\<close>, \<open>Signaling_Props\<close>: requests, the table of pending responses, the three workers
    of a connection, registration, serving and closing; any interleaving of requests, responses and
    loss of the connection is the relation \<open>sig_run\<close>.
  \<^item> \<open>Signaling_Run\<close>: the life of the client as a step relation: one connection after the other, each with
    its three workers, until the context is cancelled; what holds in every run, and that it stops.
  \<^item> \<open>Events\<close>, \<open>Event_Stream\<close>: \<open>event.go\<close> and the JSON of events and their data; events from
    \<open>SendInEventStream\<close> over a byte stream, cut into chunks anywhere, to the peer's callback, which runs
    in a goroutine of its own for each event, in any order.
  \<^item> \<open>Handler_Api\<close>, \<open>App_Init\<close>, \<open>Root_Api\<close>: the handler; start and stop; the root package's methods.
  \<^item> \<open>Fetch_Answers\<close>: a fetch through all layers, from the API to the bytes of the server's answer.
  \<^item> \<open>App_Run\<close>: runs of the whole process: the service, the signaling client and the goroutine
    \<open>receiveConnects\<close> between them, with \<open>Delete\<close> as one of the steps.
  \<^item> This theory: what one user sends is what the other user's callback gets.

  \<^bold>\<open>Conventions.\<close> A pointer to a session is a reference into a heap, because goroutines keep it after the
  store dropped it. What a library (ICE, QUIC, JSON of foreign structs) or the server returns
  is an argument: a record of answers per operation, one field per call in the order of the code, or
  a parameter function. What a context or a \<open>select\<close> decides is an argument too, and so is the order
  in which goroutines run that an operation waits for. An operation that blocks is \<open>None\<close>; the
  theorems say when it does. User callbacks and requests are recorded in order. A loop is modelled by
  one turn; the step relations iterate it, so no fuel is used. Between two turns of a goroutine any other
  may run; \<open>createSession\<close>, \<open>disconnectSession\<close> and \<open>resetSession\<close> are one step each, and so are setting
  the event stream with its coders, and starting the loops of a session with closing \<open>ReadyChan\<close>. There is
  one bound of turns: \<open>voice_drain\<close> takes one, and 100, the channel's capacity, is enough for it.

  \<^bold>\<open>Not modelled\<close>: logging of single records by the operations (only that sampling may panic), back-off
  delays and durations, what TLS and QUIC make of their parameters, data races on fields that Go does
  not order, the JSON of the structs the signaling server's package declares (an argument of the
  operations that use it), and rendezvous on unbuffered channels (the configured buffer sizes are taken
  to be positive). The ICE agent's \<open>GracefulClose\<close> is a call that returns; that its documentation rules it
  out inside a callback of the agent is not in the model. \<open>src/cmd\<close> is commented out entirely.

  \<^bold>\<open>Plan.\<close> Further work: the process of one user beside that of the other as one transition system, with
  the server between them as a parameter.
\<close>

section \<open>From one user to the other\<close>

text \<open>What one goroutine of \<open>SendInStream\<close> writes, and what the peer makes of these bytes.\<close>

lemma stream_transfer:
  assumes "gcm_ok cr" "aes_key (Key xa)" "12 \<le> length rnd" "ns_heap a ra = Some xa"
    "is_writer out" "qs_out out = []" "qs_write_err out = None" "is_reader inc" "qs_read_err inc = None"
    "ns_heap b rb = Some xb" "Key xb = Key xa" "nw_DatagramLogTargetCount (ns_cfg b) \<noteq> 0" "data \<noteq> []"
  shows "\<exists>out'. stream_to cr rnd data (Inr out) ra a = Ok (Some out', a) \<and>
    handle_uni_stream cr n rb (inc\<lparr>qs_in := qs_out out'\<rparr>) b = process_data rb data b"
proof -
  obtain ct where ct: "cipher_payload cr (Key xa) rnd data = Ok ct"
    using cipher_payload_Ok [OF assms(3)] by blast
  define out' where "out' = ss_stream (snd (ss_close \<lparr>ss_stream = out\<lparr>qs_out := ct\<rparr>, ss_aead = Key xa\<rparr>))"
  have "qs_out out' = ct"
    by (cases "qs_close_err out") (simp_all add: out'_def ss_close_def is_closer_def stream_close_def)
  moreover have "stream_to cr rnd data (Inr out) ra a = Ok (Some out', a)"
    using assms(2,4-7) ct
    by (simp add: stream_to_def new_secure_stream_def new_aescm_key ss_send_def stream_write_def out'_def)
  moreover have "handle_uni_stream cr n rb (inc\<lparr>qs_in := ct\<rparr>) b = process_data rb data b"
    using assms(2,8-13) payload_roundtrip(1) [OF assms(1,3) ct]
    by (simp add: handle_uni_stream_def new_secure_stream_def new_aescm_key ss_receive_def
        is_reader_def io_read_all_def sparse_guard_def Suc_le_eq)
  ultimately show ?thesis by auto
qed

text \<open>
  What one goroutine of \<open>SendDatagram\<close> puts on the connection, and what the peer's goroutine for it
  makes of it: the same as of a stream with the same data, at 28 bytes more on the wire.
\<close>

lemma datagram_transfer:
  assumes "gcm_ok cr" "aes_key (Key xa)" "12 \<le> length rnd" "ns_heap a ra = Some xa"
    "ns_heap b rb = Some xb" "Key xb = Key xa" "nw_DatagramLogTargetCount (ns_cfg b) \<noteq> 0" "data \<noteq> []"
  shows "\<exists>ct. datagram_to cr rnd data ra a = Ok (Some ct) \<and> length ct = length data + 28 \<and>
    handle_datagram cr n rb ct b = process_data rb data b"
proof -
  obtain ct where "cipher_datagram cr rnd data (Key xa) = Ok ct" "decipher_datagram cr ct (Key xa) = Ok data"
    "length ct = length data + 28"
    using datagram_roundtrip [OF assms(1,2,3)] by blast
  then show ?thesis
    using assms(4-8) by (simp add: datagram_to_def handle_datagram_def sparse_guard_def Suc_le_eq)
qed

lemma stored_is_target:
  assumes "nw_DatagramLogTargetCount (ns_cfg a) \<noteq> 0" "repo_lookup (ns_repo a) i = Some ra"
    "ns_heap a ra = Some xa" "Conn xa \<noteq> None" "ch_closed (ReadyChan xa)"
  shows "\<exists>rs a'. send_in_stream False (t # data) a = (Ok rs, a') \<and> ra \<in> set rs \<and> ns_heap a' = ns_heap a"
proof -
  have mem: "(i, ra) \<in> set (ns_repo a)" using assms(2) by (simp add: repo_lookup_def map_of_SomeD)
  have "has_conn a ra \<and> session_ready a ra"
    using assms(3-5) by (simp add: has_conn_def session_ready_def chan_recv_blocks_iff)
  moreover have "fst (send_in_stream False (t # data) a) =
      Ok (filter (\<lambda>r. has_conn a r \<and> session_ready a r) (map snd (ns_repo a)))"
    using mem send_in_stream_framed [OF assms(1), of False t data] by auto
  moreover have "ns_heap (snd (send_in_stream False (t # data) a)) = ns_heap a"
    by (simp add: send_in_stream_def Let_def)
  moreover have "ra \<in> set (map snd (ns_repo a))" using mem by force
  ultimately show ?thesis by (cases "send_in_stream False (t # data) a") auto
qed

text \<open>
  C1: a chat message sent through the API reaches the peer as it was sent: the call starts a
  goroutine for the established session, which encrypts it onto a stream; the peer's session with
  the same key decrypts it and calls the registered callback once, with the sender's id and the
  message; only an empty message is dropped.
\<close>

theorem message_end_to_end:
  assumes "gcm_ok cr" "aes_key (Key xa)" "12 \<le> length rnd"
    and "nw_DatagramLogTargetCount (ns_cfg a) \<noteq> 0" "repo_lookup (ns_repo a) i = Some ra"
    and "ns_heap a ra = Some xa" "Conn xa \<noteq> None" "ch_closed (ReadyChan xa)"
    and "is_writer out" "qs_out out = []" "qs_write_err out = None"
    and "is_reader inc" "qs_read_err inc = None"
    and "nw_DatagramLogTargetCount (ns_cfg b) \<noteq> 0" "ns_heap b rb = Some xb" "Key xb = Key xa"
    and "onChatHandler (ns_handlers b) = Some (non_empty cb)"
  shows "\<exists>rs a' out' b'. api_send_message False msg a = (Ok rs, a') \<and> ra \<in> set rs \<and>
    stream_to cr rnd (set_first_byte (msg_byte CHAT) msg) (Inr out) ra a' = Ok (Some out', a') \<and>
    handle_uni_stream cr n rb (inc\<lparr>qs_in := qs_out out'\<rparr>) b = Ok b' \<and>
    ns_calls b' = ns_calls b @ (if msg = [] then [] else cb (UserID xb) msg)"
proof -
  obtain rs a' where s: "send_in_stream False (msg_byte CHAT # msg) a = (Ok rs, a')" "ra \<in> set rs"
    "ns_heap a' = ns_heap a"
    using stored_is_target [OF assms(4-8)] by blast
  have heap: "ns_heap a' ra = Some xa" using s(3) assms(6) by simp
  obtain out' where o: "stream_to cr rnd (msg_byte CHAT # msg) (Inr out) ra a' = Ok (Some out', a')"
    "handle_uni_stream cr n rb (inc\<lparr>qs_in := qs_out out'\<rparr>) b = process_data rb (msg_byte CHAT # msg) b"
    using stream_transfer [OF assms(1-3) heap assms(9-13,15,16,14), of "msg_byte CHAT # msg"] by blast
  have "process_data rb (msg_byte CHAT # msg) b =
      Ok (b\<lparr>ns_calls := ns_calls b @ non_empty cb (UserID xb) msg\<rparr>)"
    using assms(15,17) by (simp add: process_data_def call_data_def)
  then show ?thesis using s o by (simp add: api_send_message_def non_empty_def)
qed

definition chat_net :: "sample_call net" where
  "chat_net = register_on_chat (Some (\<lambda>i p. [GotChat i p])) sample_net"

lemma chat_net_simps:
  "ns_heap chat_net 0 = Some sample_session" "ns_cfg chat_net = sample_cfg"
  "onChatHandler (ns_handlers chat_net) = Some (non_empty (\<lambda>i p. [GotChat i p]))"
  "ns_calls chat_net = []"
  by (simp_all add: chat_net_def register_on_chat_def save_chat_handler_def)
    (simp_all add: sample_net_def new_networking_serv_def)

lemma sample_key: "aes_key (Key sample_session)" "Conn sample_session = Some 2"
  by (simp_all add: aes_key_def sample_session_def)

text \<open>What the sender and the streams of the witnesses satisfy.\<close>

lemma sample_sender:
  "aes_key (Key (sample_session\<lparr>ReadyChan := (make_chan 1)\<lparr>ch_closed := True\<rparr>\<rparr>))"
  "(12 :: nat) \<le> length (replicate 12 (5 :: byte))"
  "nw_DatagramLogTargetCount (ns_cfg ready_net) \<noteq> 0" "repo_lookup (ns_repo ready_net) 7 = Some 0"
  "ns_heap ready_net 0 = Some (sample_session\<lparr>ReadyChan := (make_chan 1)\<lparr>ch_closed := True\<rparr>\<rparr>)"
  "Conn (sample_session\<lparr>ReadyChan := (make_chan 1)\<lparr>ch_closed := True\<rparr>\<rparr>) \<noteq> None"
  "ch_closed (ReadyChan (sample_session\<lparr>ReadyChan := (make_chan 1)\<lparr>ch_closed := True\<rparr>\<rparr>))"
  "is_writer (sample_stream SendStream [])" "qs_out (sample_stream SendStream []) = []"
  "qs_write_err (sample_stream SendStream []) = None" "is_reader (sample_stream ReceiveStream [])"
  "qs_read_err (sample_stream ReceiveStream []) = None"
  using sample_key
  by (simp_all add: sample_cfg_def repo_lookup_def sample_stream_def is_writer_def is_reader_def)

lemma sample_receiver:
  "nw_DatagramLogTargetCount (ns_cfg chat_net) \<noteq> 0"
  "Key sample_session = Key (sample_session\<lparr>ReadyChan := (make_chan 1)\<lparr>ch_closed := True\<rparr>\<rparr>)"
  by (simp_all add: chat_net_simps sample_cfg_def)

theorem message_end_to_end_witness:
  "\<exists>rs a' out' b'. api_send_message False [72, 105] ready_net = (Ok rs, a') \<and> 0 \<in> set rs \<and>
     stream_to sample_crypto (replicate 12 5) (set_first_byte (msg_byte CHAT) [72, 105])
       (Inr (sample_stream SendStream [])) 0 a' = Ok (Some out', a') \<and>
     handle_uni_stream sample_crypto 1 0 ((sample_stream ReceiveStream [])\<lparr>qs_in := qs_out out'\<rparr>) chat_net = Ok b' \<and>
     ns_calls b' = ns_calls chat_net @
       (if [72, 105 :: byte] = [] then [] else [GotChat (UserID sample_session) [72, 105]])"
  by (rule message_end_to_end [OF sample_gcm_ok sample_sender sample_receiver(1) chat_net_simps(1)
        sample_receiver(2) chat_net_simps(3)])

text \<open>
  A voice frame sent through the API reaches the peer's voice processor: after the peer's
  goroutine for the stream, the processor, which was idle, takes exactly this frame and calls the
  registered callback with it.
\<close>

lemma voice_end_to_end:
  assumes "gcm_ok cr" "aes_key (Key xa)" "12 \<le> length rnd"
    and "nw_DatagramLogTargetCount (ns_cfg a) \<noteq> 0" "repo_lookup (ns_repo a) i = Some ra"
    and "ns_heap a ra = Some xa" "Conn xa \<noteq> None" "ch_closed (ReadyChan xa)"
    and "is_writer out" "qs_out out = []" "qs_write_err out = None"
    and "is_reader inc" "qs_read_err inc = None"
    and "nw_DatagramLogTargetCount (ns_cfg b) \<noteq> 0" "ns_heap b rb = Some xb" "Key xb = Key xa"
    and "net_ok b" "\<not> Closing xb" "voice_processor rb b = None"
    and "onVoiceHandler (ns_handlers b) = Some (non_empty cb)"
  shows "\<exists>rs a' out' b' c. api_send_voice False frame a = (Ok rs, a') \<and> ra \<in> set rs \<and>
    stream_to cr rnd (set_first_byte (msg_byte VOICE) frame) (Inr out) ra a' = Ok (Some out', a') \<and>
    handle_uni_stream cr n rb (inc\<lparr>qs_in := qs_out out'\<rparr>) b = Ok b' \<and>
    voice_processor rb b' = Some (c, True) \<and> voice_processor rb c = None \<and>
    ns_calls c = ns_calls b @ (if frame = [] then [] else cb (UserID xb) frame)"
proof -
  obtain rs a' where s: "send_in_stream False (msg_byte VOICE # frame) a = (Ok rs, a')" "ra \<in> set rs"
    "ns_heap a' = ns_heap a"
    using stored_is_target [OF assms(4-8)] by blast
  have heap: "ns_heap a' ra = Some xa" using s(3) assms(6) by simp
  obtain out' where o: "stream_to cr rnd (msg_byte VOICE # frame) (Inr out) ra a' = Ok (Some out', a')"
    "handle_uni_stream cr n rb (inc\<lparr>qs_in := qs_out out'\<rparr>) b = process_data rb (msg_byte VOICE # frame) b"
    using stream_transfer [OF assms(1-3) heap assms(9-13,15,16,14), of "msg_byte VOICE # frame"] by blast
  have "chan_recv (VoiceChan xb) = None"
    using assms(15,19) by (auto simp: voice_processor_def split: option.splits)
  then have idle: "ch_buf (VoiceChan xb) = []" "\<not> ch_closed (VoiceChan xb)"
    by (simp_all add: chan_recv_blocks_iff)
  have cap: "ch_cap (VoiceChan xb) = 100"
    using net_okD(3) [OF assms(17,15)] by (simp add: session_ok_def)
  let ?x = "xb\<lparr>VoiceChan := (VoiceChan xb)\<lparr>ch_buf := [frame]\<rparr>\<rparr>"
  let ?b = "set_session rb ?x b"
  have proc: "process_data rb (msg_byte VOICE # frame) b = Ok ?b"
    using assms(15) idle cap by (simp add: process_data_def try_send_def)
  let ?c = "call_data (Some (non_empty cb)) (UserID xb) frame (set_session rb xb b)"
  have idle_again: "xb\<lparr>VoiceChan := (VoiceChan xb)\<lparr>ch_buf := []\<rparr>\<rparr> = xb" using idle(1) by simp
  have "voice_processor rb ?b = Some (?c, True)"
    using assms(20) by (simp add: voice_processor_def chan_recv_def idle_again)
  moreover have "voice_processor rb ?c = None"
    using idle by (simp add: voice_processor_def chan_recv_def)
  moreover have "ns_calls ?c = ns_calls b @ (if frame = [] then [] else cb (UserID xb) frame)"
    by (simp add: call_data_def non_empty_def)
  ultimately show ?thesis using s o proc by (auto simp: api_send_voice_def)
qed

definition voice_net :: "sample_call net" where
  "voice_net = register_on_voice (Some (\<lambda>i p. [GotVoice i p])) sample_net"

lemma voice_net_simps:
  "nw_DatagramLogTargetCount (ns_cfg voice_net) \<noteq> 0" "ns_heap voice_net 0 = Some sample_session"
  "onVoiceHandler (ns_handlers voice_net) = Some (non_empty (\<lambda>i p. [GotVoice i p]))"
  "voice_processor 0 voice_net = None"
proof -
  show "ns_heap voice_net 0 = Some sample_session"
    by (simp add: voice_net_def register_on_voice_def save_voice_handler_def)
  then show "voice_processor 0 voice_net = None" by (simp add: voice_processor_def chan_recv_def)
  show "nw_DatagramLogTargetCount (ns_cfg voice_net) \<noteq> 0"
    by (simp add: voice_net_def register_on_voice_def save_voice_handler_def sample_net_def
        new_networking_serv_def sample_cfg_def)
  show "onVoiceHandler (ns_handlers voice_net) = Some (non_empty (\<lambda>i p. [GotVoice i p]))"
    by (simp add: voice_net_def register_on_voice_def save_voice_handler_def)
qed

lemma voice_net_ok: "net_ok voice_net"
  using sample_net_ok net_ok_core [of voice_net sample_net]
  by (simp add: voice_net_def register_on_voice_def save_voice_handler_def net_core_def)

lemma voice_end_to_end_witness:
  "\<exists>rs a' out' b' c. api_send_voice False [4, 2] ready_net = (Ok rs, a') \<and> 0 \<in> set rs \<and>
     stream_to sample_crypto (replicate 12 5) (set_first_byte (msg_byte VOICE) [4, 2])
       (Inr (sample_stream SendStream [])) 0 a' = Ok (Some out', a') \<and>
     handle_uni_stream sample_crypto 1 0 ((sample_stream ReceiveStream [])\<lparr>qs_in := qs_out out'\<rparr>) voice_net = Ok b' \<and>
     voice_processor 0 b' = Some (c, True) \<and> voice_processor 0 c = None \<and>
     ns_calls c = ns_calls voice_net @
       (if [4, 2 :: byte] = [] then [] else [GotVoice (UserID sample_session) [4, 2]])"
  by (rule voice_end_to_end [OF sample_gcm_ok sample_sender voice_net_simps(1,2)
        sample_receiver(2) voice_net_ok sample_net_simps(4) voice_net_simps(4,3)])

end
